(* ===== verification/Prelude.thy ===== *)
theory Prelude
  imports Main "HOL-Library.Word"
begin

unbundle bit_operations_syntax

text \<open>
  What every component of the model shares: the machine types of the C code, the faults a
  C operation can have and the result type that carries them, C strings as byte lists, and
  the generic list and word lemmas the component proofs use.

  A fault is undefined behaviour the source reaches (a read or write outside an object, a
  release of memory that is not live, a call through a null pointer).  It is a value of the
  model, \<open>Inl\<close> in a sum, so that a theorem about a result also says that no fault occurs.
\<close>

section \<open>Machine types\<close>

type_synonym byte = "8 word"
type_synonym u32 = "32 word"
type_synonym i32 = "32 word"
type_synonym u64 = "64 word"

section \<open>Faults and results\<close>

datatype c_fault =
    OutOfBounds       \<comment> \<open>a read or write outside the object\<close>
  | BadFree           \<comment> \<open>free or fclose of something that is not live\<close>
  | UseAfterFree      \<comment> \<open>an access to an object that has been released\<close>
  | NullDeref         \<comment> \<open>a null pointer is dereferenced or called\<close>
  | NoReturnValue     \<comment> \<open>control falls off the end of a non-void function\<close>

type_synonym 'a res = "c_fault + 'a"

definition rbind :: "'a res \<Rightarrow> ('a \<Rightarrow> 'b res) \<Rightarrow> 'b res" where
  "rbind m f = (case m of Inl e \<Rightarrow> Inl e | Inr a \<Rightarrow> f a)"

lemma rbind_simps [simp]:
  "rbind (Inl e) f = Inl e"
  "rbind (Inr a) f = f a"
  by (simp_all add: rbind_def)

lemma rbind_eq_Inr: "rbind m f = Inr b \<longleftrightarrow> (\<exists>a. m = Inr a \<and> f a = Inr b)"
  by (cases m) auto

text \<open>Results of loops that take a fuel: \<open>None\<close> is a loop that has not ended.\<close>

definition obind :: "'a option res \<Rightarrow> ('a \<Rightarrow> 'b option res) \<Rightarrow> 'b option res" where
  "obind x f = rbind x (\<lambda>r. case r of None \<Rightarrow> Inr None | Some a \<Rightarrow> f a)"

lemma obind_simps [simp]:
  "obind (Inl e) f = Inl e" "obind (Inr None) f = Inr None" "obind (Inr (Some a)) f = f a"
  by (simp_all add: obind_def)

section \<open>C strings\<close>

text \<open>
  An array of \<open>char\<close> is a byte list; the C string in it ends before the first NUL byte.
  \<open>sch\<close> reads a byte as the \<open>signed char\<close> that \<open>char\<close> is on the platforms the library
  supports (x86 Linux).
\<close>

type_synonym cbytes = "byte list"

definition cstr :: "cbytes \<Rightarrow> cbytes" where
  "cstr bs = takeWhile (\<lambda>b. b \<noteq> 0) bs"

definition cbytes_of :: "string \<Rightarrow> cbytes" where
  "cbytes_of s = map (\<lambda>c. of_char c) s"

definition sch :: "byte \<Rightarrow> int" where
  "sch b = sint b"

definition terminated :: "cbytes \<Rightarrow> bool" where
  "terminated bs \<longleftrightarrow> 0 \<in> set bs"

definition no_nul :: "cbytes \<Rightarrow> bool" where
  "no_nul bs \<longleftrightarrow> 0 \<notin> set bs"

definition rd :: "'a list \<Rightarrow> nat \<Rightarrow> 'a res" where
  "rd xs i = (if i < length xs then Inr (xs ! i) else Inl OutOfBounds)"

definition wr :: "'a list \<Rightarrow> nat \<Rightarrow> 'a \<Rightarrow> 'a list res" where
  "wr xs i v = (if i < length xs then Inr (xs[i := v]) else Inl OutOfBounds)"

text \<open>\<open>memcpy\<close> of \<open>n\<close> elements from offset \<open>soff\<close> of one object to offset \<open>doff\<close> of another.\<close>

definition memcpy :: "'a list \<Rightarrow> nat \<Rightarrow> 'a list \<Rightarrow> nat \<Rightarrow> nat \<Rightarrow> 'a list res" where
  "memcpy dst doff src soff n =
    (if doff + n \<le> length dst \<and> soff + n \<le> length src
     then Inr (take doff dst @ take n (drop soff src) @ drop (doff + n) dst)
     else Inl OutOfBounds)"

section \<open>Lemma collections\<close>

named_theorems cstr_simps
named_theorems rd_wr_simps

lemma rd_in [rd_wr_simps]: "i < length xs \<Longrightarrow> rd xs i = Inr (xs ! i)"
  by (simp add: rd_def)

lemma rd_out [rd_wr_simps]: "\<not> i < length xs \<Longrightarrow> rd xs i = Inl OutOfBounds"
  by (simp add: rd_def)

lemma wr_in [rd_wr_simps]: "i < length xs \<Longrightarrow> wr xs i v = Inr (xs[i := v])"
  by (simp add: wr_def)

lemma wr_out [rd_wr_simps]: "\<not> i < length xs \<Longrightarrow> wr xs i v = Inl OutOfBounds"
  by (simp add: wr_def)

text \<open>Accesses near the end of a known prefix.\<close>

named_theorems seg_simps

lemma rd_seg [seg_simps]:
  "rd (pre @ a # s) (length pre) = Inr a"
  "rd (pre @ a # b # s) (Suc (length pre)) = Inr b"
  "rd (pre @ a # b # c # s) (Suc (Suc (length pre))) = Inr c"
  "rd (pre @ a # b # c # d # s) (length pre + 3) = Inr d"
  "rd (pre @ [a, b]) (Suc (Suc (length pre))) = Inl OutOfBounds"
  by (simp_all add: rd_def nth_append)

lemma wr_seg [seg_simps]:
  "wr (pre @ a # s) (length pre) v = Inr (pre @ v # s)"
  "wr (pre @ a # b # s) (Suc (length pre)) v = Inr (pre @ a # v # s)"
  "wr (pre @ a # b # c # s) (Suc (Suc (length pre))) v = Inr (pre @ a # b # v # s)"
  "wr (pre @ a # b # c # d # s) (length pre + 3) v = Inr (pre @ a # b # c # v # s)"
  by (simp_all add: wr_def list_update_append numeral_eq_Suc)

text \<open>An operation whose only fault is an access outside an array.\<close>

named_theorems only_oob_intros

definition only_oob :: "'a res \<Rightarrow> bool" where
  "only_oob m \<longleftrightarrow> (\<forall>e. m = Inl e \<longrightarrow> e = OutOfBounds)"

lemma only_oob_rules [only_oob_intros]:
  "only_oob (Inr a)"
  "only_oob (rd xs i)"
  "only_oob (wr xs i v)"
  "only_oob m \<Longrightarrow> (\<And>a. only_oob (f a)) \<Longrightarrow> only_oob (rbind m f)"
  by (cases m; auto simp: only_oob_def rd_def wr_def)+

lemma cstr_append_nul [cstr_simps]: "no_nul s \<Longrightarrow> cstr (s @ 0 # r) = s"
  by (induction s) (auto simp: cstr_def no_nul_def)

lemma cstr_no_nul [cstr_simps]: "no_nul s \<Longrightarrow> cstr s = s"
  by (induction s) (auto simp: cstr_def no_nul_def)

lemma no_nul_cstr [simp, intro]: "no_nul (cstr bs)"
  by (auto simp: no_nul_def cstr_def dest: set_takeWhileD)

lemma no_nul_simps [cstr_simps]:
  "no_nul []"
  "no_nul (b # bs) \<longleftrightarrow> b \<noteq> 0 \<and> no_nul bs"
  "no_nul (as @ bs) \<longleftrightarrow> no_nul as \<and> no_nul bs"
  by (auto simp: no_nul_def)

lemma terminated_split:
  assumes "terminated bs"
  obtains r where "bs = cstr bs @ 0 # r"
proof -
  have "dropWhile (\<lambda>b. b \<noteq> 0) bs \<noteq> []"
    using assms by (auto simp: terminated_def dropWhile_eq_Nil_conv)
  then obtain c r where d: "dropWhile (\<lambda>b. b \<noteq> 0) bs = c # r"
    by (meson neq_Nil_conv)
  then have "c = 0"
    by (metis (mono_tags, lifting) hd_dropWhile list.distinct(1) list.sel(1))
  with d have "bs = cstr bs @ 0 # r"
    by (metis cstr_def takeWhile_dropWhile_id)
  then show thesis by (rule that)
qed

end
