(* ===== verification/List_Head.thy ===== *)
theory List_Head
  imports Prelude
begin

text \<open>
  The intrusive circular doubly linked list of \<open>src/src/myfcp/list.h\<close>.  A \<open>struct list_head\<close>
  is an address; the two pointer fields of all of them are the two maps of the record
  \<open>links\<close>, so that aliasing between the arguments of an operation is the aliasing of the code.
  The abstraction \<open>ring s h xs\<close> says that the list headed by \<open>h\<close> holds the nodes \<open>xs\<close>, in
  order, through both fields.
\<close>

section \<open>Model\<close>

type_synonym addr = nat

record links =
  prv :: "addr \<Rightarrow> addr"
  nxt :: "addr \<Rightarrow> addr"

definition set_prv :: "addr \<Rightarrow> addr \<Rightarrow> links \<Rightarrow> links" where
  "set_prv p v s = s\<lparr>prv := (prv s)(p := v)\<rparr>"

definition set_nxt :: "addr \<Rightarrow> addr \<Rightarrow> links \<Rightarrow> links" where
  "set_nxt p v s = s\<lparr>nxt := (nxt s)(p := v)\<rparr>"

definition init_list_head :: "addr \<Rightarrow> links \<Rightarrow> links" where
  "init_list_head p s = set_prv p p (set_nxt p p s)"

definition list_add_between :: "addr \<Rightarrow> addr \<Rightarrow> addr \<Rightarrow> links \<Rightarrow> links" where
  "list_add_between new_node prev next s =
    (let s = set_prv next new_node s;
         s = set_nxt new_node next s;
         s = set_prv new_node prev s
     in set_nxt prev new_node s)"

definition list_add_tail :: "addr \<Rightarrow> addr \<Rightarrow> links \<Rightarrow> links" where
  "list_add_tail new_node head s = list_add_between new_node (prv s head) head s"

definition list_add :: "addr \<Rightarrow> addr \<Rightarrow> links \<Rightarrow> links" where
  "list_add new_node head s = list_add_between new_node head (nxt s head) s"

definition list_del :: "addr \<Rightarrow> links \<Rightarrow> links" where
  "list_del p s =
    (let s = set_nxt (prv s p) (nxt s p) s
     in set_prv (nxt s p) (prv s p) s)"

definition list_replace :: "addr \<Rightarrow> addr \<Rightarrow> links \<Rightarrow> links" where
  "list_replace old new_node s =
    (let s = set_nxt new_node (nxt s old) s;
         s = set_prv (nxt s new_node) new_node s;
         s = set_prv new_node (prv s old) s
     in set_nxt (prv s new_node) new_node s)"

definition list_empty :: "addr \<Rightarrow> links \<Rightarrow> bool" where
  "list_empty head s \<longleftrightarrow> nxt s head = head"

definition list_pop_front :: "addr \<Rightarrow> links \<Rightarrow> addr option \<times> links" where
  "list_pop_front head s =
    (if list_empty head s then (None, s)
     else let pos = nxt s head in (Some pos, list_del pos s))"

definition list_front :: "addr \<Rightarrow> links \<Rightarrow> addr option" where
  "list_front head s =
    (if list_empty head s then None else let pos = nxt s head in Some pos)"

text \<open>
  The loop of \<open>list_size\<close> over \<open>list_for_each_safe\<close>: \<open>pos\<close> and its saved successor \<open>n\<close>.  On a
  corrupt list it may run for ever, which is the value \<open>None\<close>.
\<close>

partial_function (option) list_size_loop ::
    "links \<Rightarrow> addr \<Rightarrow> addr \<Rightarrow> addr \<Rightarrow> i32 \<Rightarrow> i32 option" where
  "list_size_loop s head pos n cnt =
    (if pos = head then Some cnt
     else list_size_loop s head n (nxt s n) (cnt + 1))"

definition list_size :: "addr \<Rightarrow> links \<Rightarrow> i32 option" where
  "list_size head s = list_size_loop s head (nxt s head) (nxt s (nxt s head)) 0"

section \<open>The sequence a list holds\<close>

text \<open>
  \<open>chain s a xs b\<close>: from \<open>a\<close>, the \<open>next\<close> fields lead through exactly \<open>xs\<close> to \<open>b\<close>, and the
  \<open>prev\<close> fields lead back.  A list is a chain from its head to itself without repetition.
\<close>

fun chain :: "links \<Rightarrow> addr \<Rightarrow> addr list \<Rightarrow> addr \<Rightarrow> bool" where
  "chain s a [] b \<longleftrightarrow> nxt s a = b \<and> prv s b = a"
| "chain s a (x # xs) b \<longleftrightarrow> nxt s a = x \<and> prv s x = a \<and> chain s x xs b"

definition ring :: "links \<Rightarrow> addr \<Rightarrow> addr list \<Rightarrow> bool" where
  "ring s h xs \<longleftrightarrow> chain s h xs h \<and> distinct (h # xs)"

named_theorems link_simps

lemma set_prv_sel [simp, link_simps]:
  "nxt (set_prv p v s) = nxt s"
  "prv (set_prv p v s) = (prv s)(p := v)"
  by (simp_all add: set_prv_def)

lemma set_nxt_sel [simp, link_simps]:
  "nxt (set_nxt p v s) = (nxt s)(p := v)"
  "prv (set_nxt p v s) = prv s"
  by (simp_all add: set_nxt_def)

lemma chain_frame:
  assumes "chain s a xs b"
    and "\<And>p. p \<in> set (a # xs) \<Longrightarrow> nxt t p = nxt s p"
    and "\<And>p. p \<in> set (b # xs) \<Longrightarrow> prv t p = prv s p"
  shows "chain t a xs b"
  using assms by (induction xs arbitrary: a) auto

lemma chain_first: "chain s a xs b \<Longrightarrow> nxt s a = hd (xs @ [b])"
  by (cases xs) auto

lemma chain_last: "chain s a xs b \<Longrightarrow> prv s b = last (a # xs)"
  by (induction xs arbitrary: a) auto

lemma chain_at:
  "chain s a (xs @ p # ys) b \<Longrightarrow> prv s p = last (a # xs) \<and> nxt s p = hd (ys @ [b])"
proof (induction xs arbitrary: a)
  case Nil
  then show ?case by (cases ys) auto
qed auto

lemma chain_insert:
  assumes "chain s a (xs @ ys) b" and "distinct (a # xs @ ys)" and "b \<notin> set (xs @ ys)"
    and "n \<notin> set (a # b # xs @ ys)"
  shows "chain (list_add_between n (last (a # xs)) (hd (ys @ [b])) s) a (xs @ n # ys) b"
  using assms
proof (induction xs arbitrary: a)
  case Nil
  then show ?case
    by (cases ys) (auto simp: list_add_between_def elim!: chain_frame)
next
  case (Cons x xs)
  then have "chain (list_add_between n (last (x # xs)) (hd (ys @ [b])) s) x (xs @ n # ys) b"
    by simp
  moreover have "last (x # xs) \<in> set (x # xs)" by (rule last_in_set) simp
  then have "last (x # xs) \<noteq> a" using Cons.prems by auto
  moreover have "hd (ys @ [b]) \<noteq> x" using Cons.prems by (cases ys) auto
  ultimately show ?case
    using Cons.prems by (auto simp: list_add_between_def Let_def)
qed

lemma chain_remove:
  assumes "chain s a (xs @ p # ys) b" and "distinct (a # xs @ p # ys)"
    and "b \<notin> set (xs @ p # ys)"
  shows "chain (list_del p s) a (xs @ ys) b"
  using assms
proof (induction xs arbitrary: a)
  case Nil
  then show ?case
    by (cases ys) (auto simp: list_del_def Let_def elim!: chain_frame)
next
  case (Cons x xs)
  then have "chain (list_del p s) x (xs @ ys) b" by simp
  moreover have "prv s p = last (x # xs)" "nxt s p = hd (ys @ [b])"
    using Cons.prems chain_at [of s a "x # xs" p ys b] by auto
  moreover have "last (x # xs) \<in> set (x # xs)" by (rule last_in_set) simp
  then have "last (x # xs) \<noteq> a" "last (x # xs) \<noteq> p" using Cons.prems by auto
  moreover have "hd (ys @ [b]) \<noteq> x" using Cons.prems by (cases ys) auto
  ultimately show ?case
    using Cons.prems by (auto simp: list_del_def Let_def)
qed

lemma chain_replace:
  assumes "chain s a (xs @ p # ys) b" and "distinct (a # xs @ p # ys)"
    and "b \<notin> set (xs @ p # ys)" and "n \<notin> set (a # b # xs @ p # ys)"
  shows "chain (list_replace p n s) a (xs @ n # ys) b"
  using assms
proof (induction xs arbitrary: a)
  case Nil
  then show ?case
    by (cases ys) (auto simp: list_replace_def Let_def elim!: chain_frame)
next
  case (Cons x xs)
  then have "chain (list_replace p n s) x (xs @ n # ys) b" by simp
  moreover have "prv s p = last (x # xs)" "nxt s p = hd (ys @ [b])"
    using Cons.prems chain_at [of s a "x # xs" p ys b] by auto
  moreover have "last (x # xs) \<in> set (x # xs)" by (rule last_in_set) simp
  then have "last (x # xs) \<noteq> a" "last (x # xs) \<noteq> n" using Cons.prems by auto
  moreover have "hd (ys @ [b]) \<noteq> x" "hd (ys @ [b]) \<noteq> n" using Cons.prems by (cases ys; auto)+
  ultimately show ?case
    using Cons.prems by (auto simp: list_replace_def Let_def)
qed

section \<open>What each operation does to the sequence\<close>

lemma ring_init: "ring (init_list_head h s) h []"
  by (simp add: ring_def init_list_head_def)

lemma ring_add_tail:
  assumes "ring s h xs" and "n \<notin> set (h # xs)"
  shows "ring (list_add_tail n h s) h (xs @ [n])"
  using assms chain_insert [of s h xs "[]" h n] chain_last [of s h xs h]
  by (auto simp: ring_def list_add_tail_def)

lemma ring_add:
  assumes "ring s h xs" and "n \<notin> set (h # xs)"
  shows "ring (list_add n h s) h (n # xs)"
  using assms chain_insert [of s h "[]" xs h n] chain_first [of s h xs h]
  by (auto simp: ring_def list_add_def)

lemma ring_del: "ring s h (xs @ p # ys) \<Longrightarrow> ring (list_del p s) h (xs @ ys)"
  using chain_remove [of s h xs p ys h] by (auto simp: ring_def)

lemma ring_replace:
  assumes "ring s h (xs @ p # ys)" and "n \<notin> set (h # xs @ p # ys)"
  shows "ring (list_replace p n s) h (xs @ n # ys)"
  using assms chain_replace [of s h xs p ys h n] by (auto simp: ring_def)

lemma ring_empty: "ring s h xs \<Longrightarrow> list_empty h s \<longleftrightarrow> xs = []"
  by (cases xs) (auto simp: ring_def list_empty_def)

lemma ring_front: "ring s h xs \<Longrightarrow> list_front h s = (case xs of [] \<Rightarrow> None | x # _ \<Rightarrow> Some x)"
  by (cases xs) (auto simp: list_front_def ring_empty, auto simp: ring_def)

lemma ring_pop_front_Nil: "ring s h [] \<Longrightarrow> list_pop_front h s = (None, s)"
  by (simp add: list_pop_front_def ring_empty)

lemma ring_pop_front_Cons:
  assumes "ring s h (x # xs)"
  shows "list_pop_front h s = (Some x, list_del x s)" and "ring (list_del x s) h xs"
  using assms ring_del [of s h "[]" x xs]
  by (auto simp: list_pop_front_def ring_empty) (auto simp: ring_def)

text \<open>The fields an operation on one list writes are those of that list and the new node.\<close>

lemma ring_frame:
  assumes "ring s g ys"
    and "\<And>p. p \<in> set (g # ys) \<Longrightarrow> nxt t p = nxt s p \<and> prv t p = prv s p"
  shows "ring t g ys"
  using assms by (auto simp: ring_def intro: chain_frame)

lemma ring_ends:
  assumes "ring s h xs"
  shows "prv s h \<in> set (h # xs)" and "nxt s h \<in> set (h # xs)"
proof -
  have "prv s h = last (h # xs)" using assms chain_last by (auto simp: ring_def)
  then show "prv s h \<in> set (h # xs)" by (metis last_in_set list.distinct(1))
  have "nxt s h = hd (xs @ [h])" using assms chain_first by (auto simp: ring_def)
  then show "nxt s h \<in> set (h # xs)" by (cases xs) auto
qed

lemma ring_add_tail_other:
  assumes "ring s h xs" and "ring s g ys" and "set (h # xs) \<inter> set (g # ys) = {}"
    and "n \<notin> set (g # ys)"
  shows "ring (list_add_tail n h s) g ys"
proof (rule ring_frame [OF assms(2)])
  fix p assume "p \<in> set (g # ys)"
  moreover have "prv s h \<in> set (h # xs)" by (rule ring_ends [OF assms(1)])
  ultimately have "p \<noteq> prv s h" "p \<noteq> h" "p \<noteq> n" using assms(3,4) by auto
  then show "nxt (list_add_tail n h s) p = nxt s p \<and> prv (list_add_tail n h s) p = prv s p"
    by (simp add: list_add_tail_def list_add_between_def)
qed

lemma ring_edit_other:
  assumes "ring s h (xs @ p # ys)" and "ring s g zs"
    and "set (n # h # xs @ p # ys) \<inter> set (g # zs) = {}"
  shows "ring (list_del p s) g zs \<and> ring (list_replace p n s) g zs"
proof -
  from assms(1) chain_at [of s h xs p ys h]
  have "prv s p = last (h # xs)" and "nxt s p = hd (ys @ [h])" by (auto simp: ring_def)
  moreover have "last (h # xs) \<in> set (h # xs)" by (rule last_in_set) simp
  moreover have "hd (ys @ [h]) \<in> set (h # ys)" by (cases ys) auto
  ultimately have "prv s p \<notin> set (g # zs)" and "nxt s p \<notin> set (g # zs)"
      and "n \<notin> set (g # zs)" and "p \<notin> set (g # zs)"
    using assms(3) by auto
  then show ?thesis
    by (auto intro!: ring_frame [OF assms(2)] simp: list_del_def list_replace_def Let_def)
qed

lemma size_loop_eq:
  assumes "chain s a xs h" and "h \<notin> set xs"
  shows "list_size_loop s h (nxt s a) (nxt s (nxt s a)) c = Some (c + of_nat (length xs))"
  using assms
proof (induction xs arbitrary: a c)
  case Nil
  then show ?case by (simp add: list_size_loop.simps)
next
  case (Cons x xs)
  from Cons.prems have ne: "nxt s a \<noteq> h" and x: "nxt s a = x" and ch: "chain s x xs h"
    by auto
  have "list_size_loop s h (nxt s a) (nxt s (nxt s a)) c
      = list_size_loop s h (nxt s x) (nxt s (nxt s x)) (c + 1)"
    using ne by (subst list_size_loop.simps) (simp add: x)
  also have "\<dots> = Some (c + 1 + of_nat (length xs))"
    using Cons.prems by (intro Cons.IH ch) auto
  finally show ?case by (simp add: algebra_simps)
qed

lemma ring_size: "ring s h xs \<Longrightarrow> list_size h s = Some (of_nat (length xs))"
  using size_loop_eq [of s h xs h 0] by (auto simp: ring_def list_size_def)

section \<open>The interface its clients rely on\<close>

text \<open>
  What a client of the list needs: a representation \<open>holds\<close> of the node sequence, and that
  appending, popping and removing act on it as on a sequence.
\<close>

locale node_queue =
  fixes holds :: "'s \<Rightarrow> addr list \<Rightarrow> bool"
    and usable :: "addr \<Rightarrow> bool"
    and push :: "addr \<Rightarrow> 's \<Rightarrow> 's"
    and pop :: "'s \<Rightarrow> addr option \<times> 's"
    and remove :: "addr \<Rightarrow> 's \<Rightarrow> 's"
  assumes holds_push: "holds s xs \<Longrightarrow> usable n \<Longrightarrow> n \<notin> set xs \<Longrightarrow> holds (push n s) (xs @ [n])"
    and holds_pop_Nil: "holds s [] \<Longrightarrow> pop s = (None, s)"
    and holds_pop_Cons: "holds s (x # xs) \<Longrightarrow> \<exists>t. pop s = (Some x, t) \<and> holds t xs"
    and holds_remove: "holds s (xs @ n # ys) \<Longrightarrow> holds (remove n s) (xs @ ys)"
    and holds_distinct: "holds s xs \<Longrightarrow> distinct xs"
begin

lemma push_all:
  assumes "holds s xs" and "distinct (xs @ ns)" and "\<forall>n \<in> set ns. usable n"
  shows "holds (fold push ns s) (xs @ ns)"
  using assms
proof (induction ns arbitrary: s xs)
  case (Cons n ns)
  then have "holds (push n s) (xs @ [n])" by (auto intro: holds_push)
  from Cons.IH [OF this] Cons.prems show ?case by auto
qed simp

lemma pop_None_iff: "holds s xs \<Longrightarrow> fst (pop s) = None \<longleftrightarrow> xs = []"
  by (cases xs) (auto simp: holds_pop_Nil dest: holds_pop_Cons)

lemma fifo:
  assumes "holds s []" and "distinct (n # ns)" and "\<forall>m \<in> set (n # ns). usable m"
  shows "\<exists>t. pop (fold push (n # ns) s) = (Some n, t) \<and> holds t ns"
  using push_all [OF assms(1), of "n # ns"] assms(2,3) by (auto dest: holds_pop_Cons)

end

interpretation list_queue: node_queue
  "\<lambda>s. ring s h" "\<lambda>n. n \<noteq> h" "\<lambda>n. list_add_tail n h" "list_pop_front h" list_del
  for h
proof unfold_locales
  show "\<exists>t. list_pop_front h s = (Some x, t) \<and> ring t h xs" if "ring s h (x # xs)" for s x xs
    using that ring_pop_front_Cons by blast
qed (auto simp: ring_pop_front_Nil ring_del intro: ring_add_tail, auto simp: ring_def)

section \<open>Properties\<close>

text \<open>C7: a list built by \<open>list_add_tail\<close> is a FIFO queue: after appending distinct nodes to
  an initialised head, \<open>list_pop_front\<close> returns the first of them, and leaves the links of a
  list of the others, in order; \<open>list_size\<close> terminates and returns their number.\<close>

theorem list_fifo:
  assumes "distinct (h # n # ns)"
  shows "\<exists>t. list_pop_front h (fold (\<lambda>m. list_add_tail m h) (n # ns) (init_list_head h s)) = (Some n, t) \<and>
    ring t h ns \<and> list_size h t = Some (word_of_nat (length ns))"
  using list_queue.fifo [OF ring_init, of n ns h s] assms ring_size by fastforce

theorem list_fifo_witness:
  "\<exists>t. list_pop_front 0 (fold (\<lambda>m. list_add_tail m 0) [1, 2, 3]
      (init_list_head 0 \<lparr>prv = \<lambda>_. 7, nxt = \<lambda>_. 7\<rparr>)) = (Some 1, t) \<and>
    ring t 0 [2, 3] \<and> list_size 0 t = Some (word_of_nat (length [2, 3 :: addr]))"
  by (rule list_fifo) simp

text \<open>C6: \<open>list_del\<close> unlinks exactly its node and \<open>list_replace\<close> puts the new node at the
  place of the old one; both keep the list a well-formed ring in both directions, and every
  list that shares no node with it is untouched.\<close>

theorem list_edit:
  assumes "ring s h (xs @ p # ys)" and "n \<notin> set (h # xs @ p # ys)"
    and "ring s g zs" and "set (n # h # xs @ p # ys) \<inter> set (g # zs) = {}"
  shows "ring (list_del p s) h (xs @ ys) \<and> ring (list_del p s) g zs \<and>
    ring (list_replace p n s) h (xs @ n # ys) \<and> ring (list_replace p n s) g zs"
  using ring_del [OF assms(1)] ring_replace [OF assms(1,2)] ring_edit_other [OF assms(1,3,4)]
  by blast

theorem list_edit_witness:
  "let s = fold (\<lambda>m. list_add_tail m 0) [1, 2, 3] (init_list_head 0 (init_list_head 9
             \<lparr>prv = \<lambda>_. 7, nxt = \<lambda>_. 7\<rparr>))
   in ring (list_del 2 s) 0 ([1] @ [3]) \<and> ring (list_del 2 s) 9 [] \<and>
      ring (list_replace 2 4 s) 0 ([1] @ 4 # [3]) \<and> ring (list_replace 2 4 s) 9 []"
  unfolding Let_def
  by (rule list_edit)
    (simp_all add: ring_def list_add_tail_def list_add_between_def init_list_head_def)

end
