(* ===== verification/Md5.thy ===== *)
theory Md5
  imports Prelude
begin

text \<open>
  The MD5 implementation of \<open>src/src/myfcp/genmd5.c\<close>, at the 32-bit width of its
  \<open>unsigned int\<close>.  \<open>struct md5_ctx\<close> is the record \<open>md5_ctx\<close>; its two-element bit
  counter and four-element chaining state are a pair and a quadruple.  Array accesses are
  checked: an index outside the array is the fault \<open>OutOfBounds\<close>.
\<close>

section \<open>Model\<close>

type_synonym quad = "u32 \<times> u32 \<times> u32 \<times> u32"

record md5_ctx =
  count :: "u32 \<times> u32"
  state :: quad
  buffer :: cbytes

definition md5_F :: "u32 \<Rightarrow> u32 \<Rightarrow> u32 \<Rightarrow> u32" where
  "md5_F x y z = (x AND y) OR (NOT x AND z)"

definition md5_G :: "u32 \<Rightarrow> u32 \<Rightarrow> u32 \<Rightarrow> u32" where
  "md5_G x y z = (x AND z) OR (y AND NOT z)"

definition md5_H :: "u32 \<Rightarrow> u32 \<Rightarrow> u32 \<Rightarrow> u32" where
  "md5_H x y z = x XOR y XOR z"

definition md5_I :: "u32 \<Rightarrow> u32 \<Rightarrow> u32 \<Rightarrow> u32" where
  "md5_I x y z = y XOR (x OR NOT z)"

definition ROTATE_LEFT :: "u32 \<Rightarrow> nat \<Rightarrow> u32" where
  "ROTATE_LEFT x n = push_bit n x OR drop_bit (32 - n) x"

definition FF :: "u32 \<Rightarrow> u32 \<Rightarrow> u32 \<Rightarrow> u32 \<Rightarrow> u32 \<Rightarrow> nat \<Rightarrow> u32 \<Rightarrow> u32" where
  "FF a b c d x s ac =
    (let a = a + (md5_F b c d + x + ac); a = ROTATE_LEFT a s; a = a + b in a)"

definition GG :: "u32 \<Rightarrow> u32 \<Rightarrow> u32 \<Rightarrow> u32 \<Rightarrow> u32 \<Rightarrow> nat \<Rightarrow> u32 \<Rightarrow> u32" where
  "GG a b c d x s ac =
    (let a = a + (md5_G b c d + x + ac); a = ROTATE_LEFT a s; a = a + b in a)"

definition HH :: "u32 \<Rightarrow> u32 \<Rightarrow> u32 \<Rightarrow> u32 \<Rightarrow> u32 \<Rightarrow> nat \<Rightarrow> u32 \<Rightarrow> u32" where
  "HH a b c d x s ac =
    (let a = a + (md5_H b c d + x + ac); a = ROTATE_LEFT a s; a = a + b in a)"

definition II :: "u32 \<Rightarrow> u32 \<Rightarrow> u32 \<Rightarrow> u32 \<Rightarrow> u32 \<Rightarrow> nat \<Rightarrow> u32 \<Rightarrow> u32" where
  "II a b c d x s ac =
    (let a = a + (md5_I b c d + x + ac); a = ROTATE_LEFT a s; a = a + b in a)"

definition PADDING :: cbytes where
  "PADDING = 0x80 # replicate 63 0"

function md5_encode_loop :: "cbytes \<Rightarrow> u32 list \<Rightarrow> nat \<Rightarrow> nat \<Rightarrow> nat \<Rightarrow> cbytes res" where
  "md5_encode_loop output input len i j =
    (if j < len then
       rbind (rd input i) (\<lambda>w.
       rbind (wr output j (ucast (w AND 0xFF))) (\<lambda>output.
       rbind (wr output (j + 1) (ucast (drop_bit 8 w AND 0xFF))) (\<lambda>output.
       rbind (wr output (j + 2) (ucast (drop_bit 16 w AND 0xFF))) (\<lambda>output.
       rbind (wr output (j + 3) (ucast (drop_bit 24 w AND 0xFF))) (\<lambda>output.
         md5_encode_loop output input len (i + 1) (j + 4))))))
     else Inr output)"
  by pat_completeness auto
termination
  by (relation "measure (\<lambda>(output, input, len, i, j). len - j)") auto

definition md5_encode :: "cbytes \<Rightarrow> u32 list \<Rightarrow> nat \<Rightarrow> cbytes res" where
  "md5_encode output input len = md5_encode_loop output input len 0 0"

function md5_decode_loop :: "u32 list \<Rightarrow> cbytes \<Rightarrow> nat \<Rightarrow> nat \<Rightarrow> nat \<Rightarrow> u32 list res" where
  "md5_decode_loop output input len i j =
    (if j < len then
       rbind (rd input j) (\<lambda>b0.
       rbind (rd input (j + 1)) (\<lambda>b1.
       rbind (rd input (j + 2)) (\<lambda>b2.
       rbind (rd input (j + 3)) (\<lambda>b3.
       rbind (wr output i (ucast b0 OR push_bit 8 (ucast b1) OR
                           push_bit 16 (ucast b2) OR push_bit 24 (ucast b3))) (\<lambda>output.
         md5_decode_loop output input len (i + 1) (j + 4))))))
     else Inr output)"
  by pat_completeness auto
termination
  by (relation "measure (\<lambda>(output, input, len, i, j). len - j)") auto

definition md5_decode :: "u32 list \<Rightarrow> cbytes \<Rightarrow> nat \<Rightarrow> u32 list res" where
  "md5_decode output input len = md5_decode_loop output input len 0 0"

declare md5_encode_loop.simps [simp del] md5_decode_loop.simps [simp del]

text \<open>The four rounds of \<open>md5_transform\<close>, unrolled as in the source.\<close>

definition md5_round1 :: "u32 list \<Rightarrow> quad \<Rightarrow> quad" where
  "md5_round1 x = (\<lambda>(a, b, c, d).
    (let
     a = FF a b c d (x ! 0) 7 0xd76aa478;
     d = FF d a b c (x ! 1) 12 0xe8c7b756;
     c = FF c d a b (x ! 2) 17 0x242070db;
     b = FF b c d a (x ! 3) 22 0xc1bdceee;
     a = FF a b c d (x ! 4) 7 0xf57c0faf;
     d = FF d a b c (x ! 5) 12 0x4787c62a;
     c = FF c d a b (x ! 6) 17 0xa8304613;
     b = FF b c d a (x ! 7) 22 0xfd469501;
     a = FF a b c d (x ! 8) 7 0x698098d8;
     d = FF d a b c (x ! 9) 12 0x8b44f7af;
     c = FF c d a b (x ! 10) 17 0xffff5bb1;
     b = FF b c d a (x ! 11) 22 0x895cd7be;
     a = FF a b c d (x ! 12) 7 0x6b901122;
     d = FF d a b c (x ! 13) 12 0xfd987193;
     c = FF c d a b (x ! 14) 17 0xa679438e;
     b = FF b c d a (x ! 15) 22 0x49b40821
     in (a, b, c, d)))"

definition md5_round2 :: "u32 list \<Rightarrow> quad \<Rightarrow> quad" where
  "md5_round2 x = (\<lambda>(a, b, c, d).
    (let
     a = GG a b c d (x ! 1) 5 0xf61e2562;
     d = GG d a b c (x ! 6) 9 0xc040b340;
     c = GG c d a b (x ! 11) 14 0x265e5a51;
     b = GG b c d a (x ! 0) 20 0xe9b6c7aa;
     a = GG a b c d (x ! 5) 5 0xd62f105d;
     d = GG d a b c (x ! 10) 9 0x2441453;
     c = GG c d a b (x ! 15) 14 0xd8a1e681;
     b = GG b c d a (x ! 4) 20 0xe7d3fbc8;
     a = GG a b c d (x ! 9) 5 0x21e1cde6;
     d = GG d a b c (x ! 14) 9 0xc33707d6;
     c = GG c d a b (x ! 3) 14 0xf4d50d87;
     b = GG b c d a (x ! 8) 20 0x455a14ed;
     a = GG a b c d (x ! 13) 5 0xa9e3e905;
     d = GG d a b c (x ! 2) 9 0xfcefa3f8;
     c = GG c d a b (x ! 7) 14 0x676f02d9;
     b = GG b c d a (x ! 12) 20 0x8d2a4c8a
     in (a, b, c, d)))"

definition md5_round3 :: "u32 list \<Rightarrow> quad \<Rightarrow> quad" where
  "md5_round3 x = (\<lambda>(a, b, c, d).
    (let
     a = HH a b c d (x ! 5) 4 0xfffa3942;
     d = HH d a b c (x ! 8) 11 0x8771f681;
     c = HH c d a b (x ! 11) 16 0x6d9d6122;
     b = HH b c d a (x ! 14) 23 0xfde5380c;
     a = HH a b c d (x ! 1) 4 0xa4beea44;
     d = HH d a b c (x ! 4) 11 0x4bdecfa9;
     c = HH c d a b (x ! 7) 16 0xf6bb4b60;
     b = HH b c d a (x ! 10) 23 0xbebfbc70;
     a = HH a b c d (x ! 13) 4 0x289b7ec6;
     d = HH d a b c (x ! 0) 11 0xeaa127fa;
     c = HH c d a b (x ! 3) 16 0xd4ef3085;
     b = HH b c d a (x ! 6) 23 0x4881d05;
     a = HH a b c d (x ! 9) 4 0xd9d4d039;
     d = HH d a b c (x ! 12) 11 0xe6db99e5;
     c = HH c d a b (x ! 15) 16 0x1fa27cf8;
     b = HH b c d a (x ! 2) 23 0xc4ac5665
     in (a, b, c, d)))"

definition md5_round4 :: "u32 list \<Rightarrow> quad \<Rightarrow> quad" where
  "md5_round4 x = (\<lambda>(a, b, c, d).
    (let
     a = II a b c d (x ! 0) 6 0xf4292244;
     d = II d a b c (x ! 7) 10 0x432aff97;
     c = II c d a b (x ! 14) 15 0xab9423a7;
     b = II b c d a (x ! 5) 21 0xfc93a039;
     a = II a b c d (x ! 12) 6 0x655b59c3;
     d = II d a b c (x ! 3) 10 0x8f0ccc92;
     c = II c d a b (x ! 10) 15 0xffeff47d;
     b = II b c d a (x ! 1) 21 0x85845dd1;
     a = II a b c d (x ! 8) 6 0x6fa87e4f;
     d = II d a b c (x ! 15) 10 0xfe2ce6e0;
     c = II c d a b (x ! 6) 15 0xa3014314;
     b = II b c d a (x ! 13) 21 0x4e0811a1;
     a = II a b c d (x ! 4) 6 0xf7537e82;
     d = II d a b c (x ! 11) 10 0xbd3af235;
     c = II c d a b (x ! 2) 15 0x2ad7d2bb;
     b = II b c d a (x ! 9) 21 0xeb86d391
     in (a, b, c, d)))"

text \<open>
  The scratch array \<open>x\<close> has 64 elements, of which \<open>md5_decode\<close> fills the 16 that the rounds
  read; the rest are never read, and their value here stands for an uninitialised one.
\<close>

definition md5_transform :: "quad \<Rightarrow> cbytes \<Rightarrow> quad res" where
  "md5_transform st block =
    rbind (md5_decode (replicate 64 0) block 64) (\<lambda>x.
      let (a, b, c, d) = md5_round4 x (md5_round3 x (md5_round2 x (md5_round1 x st)));
          (s0, s1, s2, s3) = st
      in Inr (s0 + a, s1 + b, s2 + c, s3 + d))"

definition md5_init :: "md5_ctx \<Rightarrow> md5_ctx" where
  "md5_init context = context\<lparr>count := (0, 0),
     state := (0x67452301, 0xEFCDAB89, 0x98BADCFE, 0x10325476)\<rparr>"

lemma unat_plus_64: "unat (i :: u32) + 64 \<le> unat (n :: u32) \<Longrightarrow> unat (i + 64) = unat i + 64"
  using unsigned_less [where 'a = nat, of n] by (simp add: unat_word_ariths)

text \<open>
  The block loop of \<open>md5_update\<close>: \<open>for(i = partlen; i+64 <= inputlen; i+=64)\<close>, with \<open>i\<close>,
  \<open>i+64\<close> and \<open>inputlen\<close> 32-bit unsigned.  \<open>msg\<close> is the caller's message; a block that does
  not lie inside its \<open>inputlen\<close> bytes is a fault.
\<close>

function md5_blocks :: "u32 \<Rightarrow> cbytes \<Rightarrow> u32 \<Rightarrow> quad \<Rightarrow> (u32 \<times> quad) res" where
  "md5_blocks inputlen msg i st =
    (if i + 64 \<le> inputlen then
       (if unat i + 64 \<le> unat inputlen \<and> unat i + 64 \<le> length msg then
          rbind (md5_transform st (take 64 (drop (unat i) msg))) (\<lambda>st.
            md5_blocks inputlen msg (i + 64) st)
        else Inl OutOfBounds)
     else Inr (i, st))"
  by pat_completeness auto

termination
  by (relation "measure (\<lambda>(inputlen, msg, i, st). unat inputlen - unat i)")
    (auto simp: unat_plus_64)

declare md5_blocks.simps [simp del]

definition md5_update :: "md5_ctx \<Rightarrow> cbytes \<Rightarrow> u32 \<Rightarrow> md5_ctx res" where
  "md5_update context input inputlen =
    (let index = drop_bit 3 (fst (count context)) AND 0x3F;
         partlen = 64 - index;
         c0 = fst (count context) + push_bit 3 inputlen;
         c1 = (if c0 < push_bit 3 inputlen then snd (count context) + 1
               else snd (count context));
         c1 = c1 + drop_bit 29 inputlen;
         context = context\<lparr>count := (c0, c1)\<rparr>
     in rbind
          (if inputlen \<ge> partlen then
             rbind (memcpy (buffer context) (unat index) input 0 (unat partlen)) (\<lambda>buf.
             rbind (md5_transform (state context) buf) (\<lambda>st.
             rbind (md5_blocks inputlen input partlen st) (\<lambda>(i, st).
               Inr (i, 0, context\<lparr>buffer := buf, state := st\<rparr>))))
           else Inr (0, index, context))
          (\<lambda>(i, index, context).
             rbind (memcpy (buffer context) (unat index) input (unat i) (unat (inputlen - i)))
               (\<lambda>buf. Inr (context\<lparr>buffer := buf\<rparr>))))"

text \<open>\<open>md5_final\<close> writes the 16 digest bytes; \<open>digest\<close> is the caller's array.\<close>

definition md5_final :: "md5_ctx \<Rightarrow> cbytes \<Rightarrow> (md5_ctx \<times> cbytes) res" where
  "md5_final context digest =
    (let index = drop_bit 3 (fst (count context)) AND 0x3F;
         padlen = (if index < 56 then 56 - index else 120 - index)
     in rbind (md5_encode (replicate 8 0) [fst (count context), snd (count context)] 8) (\<lambda>bits.
        rbind (md5_update context PADDING padlen) (\<lambda>context.
        rbind (md5_update context bits 8) (\<lambda>context.
          let (s0, s1, s2, s3) = state context
          in rbind (md5_encode digest [s0, s1, s2, s3] 16) (\<lambda>digest.
               Inr (context, digest))))))"

end
