(* ===== verification/Md5_Ref.thy ===== *)
theory Md5_Ref
  imports Md5
begin

text \<open>
  A reference definition of MD5 in the indexed form of RFC 1321, and the proof that the
  unrolled \<open>md5_transform\<close> computes its compression function.  \<open>T\<close> holds the integer parts of
  \<open>2 ^ 32 * abs (sin i)\<close>, \<open>i = 1..64\<close>; word index and shift of a step are the RFC's formulas.
\<close>

section \<open>Reference definition\<close>

definition ref_T :: "u32 list" where
  "ref_T =
    [0xD76AA478, 0xE8C7B756, 0x242070DB, 0xC1BDCEEE,
     0xF57C0FAF, 0x4787C62A, 0xA8304613, 0xFD469501,
     0x698098D8, 0x8B44F7AF, 0xFFFF5BB1, 0x895CD7BE,
     0x6B901122, 0xFD987193, 0xA679438E, 0x49B40821,
     0xF61E2562, 0xC040B340, 0x265E5A51, 0xE9B6C7AA,
     0xD62F105D, 0x02441453, 0xD8A1E681, 0xE7D3FBC8,
     0x21E1CDE6, 0xC33707D6, 0xF4D50D87, 0x455A14ED,
     0xA9E3E905, 0xFCEFA3F8, 0x676F02D9, 0x8D2A4C8A,
     0xFFFA3942, 0x8771F681, 0x6D9D6122, 0xFDE5380C,
     0xA4BEEA44, 0x4BDECFA9, 0xF6BB4B60, 0xBEBFBC70,
     0x289B7EC6, 0xEAA127FA, 0xD4EF3085, 0x04881D05,
     0xD9D4D039, 0xE6DB99E5, 0x1FA27CF8, 0xC4AC5665,
     0xF4292244, 0x432AFF97, 0xAB9423A7, 0xFC93A039,
     0x655B59C3, 0x8F0CCC92, 0xFFEFF47D, 0x85845DD1,
     0x6FA87E4F, 0xFE2CE6E0, 0xA3014314, 0x4E0811A1,
     0xF7537E82, 0xBD3AF235, 0x2AD7D2BB, 0xEB86D391]"

definition ref_f :: "nat \<Rightarrow> u32 \<Rightarrow> u32 \<Rightarrow> u32 \<Rightarrow> u32" where
  "ref_f i x y z =
    (if i < 16 then (x AND y) OR (NOT x AND z)
     else if i < 32 then (x AND z) OR (y AND NOT z)
     else if i < 48 then x XOR y XOR z
     else y XOR (x OR NOT z))"

definition ref_k :: "nat \<Rightarrow> nat" where
  "ref_k i =
    (if i < 16 then i
     else if i < 32 then (5 * i + 1) mod 16
     else if i < 48 then (3 * i + 5) mod 16
     else (7 * i) mod 16)"

definition ref_s :: "nat \<Rightarrow> nat" where
  "ref_s i =
    (if i < 16 then [7, 12, 17, 22]
     else if i < 32 then [5, 9, 14, 20]
     else if i < 48 then [4, 11, 16, 23]
     else [6, 10, 15, 21]) ! (i mod 4)"

definition ref_step :: "u32 list \<Rightarrow> quad \<Rightarrow> nat \<Rightarrow> quad" where
  "ref_step x = (\<lambda>(a, b, c, d) i.
    (d, word_rotl (ref_s i) (a + ref_f i b c d + x ! ref_k i + ref_T ! i) + b, b, c))"

definition ref_word :: "cbytes \<Rightarrow> nat \<Rightarrow> u32" where
  "ref_word block i =
    ucast (block ! (4 * i)) + 2 ^ 8 * ucast (block ! (4 * i + 1)) +
    2 ^ 16 * ucast (block ! (4 * i + 2)) + 2 ^ 24 * ucast (block ! (4 * i + 3))"

definition quad_add :: "quad \<Rightarrow> quad \<Rightarrow> quad" where
  "quad_add = (\<lambda>(a, b, c, d) (a', b', c', d'). (a + a', b + b', c + c', d + d'))"

definition ref_compress :: "quad \<Rightarrow> cbytes \<Rightarrow> quad" where
  "ref_compress st block =
    quad_add st (foldl (ref_step (map (ref_word block) [0..<16])) st [0..<64])"

fun ref_absorb :: "quad \<Rightarrow> cbytes \<Rightarrow> quad" where
  "ref_absorb st bs =
    (if length bs < 64 then st
     else ref_absorb (ref_compress st (take 64 bs)) (drop 64 bs))"

declare ref_absorb.simps [simp del]

definition ref_le :: "nat \<Rightarrow> nat \<Rightarrow> cbytes" where
  "ref_le n v = map (\<lambda>i. word_of_nat (v div 2 ^ (8 * i))) [0..<n]"

definition ref_IV :: quad where
  "ref_IV = (0x67452301, 0xEFCDAB89, 0x98BADCFE, 0x10325476)"

definition ref_pad :: "cbytes \<Rightarrow> cbytes" where
  "ref_pad m = m @ 0x80 # replicate ((119 - length m mod 64) mod 64) 0
                 @ ref_le 8 (8 * length m mod 2 ^ 64)"

definition ref_bytes :: "quad \<Rightarrow> cbytes" where
  "ref_bytes = (\<lambda>(a, b, c, d). concat (map (\<lambda>w. ref_le 4 (unat w)) [a, b, c, d]))"

definition ref_md5 :: "cbytes \<Rightarrow> cbytes" where
  "ref_md5 m = ref_bytes (ref_absorb ref_IV (ref_pad m))"

section \<open>The unrolled rounds are the indexed steps\<close>

lemma ROTATE_LEFT_rotl:
  assumes "0 < n" and "n < 32" 
  shows "ROTATE_LEFT x n = word_rotl n x"
proof (rule bit_word_eqI)
  fix k assume "k < LENGTH(32)"
  then have k: "k < 32" by simp
  show "bit (ROTATE_LEFT x n) k \<longleftrightarrow> bit (word_rotl n x) k"
  proof (cases "n \<le> k")
    case True
    then have "(k + (32 - n)) mod 32 = k - n" using assms k by (simp add: mod_if)
    moreover have "\<not> bit x (32 - n + k)"
      using True assms by (intro impossible_bit) simp
    ultimately show ?thesis
      using True k assms by (simp add: ROTATE_LEFT_def bit_simps)
  next
    case False
    have "(k + (32 - n)) mod 32 = 32 - n + k"
      by (subst add.commute, rule mod_less) (use False assms in arith)
    moreover have "bit (ROTATE_LEFT x n) k = bit x (32 - n + k)"
      by (simp only: ROTATE_LEFT_def bit_or_iff bit_push_bit_iff bit_drop_bit_eq comp_def)
        (use False in simp)
    moreover have "bit (word_rotl n x) k = bit x ((k + (32 - n)) mod 32)"
      using k assms by (simp only: bit_word_rotl_iff) simp
    ultimately show ?thesis by simp
  qed
qed

lemma round_step:
  assumes "f (a, b, c, d) i = (d, e, b, c)"
    and "\<And>v. body v = foldl f (d, v, b, c) is"
  shows "Let e body = foldl f (a, b, c, d) (i # is)"
  using assms by simp

lemma macro_rotl:
  assumes "0 < s" and "s < 32"
  shows "FF a b c d x s ac = word_rotl s (a + md5_F b c d + x + ac) + b"
    and "GG a b c d x s ac = word_rotl s (a + md5_G b c d + x + ac) + b"
    and "HH a b c d x s ac = word_rotl s (a + md5_H b c d + x + ac) + b"
    and "II a b c d x s ac = word_rotl s (a + md5_I b c d + x + ac) + b"
  using assms
  by (simp_all add: FF_def GG_def HH_def II_def ROTATE_LEFT_rotl add.assoc)

lemmas step_simps = ref_step_def ref_f_def ref_s_def ref_k_def ref_T_def macro_rotl
  md5_F_def md5_G_def md5_H_def md5_I_def

lemma upt_rounds:
  "[0..<16] = [0, 1, 2, 3, 4, 5, 6, 7, 8, 9, 10, 11, 12, 13, 14, 15::nat]"
  "[16..<32] = [16, 17, 18, 19, 20, 21, 22, 23, 24, 25, 26, 27, 28, 29, 30, 31::nat]"
  "[32..<48] = [32, 33, 34, 35, 36, 37, 38, 39, 40, 41, 42, 43, 44, 45, 46, 47::nat]"
  "[48..<64] = [48, 49, 50, 51, 52, 53, 54, 55, 56, 57, 58, 59, 60, 61, 62, 63::nat]"
  by code_simp+

lemma round1: "md5_round1 x (a, b, c, d) = foldl (ref_step x) (a, b, c, d) [0..<16]"
  unfolding md5_round1_def prod.case upt_rounds
  by ((rule round_step, (simp add: step_simps; fail))+, simp)

lemma round2: "md5_round2 x (a, b, c, d) = foldl (ref_step x) (a, b, c, d) [16..<32]"
  unfolding md5_round2_def prod.case upt_rounds
  by ((rule round_step, (simp add: step_simps; fail))+, simp)

lemma round3: "md5_round3 x (a, b, c, d) = foldl (ref_step x) (a, b, c, d) [32..<48]"
  unfolding md5_round3_def prod.case upt_rounds
  by ((rule round_step, (simp add: step_simps; fail))+, simp)

lemma round4: "md5_round4 x (a, b, c, d) = foldl (ref_step x) (a, b, c, d) [48..<64]"
  unfolding md5_round4_def prod.case upt_rounds
  by ((rule round_step, (simp add: step_simps; fail))+, simp)

lemma rounds_foldl:
  "md5_round4 x (md5_round3 x (md5_round2 x (md5_round1 x st))) = foldl (ref_step x) st [0..<64]"
proof -
  have r: "md5_round1 x st = foldl (ref_step x) st [0..<16]"
    "md5_round2 x st = foldl (ref_step x) st [16..<32]"
    "md5_round3 x st = foldl (ref_step x) st [32..<48]"
    "md5_round4 x st = foldl (ref_step x) st [48..<64]" for st
    by (cases st; simp only: round1 round2 round3 round4)+
  have "[0..<64] = [0..<16] @ [16..<32] @ [32..<48] @ [48..<64::nat]"
    by code_simp
  then show ?thesis by (simp only: r foldl_append)
qed

section \<open>Byte order\<close>

lemma le_word:
  "(ucast b0 :: u32) OR push_bit 8 (ucast (b1 :: byte)) OR push_bit 16 (ucast (b2 :: byte)) OR
     push_bit 24 (ucast (b3 :: byte)) =
   ucast (b0 :: byte) + 2 ^ 8 * ucast b1 + 2 ^ 16 * ucast b2 + 2 ^ 24 * ucast b3"
proof -
  have n: "bit b k \<Longrightarrow> k < 8" for b :: byte and k
    using bit_imp_le_length [of b k] by simp
  have 1: "(ucast b0 :: u32) + push_bit 8 (ucast b1) = ucast b0 OR push_bit 8 (ucast b1)"
    by (rule disjunctive_add_eq_or) (auto simp: bit_eq_iff bit_simps dest!: n)
  have 2: "((ucast b0 :: u32) OR push_bit 8 (ucast b1)) + push_bit 16 (ucast b2)
      = (ucast b0 OR push_bit 8 (ucast b1)) OR push_bit 16 (ucast b2)"
    by (rule disjunctive_add_eq_or) (auto simp: bit_eq_iff bit_simps dest!: n)
  have 3: "((ucast b0 :: u32) OR push_bit 8 (ucast b1) OR push_bit 16 (ucast b2)) + push_bit 24 (ucast b3)
      = (ucast b0 OR push_bit 8 (ucast b1) OR push_bit 16 (ucast b2)) OR push_bit 24 (ucast b3)"
    by (rule disjunctive_add_eq_or) (auto simp: bit_eq_iff bit_simps dest!: n)
  show ?thesis
    using 1 2 3 by (simp add: push_bit_eq_mult or.assoc mult.commute)
qed

lemma decode_loop:
  assumes "i \<le> n" and "n \<le> length out" and "4 * n \<le> length input"
  shows "md5_decode_loop out input (4 * n) i (4 * i) =
    Inr (take i out @ map (ref_word input) [i..<n] @ drop n out)"
  using assms
proof (induction "n - i" arbitrary: i out)
  case 0
  then show ?case by (simp add: md5_decode_loop.simps)
next
  case (Suc m)
  then have i: "i < n" by simp
  have "md5_decode_loop out input (4 * n) i (4 * i) =
    md5_decode_loop (out[i := ref_word input i]) input (4 * n) (Suc i) (4 * Suc i)"
    using i Suc.prems
    by (subst md5_decode_loop.simps) (simp add: rd_in wr_in le_word ref_word_def or.assoc add.commute [of 4])
  also have "\<dots> = Inr (take (Suc i) (out[i := ref_word input i]) @
      map (ref_word input) [Suc i..<n] @ drop n (out[i := ref_word input i]))"
    using i Suc by (intro Suc.hyps) auto
  also have "take (Suc i) (out[i := ref_word input i]) = take i out @ [ref_word input i]"
    using i Suc.prems by (simp add: take_Suc_conv_app_nth)
  finally show ?case
    using i by (simp add: upt_conv_Cons)
qed

lemma decode_block:
  assumes "length block = 64"
  shows "md5_decode (replicate 64 0) block 64 =
    Inr (map (ref_word block) [0..<16] @ replicate 48 0)"
  using decode_loop [of 0 16 "replicate 64 0" block] assms by (simp add: md5_decode_def)

lemma ref_k_bound: "i < 64 \<Longrightarrow> ref_k i < 16"
  by (simp add: ref_k_def)

lemma foldl_ref_step_prefix:
  assumes "length x = 16" and "\<forall>i \<in> set is. i < 64"
  shows "foldl (ref_step (x @ y)) st is = foldl (ref_step x) st is"
  using assms(2)
proof (induction "is" arbitrary: st)
  case (Cons i "is")
  then have "ref_step (x @ y) st i = ref_step x st i"
    using assms(1) by (cases st) (simp add: ref_step_def nth_append ref_k_bound)
  with Cons show ?case by simp
qed simp

lemma transform_eq:
  assumes "length block = 64"
  shows "md5_transform st block = Inr (ref_compress st block)"
proof -
  have "foldl (ref_step (map (ref_word block) [0..<16] @ replicate 48 0)) st [0..<64] =
    foldl (ref_step (map (ref_word block) [0..<16])) st [0..<64]"
    by (rule foldl_ref_step_prefix) auto
  then show ?thesis
    using assms
    by (cases st) (simp add: md5_transform_def decode_block rounds_foldl ref_compress_def quad_add_def
        split: prod.split del: upt_rec_numeral)
qed

lemma ucast_drop_bit: "(ucast (drop_bit k (w :: u32)) :: byte) = word_of_nat (unat w div 2 ^ k)"
proof -
  have "unat (drop_bit k w) = unat w div 2 ^ k"
    by (subst unat_drop_bit_eq) (rule drop_bit_eq_div)
  moreover have "(ucast (drop_bit k w) :: byte) = word_of_nat (unat (drop_bit k w))"
    by simp
  ultimately show ?thesis by simp
qed

lemma low_byte: "(ucast ((w :: u32) AND 0xFF) :: byte) = ucast w"
proof -
  have m: "(0xFF :: u32) = mask 8" by (simp add: mask_eq_exp_minus_1)
  show ?thesis by (rule bit_word_eqI) (auto simp: bit_simps m)
qed

lemmas bytes_of_word = low_byte ucast_drop_bit [of 8, simplified]
  ucast_drop_bit [of 16, simplified] ucast_drop_bit [of 24, simplified]

lemma ref_le_4: "ref_le 4 v = [word_of_nat v, word_of_nat (v div 2 ^ 8),
    word_of_nat (v div 2 ^ 16), word_of_nat (v div 2 ^ 24)]"
  by (simp add: ref_le_def upt_conv_Cons)

lemma encode_loop:
  assumes "i \<le> n" and "n \<le> length input" and "4 * n \<le> length out"
  shows "md5_encode_loop out input (4 * n) i (4 * i) =
    Inr (take (4 * i) out @ concat (map (\<lambda>w. ref_le 4 (unat w)) (drop i (take n input))) @
      drop (4 * n) out)"
  using assms
proof (induction "n - i" arbitrary: i out)
  case 0
  then show ?case by (simp add: md5_encode_loop.simps)
next
  case (Suc m)
  then have i: "i < n" by simp
  let ?w = "input ! i"
  let ?out = "out[4 * i := ucast (?w AND 0xFF), 4 * i + 1 := ucast (drop_bit 8 ?w AND 0xFF),
     4 * i + 2 := ucast (drop_bit 16 ?w AND 0xFF), 4 * i + 3 := ucast (drop_bit 24 ?w AND 0xFF)]"
  have "md5_encode_loop out input (4 * n) i (4 * i) =
    md5_encode_loop ?out input (4 * n) (Suc i) (4 * Suc i)"
    using i Suc.prems
    by (subst md5_encode_loop.simps) (simp add: rd_in wr_in add.commute [of 4])
  also have "\<dots> = Inr (take (4 * Suc i) ?out @
      concat (map (\<lambda>w. ref_le 4 (unat w)) (drop (Suc i) (take n input))) @ drop (4 * n) ?out)"
    using i Suc by (intro Suc.hyps) auto
  also have "take (4 * Suc i) ?out = take (4 * i) out @ ref_le 4 (unat ?w)"
  proof (rule nth_equalityI)
    fix k assume "k < length (take (4 * Suc i) ?out)"
    then have "k < 4 * i + 4" by simp
    then consider "k < 4 * i" | "k = 4 * i" | "k = 4 * i + 1" | "k = 4 * i + 2" | "k = 4 * i + 3"
      by linarith
    then show "take (4 * Suc i) ?out ! k = (take (4 * i) out @ ref_le 4 (unat ?w)) ! k"
      using i Suc.prems
      by cases (simp_all add: nth_append ref_le_4 bytes_of_word nth_list_update min_def)
  qed (use i Suc.prems in \<open>simp add: ref_le_4\<close>)
  finally show ?case
    using i Suc.prems by (simp flip: Cons_nth_drop_Suc)
qed

lemma encode_words:
  assumes "length out = 4 * length ws"
  shows "md5_encode out ws (4 * length ws) = Inr (concat (map (\<lambda>w. ref_le 4 (unat w)) ws))"
  using encode_loop [of 0 "length ws" ws out] assms by (simp add: md5_encode_def)

section \<open>Properties\<close>

text \<open>C3: on a block of 64 bytes \<open>md5_transform\<close>, with its four unrolled rounds, its
  little-endian decoding and its \<open>OR\<close> of two shifts as rotation, has no fault and is the
  compression function of RFC 1321.\<close>

theorem md5_transform_rfc1321:
  assumes "length block = 64"
  shows "md5_transform st block = Inr (ref_compress st block)"
  using assms by (rule transform_eq)

theorem md5_transform_rfc1321_witness:
  "md5_transform ref_IV (replicate 64 7) = Inr (ref_compress ref_IV (replicate 64 7))"
  by (rule md5_transform_rfc1321) simp

end
