(* ===== verification/Md5_Correct.thy ===== *)
theory Md5_Correct
  imports Md5_Ref
begin

text \<open>
  The streaming interface of \<open>genmd5.c\<close> computes MD5.  \<open>md5_rep c m\<close> says that a context has
  absorbed the message \<open>m\<close>: its bit counter, chaining state and buffered tail are those of \<open>m\<close>.
  \<open>md5_init\<close> establishes it for the empty message, \<open>md5_update\<close> extends the message, and
  \<open>md5_final\<close> returns the reference digest.
\<close>

section \<open>What a context represents\<close>

definition md5_rep :: "md5_ctx \<Rightarrow> cbytes \<Rightarrow> bool" where
  "md5_rep c m \<longleftrightarrow>
    count c = (word_of_nat (8 * length m), word_of_nat (8 * length m div 2 ^ 32)) \<and>
    state c = ref_absorb ref_IV m \<and>
    length (buffer c) = 64 \<and>
    take (length m mod 64) (buffer c) = drop (64 * (length m div 64)) m"

lemma absorb_append:
  "length xs mod 64 = 0 \<Longrightarrow> ref_absorb st (xs @ ys) = ref_absorb (ref_absorb st xs) ys"
proof (induction st xs rule: ref_absorb.induct)
  case (1 st bs)
  show ?case
  proof (cases "length bs < 64")
    case True
    with "1.prems" show ?thesis by (simp add: ref_absorb.simps [of st "[]"])
  next
    case False
    then have "length (drop 64 bs) mod 64 = 0" using "1.prems" by (simp add: mod_if)
    with False "1.IH" show ?thesis
      by (simp add: ref_absorb.simps [of st "bs @ ys"] ref_absorb.simps [of st bs])
  qed
qed

lemma absorb_short: "length bs < 64 \<Longrightarrow> ref_absorb st bs = st"
  by (simp add: ref_absorb.simps)

lemma absorb_full: "ref_absorb st (take (64 * (length bs div 64)) bs) = ref_absorb st bs"
proof -
  have "ref_absorb st (take (64 * (length bs div 64)) bs @ drop (64 * (length bs div 64)) bs)
    = ref_absorb (ref_absorb st (take (64 * (length bs div 64)) bs)) (drop (64 * (length bs div 64)) bs)"
    by (rule absorb_append) (simp add: min.absorb2)
  moreover have "length (drop (64 * (length bs div 64)) bs) < 64"
    by (simp add: minus_mult_div_eq_mod)
  ultimately show ?thesis by (simp add: absorb_short)
qed

lemma carry_01: "(x :: nat) < M \<Longrightarrow> y < M \<Longrightarrow> (x + y) div M = (if x + y < M then 0 else 1)"
  by (auto simp: div_if)

lemma carry_nat:
  assumes "(x :: nat) < M" and "y < M"
  shows "(x + y) mod M < y \<longleftrightarrow> (x + y) div M = 1"
proof (cases "x + y < M")
  case False
  then have "(x + y) mod M = x + y - M" using assms by (simp add: le_mod_geq)
  with False assms show ?thesis by (simp add: carry_01)
qed (use assms in simp)

lemma count_low:
  "word_of_nat (8 * l) + push_bit 3 (n :: u32) = word_of_nat (8 * (l + unat n))"
  by (simp add: push_bit_eq_mult algebra_simps)

lemma count_high:
  fixes n :: u32
  shows "(if word_of_nat (8 * l) + push_bit 3 n < push_bit 3 n
          then word_of_nat (8 * l div 2 ^ 32) + 1 else word_of_nat (8 * l div 2 ^ 32)) + drop_bit 29 n
       = (word_of_nat (8 * (l + unat n) div 2 ^ 32) :: u32)"
proof -
  let ?x = "8 * l mod 2 ^ 32" and ?y = "8 * unat n mod 2 ^ 32"
  have y: "unat (push_bit 3 n) = ?y"
    by (simp add: push_bit_eq_mult unat_word_ariths mult.commute)
  have x: "unat (word_of_nat (8 * l) :: u32) = ?x"
    by (subst unat_of_nat) simp
  have s: "unat (word_of_nat (8 * l) + push_bit 3 n) = (?x + ?y) mod 2 ^ 32"
    by (simp only: unat_word_ariths x y) simp
  have xl: "?x < 2 ^ 32" and yl: "?y < 2 ^ 32" by simp_all
  have "word_of_nat (8 * l) + push_bit 3 n < push_bit 3 n \<longleftrightarrow> (?x + ?y) mod 2 ^ 32 < ?y"
    by (simp only: word_less_nat_alt s y)
  also have "\<dots> \<longleftrightarrow> (?x + ?y) div 2 ^ 32 = 1"
    by (rule carry_nat [OF xl yl])
  finally have carry: "word_of_nat (8 * l) + push_bit 3 n < push_bit 3 n \<longleftrightarrow> (?x + ?y) div 2 ^ 32 = 1" .
  have d: "drop_bit 29 n = word_of_nat (8 * unat n div 2 ^ 32)"
  proof (rule word_unat_eq_iff [THEN iffD2])
    have "unat (drop_bit 29 n) = unat n div 2 ^ 29"
      by (subst unat_drop_bit_eq) (rule drop_bit_eq_div)
    also have "\<dots> = 8 * unat n div 2 ^ 32" by simp
    also have "\<dots> = unat (word_of_nat (8 * unat n div 2 ^ 32) :: u32)"
      using unsigned_less [where 'a = nat, of n] by (subst unat_of_nat) simp
    finally show "unat (drop_bit 29 n) = unat (word_of_nat (8 * unat n div 2 ^ 32) :: u32)" .
  qed
  have e: "8 * (l + unat n) div 2 ^ 32 = 8 * l div 2 ^ 32 + 8 * unat n div 2 ^ 32 + (?x + ?y) div 2 ^ 32"
    unfolding distrib_left by (rule div_add1_eq)
  have k: "(if K = 1 then word_of_nat H + 1 else word_of_nat H) + word_of_nat N = (word_of_nat (H + N + K) :: u32)"
    if "K = 0 \<or> K = 1" for H N K :: nat
    using that by auto
  show ?thesis
    unfolding carry d e by (rule k) (use carry_01 [OF xl yl] in simp)
qed

lemma index_rep: "unat (drop_bit 3 (word_of_nat (8 * l) :: u32) AND 0x3F) = l mod 64"
proof -
  have m: "(0x3F :: u32) = mask 6" by (simp add: mask_eq_exp_minus_1)
  have "unat (drop_bit 3 (word_of_nat (8 * l) :: u32) AND 0x3F) =
      unat (take_bit 6 (drop_bit 3 (word_of_nat (8 * l) :: u32)))"
    by (simp only: m take_bit_eq_mask)
  also have "\<dots> = unat (word_of_nat (8 * l) :: u32) div 2 ^ 3 mod 2 ^ 6"
    by (subst unsigned_take_bit_eq, subst unat_drop_bit_eq) (simp only: take_bit_eq_mod drop_bit_eq_div)
  also have "\<dots> = (8 * l mod 2 ^ 32) div 2 ^ 3 mod 2 ^ 6"
    by (subst unat_of_nat) simp
  also have "8 * l mod 2 ^ 32 = 2 ^ 3 * (l mod 2 ^ 29)"
    using mult_mod_right [of "2 ^ 3" l "2 ^ 29"] by simp
  also have "2 ^ 3 * (l mod 2 ^ 29) div 2 ^ 3 mod 2 ^ 6 = l mod 2 ^ 29 mod 2 ^ 6" by simp
  also have "\<dots> = l mod 2 ^ 6" by (rule mod_mod_cancel) simp
  also have "\<dots> = l mod 64" by simp
  finally show ?thesis .
qed

section \<open>The operations\<close>

lemma blocks_eq:
  assumes "unat n \<le> length msg" and "unat n < 2 ^ 32 - 64" and "unat i \<le> unat n"
  shows "\<exists>j. md5_blocks n msg i st = Inr (j, ref_absorb st (drop (unat i) (take (unat n) msg))) \<and>
    unat j = unat i + 64 * ((unat n - unat i) div 64)"
  using assms
proof (induction n msg i st rule: md5_blocks.induct)
  case (1 n msg i st)
  have w: "unat (i + 64) = unat i + 64"
    using "1.prems" by (simp add: unat_word_ariths)
  have le: "i + 64 \<le> n \<longleftrightarrow> unat i + 64 \<le> unat n"
    by (simp add: word_le_nat_alt w)
  show ?case
  proof (cases "unat i + 64 \<le> unat n")
    case False
    with "1.prems" show ?thesis
      by (subst md5_blocks.simps) (simp add: le absorb_short)
  next
    case True
    let ?b = "take 64 (drop (unat i) msg)"
    have big: "\<not> unat n - unat i < 64" "unat i + 64 \<le> unat n" using True by auto
    have tr: "md5_transform st ?b = Inr (ref_compress st ?b)"
      using True "1.prems" by (intro transform_eq) simp
    obtain j where j: "md5_blocks n msg (i + 64) (ref_compress st ?b) =
          Inr (j, ref_absorb (ref_compress st ?b) (drop (unat (i + 64)) (take (unat n) msg)))"
        "unat j = unat (i + 64) + 64 * ((unat n - unat (i + 64)) div 64)"
      using "1.IH" [of "ref_compress st ?b"] True "1.prems" le w by fastforce
    have "64 * ((unat n - unat i) div 64) = 64 + 64 * ((unat n - unat (i + 64)) div 64)"
      using True by (simp add: w le_div_geq [of 64 "unat n - unat i"])
    moreover have "ref_absorb st (drop (unat i) (take (unat n) msg)) =
        ref_absorb (ref_compress st ?b) (drop (unat (i + 64)) (take (unat n) msg))"
      using big "1.prems"
      by (subst ref_absorb.simps) (simp add: w take_drop min.absorb1 add.commute)
    moreover have "md5_blocks n msg i st = md5_blocks n msg (i + 64) (ref_compress st ?b)"
      using True "1.prems" by (subst md5_blocks.simps) (simp add: le tr)
    ultimately show ?thesis using j by (simp add: w)
  qed
qed

lemma memcpy_eq:
  "doff + n \<le> length dst \<Longrightarrow> soff + n \<le> length src \<Longrightarrow>
   memcpy dst doff src soff n = Inr (take doff dst @ take n (drop soff src) @ drop (doff + n) dst)"
  by (simp add: memcpy_def)

lemma absorb_tail:
  "ref_absorb st (m @ x) = ref_absorb (ref_absorb st m) (drop (64 * (length m div 64)) m @ x)"
proof -
  have "ref_absorb st (take (64 * (length m div 64)) m @ drop (64 * (length m div 64)) m @ x) =
      ref_absorb (ref_absorb st (take (64 * (length m div 64)) m)) (drop (64 * (length m div 64)) m @ x)"
    by (rule absorb_append) (simp add: min.absorb2)
  moreover have "take (64 * (length m div 64)) m @ drop (64 * (length m div 64)) m @ x = m @ x"
    by (simp flip: append_assoc)
  ultimately show ?thesis by (simp add: absorb_full)
qed

lemma base64: "(x :: nat) < 64 \<Longrightarrow> (64 * q + x) mod 64 = x \<and> (64 * q + x) div 64 = q"
  by simp

lemma tail_short:
  assumes "(l :: nat) mod 64 + n < 64"
  shows "(l + n) mod 64 = l mod 64 + n" and "(l + n) div 64 = l div 64"
  using base64 [OF assms, of "l div 64"] by (simp_all flip: add.assoc)

lemma tail_long:
  assumes "64 - (l :: nat) mod 64 \<le> n" and "j = 64 - l mod 64 + 64 * ((n - (64 - l mod 64)) div 64)"
  shows "(l + n) mod 64 = n - j" and "64 * ((l + n) div 64) = l + j" and "j \<le> n" and "n - j < 64"
proof -
  define k where "k = (n - (64 - l mod 64)) div 64"
  define d where "d = (n - (64 - l mod 64)) mod 64"
  define q where "q = l div 64"
  define r where "r = l mod 64"
  have l: "l = 64 * q + r" and r: "r < 64" by (simp_all add: q_def r_def)
  have j: "j = 64 - r + 64 * k" and n: "64 - r \<le> n" using assms by (simp_all add: r_def k_def)
  have "n - (64 - r) = 64 * k + d" by (simp add: k_def d_def r_def)
  moreover have d: "d < 64" by (simp add: d_def)
  ultimately have n': "n = j + d" using j n r by linarith
  have "j + r = 64 + 64 * k" using j r by simp
  then have t: "l + j = 64 * (q + 1 + k)" using l by simp
  then have s: "l + n = 64 * (q + 1 + k) + d" using n' by simp
  show "(l + n) mod 64 = n - j" "64 * ((l + n) div 64) = l + j"
    unfolding s t using base64 [OF d, of "q + 1 + k"] n' by simp_all
  show "j \<le> n" "n - j < 64" using n' d by simp_all
qed

lemma md5_update_short:
  assumes "count c = (c0, c1)" and "unat (drop_bit 3 c0 AND 0x3F) = r"
    and "\<not> 64 - (drop_bit 3 c0 AND 0x3F) \<le> n"
    and "memcpy (buffer c) r input 0 (unat n) = Inr buf"
  shows "md5_update c input n = Inr (c\<lparr>count := (c0 + push_bit 3 n,
    (if c0 + push_bit 3 n < push_bit 3 n then c1 + 1 else c1) + drop_bit 29 n), buffer := buf\<rparr>)"
  using assms by (simp add: md5_update_def Let_def)

lemma md5_update_long:
  assumes "count c = (c0, c1)" and "unat (drop_bit 3 c0 AND 0x3F) = r"
    and "64 - (drop_bit 3 c0 AND 0x3F) = p" and "p \<le> n"
    and "memcpy (buffer c) r input 0 (unat p) = Inr buf"
    and "md5_transform (state c) buf = Inr st"
    and "md5_blocks n input p st = Inr (j, st')"
    and "memcpy buf 0 input (unat j) (unat (n - j)) = Inr buf'"
  shows "md5_update c input n = Inr (c\<lparr>count := (c0 + push_bit 3 n,
    (if c0 + push_bit 3 n < push_bit 3 n then c1 + 1 else c1) + drop_bit 29 n),
    buffer := buf', state := st'\<rparr>)"
  using assms by (simp add: md5_update_def Let_def)

lemma rep_cases:
  assumes "md5_rep c m"
  obtains c0 c1 where "count c = (c0, c1)" "unat (drop_bit 3 c0 AND 0x3F) = length m mod 64"
    "unat (64 - (drop_bit 3 c0 AND 0x3F)) = 64 - length m mod 64"
    "\<And>n. c0 + push_bit 3 n = word_of_nat (8 * (length m + unat n))"
    "\<And>n. (if c0 + push_bit 3 n < push_bit 3 n then c1 + 1 else c1) + drop_bit 29 n
      = word_of_nat (8 * (length m + unat n) div 2 ^ 32)"
    "unat c0 = 8 * length m mod 2 ^ 32" "unat c1 = 8 * length m div 2 ^ 32 mod 2 ^ 32"
proof
  let ?c0 = "word_of_nat (8 * length m) :: u32"
  show "count c = (?c0, word_of_nat (8 * length m div 2 ^ 32))"
    using assms by (simp only: md5_rep_def)
  show "unat (drop_bit 3 ?c0 AND 0x3F) = length m mod 64" by (rule index_rep)
  then show "unat (64 - (drop_bit 3 ?c0 AND 0x3F)) = 64 - length m mod 64"
    by (subst unat_sub) (simp_all add: word_le_nat_alt)
  show "unat ?c0 = 8 * length m mod 2 ^ 32"
    "unat (word_of_nat (8 * length m div 2 ^ 32) :: u32) = 8 * length m div 2 ^ 32 mod 2 ^ 32"
    by (simp_all only: unat_of_nat) simp_all
qed (rule count_low count_high)+

lemma length_splice:
  "length b = 64 \<Longrightarrow> k \<le> 64 \<Longrightarrow> k \<le> length a \<Longrightarrow> length (take k a @ drop k b) = 64"
  by simp

lemma rep_update:
  assumes "c0' = word_of_nat (8 * length m)" and "c1' = word_of_nat (8 * length m div 2 ^ 32)"
    and "st = ref_absorb ref_IV m" and "length buf = 64"
    and "take (length m mod 64) buf = drop (64 * (length m div 64)) m"
  shows "md5_rep (c\<lparr>count := (c0', c1'), buffer := buf, state := st\<rparr>) m"
    and "state c = st \<Longrightarrow> md5_rep (c\<lparr>count := (c0', c1'), buffer := buf\<rparr>) m"
  using assms by (simp_all add: md5_rep_def)

lemma update_rep_short:
  assumes rep: "md5_rep c m" and n: "unat n \<le> length input"
    and short: "unat n < 64 - length m mod 64"
  shows "\<exists>c'. md5_update c input n = Inr c' \<and> md5_rep c' (m @ take (unat n) input)"
proof -
  let ?r = "length m mod 64" and ?q = "64 * (length m div 64)"
  obtain c0 c1 where c: "count c = (c0, c1)" and ix: "unat (drop_bit 3 c0 AND 0x3F) = ?r"
    and pl: "unat (64 - (drop_bit 3 c0 AND 0x3F)) = 64 - ?r"
    and lo: "\<And>n. c0 + push_bit 3 n = word_of_nat (8 * (length m + unat n))"
    and hi: "\<And>n. (if c0 + push_bit 3 n < push_bit 3 n then c1 + 1 else c1) + drop_bit 29 n
      = word_of_nat (8 * (length m + unat n) div 2 ^ 32)"
    using rep_cases [OF rep] by metis
  have nle: "\<not> (64 - (drop_bit 3 c0 AND 0x3F) \<le> n)"
    using short by (simp add: word_le_nat_alt pl)
  have bl: "length (buffer c) = 64" and bt: "take ?r (buffer c) = drop ?q m"
    and st: "state c = ref_absorb ref_IV m"
    using rep by (simp_all add: md5_rep_def)
  let ?buf = "take ?r (buffer c) @ take (unat n) input @ drop (?r + unat n) (buffer c)"
  have mc: "memcpy (buffer c) ?r input 0 (unat n) = Inr ?buf"
    using n short bl by (subst memcpy_eq) auto
  let ?m = "m @ take (unat n) input"
  have len: "length ?m = length m + unat n" using n by simp
  have lm: "length ?m mod 64 = ?r + unat n" and ld: "length ?m div 64 = length m div 64"
    unfolding len using short tail_short [of "length m" "unat n"] by simp_all
  have lbuf: "length ?buf = 64" using n short bl by simp
  have tk: "take (length ?m mod 64) ?buf = drop (64 * (length ?m div 64)) ?m"
    unfolding lm ld using n short bl bt by (simp add: minus_mult_div_eq_mod)
  have ab: "ref_absorb ref_IV ?m = ref_absorb ref_IV m"
    by (subst absorb_tail, rule absorb_short)
      (use short n in \<open>simp add: minus_mult_div_eq_mod min.absorb2\<close>)
  show ?thesis
    by (intro exI conjI, rule md5_update_short [OF c ix nle mc], rule rep_update(2))
      (use lo hi ab lbuf tk st in \<open>simp_all only: len\<close>)
qed

lemma update_rep_long:
  assumes rep: "md5_rep c m" and n: "unat n \<le> length input" and bound: "unat n < 2 ^ 32 - 64"
    and long: "64 - length m mod 64 \<le> unat n"
  shows "\<exists>c'. md5_update c input n = Inr c' \<and> md5_rep c' (m @ take (unat n) input)"
proof -
  let ?r = "length m mod 64" and ?q = "64 * (length m div 64)"
  obtain c0 c1 where c: "count c = (c0, c1)" and ix: "unat (drop_bit 3 c0 AND 0x3F) = ?r"
    and pl: "unat (64 - (drop_bit 3 c0 AND 0x3F)) = 64 - ?r"
    and lo: "\<And>n. c0 + push_bit 3 n = word_of_nat (8 * (length m + unat n))"
    and hi: "\<And>n. (if c0 + push_bit 3 n < push_bit 3 n then c1 + 1 else c1) + drop_bit 29 n
      = word_of_nat (8 * (length m + unat n) div 2 ^ 32)"
    using rep_cases [OF rep] by metis
  define p where "p = 64 - (drop_bit 3 c0 AND 0x3F)"
  have up: "unat p = 64 - ?r" using pl by (simp add: p_def)
  have le: "p \<le> n" using long by (simp add: word_le_nat_alt up)
  have bl: "length (buffer c) = 64" and bt: "take ?r (buffer c) = drop ?q m"
    and st: "state c = ref_absorb ref_IV m"
    using rep by (simp_all add: md5_rep_def)
  let ?S = "ref_absorb ref_IV m" and ?x = "take (unat n) input"
  let ?buf = "drop ?q m @ take (64 - ?r) input"
  have lbuf: "length ?buf = 64"
    using n long by (simp add: minus_mult_div_eq_mod min.absorb2)
  have mc: "memcpy (buffer c) ?r input 0 (unat p) = Inr ?buf"
    using n long bl bt by (subst memcpy_eq) (auto simp: up)
  have tr: "md5_transform (state c) ?buf = Inr (ref_compress ?S ?buf)"
    using transform_eq [OF lbuf] by (simp add: st)
  obtain j where j: "md5_blocks n input p (ref_compress ?S ?buf) =
        Inr (j, ref_absorb (ref_compress ?S ?buf) (drop (unat p) ?x))"
      and uj: "unat j = 64 - ?r + 64 * ((unat n - (64 - ?r)) div 64)"
    using blocks_eq [OF n bound, of p "ref_compress ?S ?buf"] le
    unfolding word_le_nat_alt up by blast
  note tl = tail_long [OF long uj]
  have nj: "unat (n - j) = unat n - unat j"
    using tl(3) by (subst unat_sub) (simp_all add: word_le_nat_alt)
  let ?buf' = "take (unat n - unat j) (drop (unat j) input) @ drop (unat n - unat j) ?buf"
  have mc': "memcpy ?buf 0 input (unat j) (unat (n - j)) = Inr ?buf'"
    using n tl(3,4) lbuf by (subst memcpy_eq) (auto simp: nj)
  let ?m = "m @ ?x"
  have len: "length ?m = length m + unat n" using n by simp
  have big: "64 - length m mod 64 \<le> unat n" "\<not> length m mod 64 + unat n < 64" using long by auto
  have "ref_absorb ref_IV ?m = ref_absorb ?S (drop ?q m @ ?x)" by (rule absorb_tail)
  also have "\<dots> = ref_absorb (ref_compress ?S ?buf) (drop (unat p) ?x)"
    using big n lbuf
    by (simp add: ref_absorb.simps [of ?S "drop ?q m @ ?x"] up minus_mult_div_eq_mod min.absorb1)
  finally have ab: "ref_absorb ref_IV ?m = ref_absorb (ref_compress ?S ?buf) (drop (unat p) ?x)" .
  have lbuf': "length ?buf' = 64"
    by (rule length_splice [OF lbuf]) (use n tl(3,4) in simp_all)
  have tk: "take (length ?m mod 64) ?buf' = drop (64 * (length ?m div 64)) ?m"
    unfolding len tl(1,2) using n tl(3) by (simp add: take_drop)
  show ?thesis
    by (intro exI conjI, rule md5_update_long [OF c ix p_def [symmetric] le mc tr j mc'],
        rule rep_update(1))
      (use lo hi ab lbuf' tk in \<open>simp_all only: len\<close>)
qed

lemma md5_update_rep:
  assumes "md5_rep c m" and "unat n \<le> length input" and "unat n < 2 ^ 32 - 64"
  shows "\<exists>c'. md5_update c input n = Inr c' \<and> md5_rep c' (m @ take (unat n) input)"
  using assms update_rep_short update_rep_long by (cases "unat n < 64 - length m mod 64") auto

lemma md5_init_rep: "length (buffer c) = 64 \<Longrightarrow> md5_rep (md5_init c) []"
  by (simp add: md5_rep_def md5_init_def ref_IV_def ref_absorb.simps)


lemma le_bytes_split: "ref_le 8 (v mod 2 ^ 64) = ref_le 4 (v mod 2 ^ 32) @ ref_le 4 (v div 2 ^ 32 mod 2 ^ 32)"
proof -
  have b: "(word_of_nat (x mod 2 ^ n div 2 ^ k) :: byte) = word_of_nat (x div 2 ^ k)"
    if "k + 8 \<le> n" for x k n :: nat
  proof -
    have "x mod 2 ^ n div 2 ^ k mod 2 ^ 8 = x div 2 ^ k mod 2 ^ (n - k) mod 2 ^ 8"
      using that drop_bit_take_bit [of k n x]
      by (simp only: take_bit_eq_mod drop_bit_eq_div)
    also have "\<dots> = x div 2 ^ k mod 2 ^ 8"
      by (intro mod_mod_cancel le_imp_power_dvd) (use that in arith)
    finally show ?thesis by (simp add: word_of_nat_eq_iff take_bit_eq_mod)
  qed
  have u: "[0..<8] = [0..<4] @ map (\<lambda>i. i + 4) [0..<4]" by code_simp
  have lo: "(word_of_nat (v mod 2 ^ 64 div 2 ^ (8 * i)) :: byte) =
      word_of_nat (v mod 2 ^ 32 div 2 ^ (8 * i))" if "i < 4" for i
    using that by (subst (1 2) b) simp_all
  have hi: "(word_of_nat (v mod 2 ^ 64 div 2 ^ (8 * (i + 4))) :: byte) =
      word_of_nat (v div 2 ^ 32 mod 2 ^ 32 div 2 ^ (8 * i))" if "i < 4" for i
  proof -
    have "v div 2 ^ (8 * (i + 4)) = v div 2 ^ 32 div 2 ^ (8 * i)"
      by (simp add: algebra_simps power_add flip: div_mult2_eq)
    with that show ?thesis by (subst (1 2) b) simp_all
  qed
  show ?thesis
    unfolding ref_le_def u map_append map_map comp_def
    using lo hi by (intro arg_cong2 [where f = append] map_cong refl) simp_all
qed

lemma pad_length:
  assumes "(r :: nat) < 64"
  shows "(119 - r) mod 64 = (if r < 56 then 55 - r else 119 - r)"
proof (cases "r < 56")
  case True
  then have "119 - r = 64 * 1 + (55 - r)" by simp
  then show ?thesis using True by (metis base64 diff_less_mono2 diff_le_self le_less_trans numeral_less_iff semiring_norm(76,78,81))
qed (use assms in simp)

lemma PADDING_props:
  "length PADDING = 64"
  "0 < k \<Longrightarrow> k \<le> 64 \<Longrightarrow> take k PADDING = 0x80 # replicate (k - 1) 0"
  by (simp_all add: PADDING_def take_Cons')

lemma md5_final_rep:
  assumes rep: "md5_rep c m" and d: "length digest = 16"
  shows "\<exists>c'. md5_final c digest = Inr (c', ref_md5 m)"
proof -
  let ?r = "length m mod 64"
  obtain c0 c1 where c: "count c = (c0, c1)" and ix: "unat (drop_bit 3 c0 AND 0x3F) = ?r"
    and u0: "unat c0 = 8 * length m mod 2 ^ 32" and u1: "unat c1 = 8 * length m div 2 ^ 32 mod 2 ^ 32"
    using rep_cases [OF rep] by metis
  define index where "index = drop_bit 3 c0 AND 0x3F"
  define padlen where "padlen = (if index < 56 then 56 - index else 120 - index)"
  have ui: "unat index = ?r" using ix by (simp add: index_def)
  have up: "unat padlen = (if ?r < 56 then 56 - ?r else 120 - ?r)"
    by (simp add: padlen_def word_less_nat_alt ui)
      (auto simp: unat_sub word_le_nat_alt ui)
  have pb: "0 < unat padlen" "unat padlen \<le> 64" by (auto simp: up)
  let ?bits = "ref_le 4 (unat c0) @ ref_le 4 (unat c1)"
  have bits: "md5_encode (replicate 8 0) [c0, c1] 8 = Inr ?bits"
    using encode_words [of "replicate 8 0" "[c0, c1]"] by simp
  have lb: "length ?bits = 8" by (simp add: ref_le_def)
  obtain ca where ca: "md5_update c PADDING padlen = Inr ca"
      "md5_rep ca (m @ take (unat padlen) PADDING)"
    using md5_update_rep [OF rep, of padlen PADDING] pb by (auto simp: PADDING_props)
  obtain cb where cb: "md5_update ca ?bits 8 = Inr cb"
      "md5_rep cb ((m @ take (unat padlen) PADDING) @ take 8 ?bits)"
    using md5_update_rep [OF ca(2), of 8 ?bits] lb by auto
  have z: "unat padlen - 1 = (119 - ?r) mod 64"
    using pad_length [of ?r] by (simp add: up)
  have "(m @ take (unat padlen) PADDING) @ take 8 ?bits = ref_pad m"
    using lb pb by (simp only: PADDING_props z ref_pad_def u0 u1 le_bytes_split) simp
  with cb(2) have st: "state cb = ref_absorb ref_IV (ref_pad m)"
    by (simp only: md5_rep_def)
  obtain s0 s1 s2 s3 where s: "ref_absorb ref_IV (ref_pad m) = (s0, s1, s2, s3)"
    by (metis prod_cases4)
  have "md5_encode digest [s0, s1, s2, s3] 16 = Inr (ref_md5 m)"
    using encode_words [of digest "[s0, s1, s2, s3]"] d by (simp add: ref_md5_def ref_bytes_def s)
  then show ?thesis
    using c bits ca(1) cb(1)
    by (simp add: md5_final_def index_def [symmetric] padlen_def [symmetric] st s Let_def)
qed


section \<open>The interface of the digest's clients\<close>

text \<open>The calls that feed a context with one piece after the other.\<close>

fun feed :: "('c \<Rightarrow> cbytes \<Rightarrow> u32 \<Rightarrow> 'c res) \<Rightarrow> 'c \<Rightarrow> cbytes list \<Rightarrow> 'c res" where
  "feed update c [] = Inr c"
| "feed update c (x # xs) = rbind (update c x (word_of_nat (length x))) (\<lambda>c. feed update c xs)"

locale streaming_digest =
  fixes rep :: "'c \<Rightarrow> cbytes \<Rightarrow> bool"
    and blank :: "'c \<Rightarrow> bool"
    and init :: "'c \<Rightarrow> 'c"
    and update :: "'c \<Rightarrow> cbytes \<Rightarrow> u32 \<Rightarrow> 'c res"
    and final :: "'c \<Rightarrow> cbytes \<Rightarrow> ('c \<times> cbytes) res"
    and digest_of :: "cbytes \<Rightarrow> cbytes"
    and digest_size :: nat
  assumes init_rep: "blank c \<Longrightarrow> rep (init c) []"
    and update_rep: "rep c m \<Longrightarrow> unat n \<le> length input \<Longrightarrow> unat n < 2 ^ 32 - 64 \<Longrightarrow>
      \<exists>c'. update c input n = Inr c' \<and> rep c' (m @ take (unat n) input)"
    and final_rep: "rep c m \<Longrightarrow> length d = digest_size \<Longrightarrow>
      \<exists>c'. final c d = Inr (c', digest_of m)"
begin

lemma one_shot:
  assumes "blank c" and "unat n \<le> length input" and "unat n < 2 ^ 32 - 64" and "length d = digest_size"
  shows "\<exists>c'. rbind (update (init c) input n) (\<lambda>c. final c d) =
    Inr (c', digest_of (take (unat n) input))"
  using update_rep [OF init_rep [OF assms(1)] assms(2,3)] final_rep [OF _ assms(4)] by fastforce

lemma pieces:
  assumes "rep c m" and "\<forall>x \<in> set xs. length x < 2 ^ 32 - 64"
  shows "\<exists>c'. feed update c xs = Inr c' \<and> rep c' (m @ concat xs)"
  using assms
proof (induction xs arbitrary: c m)
  case (Cons x xs)
  have n: "unat (word_of_nat (length x) :: u32) = length x"
    using Cons.prems(2) by (simp add: unat_of_nat)
  obtain c1 where "update c x (word_of_nat (length x)) = Inr c1" "rep c1 (m @ x)"
    using update_rep [OF Cons.prems(1), of "word_of_nat (length x)" x] n Cons.prems(2) by auto
  with Cons.IH [of c1 "m @ x"] Cons.prems(2) show ?case by auto
qed simp

lemma pieces_digest:
  assumes "blank c" and "\<forall>x \<in> set xs. length x < 2 ^ 32 - 64" and "length d = digest_size"
  shows "\<exists>c'. rbind (feed update (init c) xs) (\<lambda>c. final c d) = Inr (c', digest_of (concat xs))"
  using pieces [OF init_rep [OF assms(1)] assms(2)] final_rep [OF _ assms(3)] by fastforce

end

interpretation md5: streaming_digest md5_rep "\<lambda>c. length (buffer c) = 64" md5_init md5_update
  md5_final ref_md5 16
  by unfold_locales (auto intro: md5_init_rep md5_update_rep md5_final_rep)

section \<open>Properties\<close>

text \<open>C1: \<open>md5_update\<close> keeps the invariant of a context: one that stands for the bytes \<open>m\<close>
  (64-bit bit count with carry, chaining state over the whole blocks, the rest in the buffer)
  is turned, without a fault, into one that stands for \<open>m\<close> and the bytes passed to it.\<close>

theorem md5_update_extends:
  assumes "md5_rep c m" and "unat n \<le> length input" and "unat n < 2 ^ 32 - 64"
  shows "\<exists>c'. md5_update c input n = Inr c' \<and> md5_rep c' (m @ take (unat n) input)"
  using assms by (rule md5.update_rep)

theorem md5_update_extends_witness:
  "\<exists>c'. md5_update (md5_init \<lparr>count = (5, 5), state = (0, 0, 0, 0), buffer = replicate 64 0\<rparr>)
      (replicate 100 1) 70 = Inr c' \<and> md5_rep c' ([] @ take (unat (70 :: u32)) (replicate 100 1))"
  by (rule md5_update_extends) (simp_all add: md5_init_rep)

text \<open>C5: the digest of a message does not depend on how it is cut into calls: however two lists of
  pieces cut the same message, empty pieces and a message of any length included, feeding the pieces one
  after the other and finishing gives the same bytes, the digest of RFC 1321 of the message.  A piece
  has a length that the loop bound of one call can express.\<close>

theorem md5_pieces:
  assumes "length (buffer junk) = 64" and "length d = 16" and "concat xs = concat ys"
    and "\<forall>x \<in> set xs. length x < 2 ^ 32 - 64" and "\<forall>y \<in> set ys. length y < 2 ^ 32 - 64"
  shows "\<exists>c1 c2.
    rbind (feed md5_update (md5_init junk) xs) (\<lambda>c. md5_final c d) = Inr (c1, ref_md5 (concat xs)) \<and>
    rbind (feed md5_update (md5_init junk) ys) (\<lambda>c. md5_final c d) = Inr (c2, ref_md5 (concat xs))"
  using md5.pieces_digest [OF assms(1,4,2)] md5.pieces_digest [OF assms(1,5,2)] assms(3) by auto

theorem md5_pieces_witness:
  "\<exists>c1 c2.
    rbind (feed md5_update (md5_init \<lparr>count = (5, 5), state = (0, 0, 0, 0), buffer = replicate 64 0\<rparr>) [[97], [], [98, 99]])
      (\<lambda>c. md5_final c (replicate 16 0)) = Inr (c1, ref_md5 (concat [[97], [], [98, 99]])) \<and>
    rbind (feed md5_update (md5_init \<lparr>count = (5, 5), state = (0, 0, 0, 0), buffer = replicate 64 0\<rparr>) [[97, 98, 99]])
      (\<lambda>c. md5_final c (replicate 16 0)) = Inr (c2, ref_md5 (concat [[97], [], [98, 99]]))"
  by (rule md5_pieces) simp_all

end
