(* ===== verification/Gen_Md5.thy ===== *)
theory Gen_Md5
  imports Md5_Correct
begin

text \<open>
  The clients of the digest in \<open>src/src/myfcp/genstring.c\<close>: \<open>gen_string_md5\<close> and
  \<open>gen_file_md5\<close>.  What \<open>open\<close> and \<open>read\<close> return is an argument of the model: the descriptor,
  and the list of the results of the successive \<open>read\<close> calls (end of file after the last).
\<close>

section \<open>Model\<close>

definition hexdigit :: "byte \<Rightarrow> byte" where
  "hexdigit v = (if v < 10 then 48 + v else 87 + v)"

text \<open>\<open>snprintf(md5_str + i*2, 2+1, "%02x", v)\<close>: two lower-case hex digits and a NUL.\<close>

definition snprintf_02x :: "cbytes \<Rightarrow> nat \<Rightarrow> byte \<Rightarrow> cbytes res" where
  "snprintf_02x buf off v =
    rbind (wr buf off (hexdigit (drop_bit 4 v))) (\<lambda>buf.
    rbind (wr buf (off + 1) (hexdigit (v AND 0xF))) (\<lambda>buf.
      wr buf (off + 2) 0))"

fun md5_hex_loop :: "cbytes \<Rightarrow> cbytes \<Rightarrow> nat \<Rightarrow> cbytes res" where
  "md5_hex_loop md5_str [] i = Inr md5_str"
| "md5_hex_loop md5_str (v # md5_value) i =
    rbind (snprintf_02x md5_str (i * 2) v) (\<lambda>md5_str. md5_hex_loop md5_str md5_value (i + 1))"

text \<open>\<open>junk\<close> is the uninitialised context on the stack, \<open>md5_str\<close> the caller's output buffer.\<close>

definition gen_string_md5 :: "md5_ctx \<Rightarrow> cbytes \<Rightarrow> u32 \<Rightarrow> cbytes \<Rightarrow> (int \<times> cbytes) res" where
  "gen_string_md5 junk str str_len md5_str =
    (let md5 = md5_init junk in
     rbind (md5_update md5 str str_len) (\<lambda>md5.
     rbind (md5_final md5 (replicate 16 0)) (\<lambda>(md5, md5_value).
     rbind (md5_hex_loop md5_str md5_value 0) (\<lambda>md5_str.
       Inr (0, md5_str)))))"

datatype read_result = ReadError | ReadData cbytes

text \<open>
  The read loop of \<open>gen_file_md5\<close>: \<open>None\<close> when \<open>read\<close> failed.  A \<open>read\<close> fills at most the
  256 bytes of \<open>data\<close>, whose other bytes keep what an earlier \<open>read\<close> left.
\<close>

fun file_md5_loop :: "md5_ctx \<Rightarrow> cbytes \<Rightarrow> read_result list \<Rightarrow> md5_ctx option res" where
  "file_md5_loop md5 data [] =
    rbind (md5_update md5 data 0) (\<lambda>md5. Inr (Some md5))"
| "file_md5_loop md5 data (ReadError # rs) = Inr None"
| "file_md5_loop md5 data (ReadData bs # rs) =
    rbind (memcpy data 0 bs 0 (length bs)) (\<lambda>data.
    rbind (md5_update md5 data (word_of_nat (length bs))) (\<lambda>md5.
      if length bs < 256 then Inr (Some md5) else file_md5_loop md5 data rs))"

text \<open>
  \<open>fds\<close> is the set of open descriptors once \<open>open\<close> has returned \<open>fd\<close>; the result holds the
  return value, the output buffer and the descriptors still open.
\<close>

definition gen_file_md5 ::
    "md5_ctx \<Rightarrow> cbytes \<Rightarrow> int \<Rightarrow> int set \<Rightarrow> read_result list \<Rightarrow> cbytes \<Rightarrow> (int \<times> cbytes \<times> int set) res"
  where
  "gen_file_md5 junk data fd fds reads md5_str =
    (if fd \<le> 0 then Inr (-1, md5_str, fds)
     else
       rbind (file_md5_loop (md5_init junk) data reads) (\<lambda>r.
         let fds = fds - {fd} in
         case r of None \<Rightarrow> Inr (-1, md5_str, fds)
         | Some md5 \<Rightarrow>
             rbind (md5_final md5 (replicate 16 0)) (\<lambda>(md5, md5_value).
             rbind (md5_hex_loop md5_str md5_value 0) (\<lambda>md5_str.
               Inr (0, md5_str, fds)))))"

section \<open>The hex string\<close>

definition hex_of :: "cbytes \<Rightarrow> cbytes" where
  "hex_of bs = concat (map (\<lambda>v. [hexdigit (drop_bit 4 v), hexdigit (v AND 0xF)]) bs)"

lemma length_hex_of [simp]: "length (hex_of bs) = 2 * length bs"
  by (induction bs) (auto simp: hex_of_def)

lemma splice3:
  assumes "off + 2 < length buf"
  shows "buf[off := a, Suc off := b, Suc (Suc off) := c] =
    take off buf @ a # b # c # drop (Suc (Suc (Suc off))) buf"
  using assms
proof (induction off arbitrary: buf)
  case 0
  then obtain x y z r where "buf = x # y # z # r"
    by (metis Suc_le_length_iff add_0 less_eq_Suc_le numeral_2_eq_2 )
  then show ?case by simp
next
  case (Suc off)
  then show ?case by (cases buf) auto
qed

lemma hex_loop:
  assumes "2 * (i + length vs) < length buf"
  shows "md5_hex_loop buf vs i = Inr
    (if vs = [] then buf else take (2 * i) buf @ hex_of vs @ 0 # drop (Suc (2 * (i + length vs))) buf)"
  using assms
proof (induction vs arbitrary: i buf)
  case (Cons v vs)
  let ?b = "take (2 * i) buf @ hexdigit (drop_bit 4 v) # hexdigit (v AND 0xF) # 0 # drop (Suc (Suc (Suc (2 * i)))) buf"
  have s: "snprintf_02x buf (i * 2) v = Inr ?b"
    using Cons.prems by (simp add: snprintf_02x_def wr_in splice3 mult.commute)
  have "md5_hex_loop ?b vs (Suc i) = Inr (if vs = [] then ?b else take (2 * Suc i) ?b @ hex_of vs @
      0 # drop (Suc (2 * (Suc i + length vs))) ?b)"
    by (rule Cons.IH) (use Cons.prems in simp)
  with s Cons.prems show ?case
    by (cases vs) (auto simp: hex_of_def algebra_simps drop_Cons')
qed simp

lemma length_ref_md5 [simp]: "length (ref_md5 m) = 16"
  by (auto simp: ref_md5_def ref_bytes_def ref_le_def split: prod.split)

lemma hex_digest:
  "33 \<le> length buf \<Longrightarrow> md5_hex_loop buf (ref_md5 m) 0 = Inr (hex_of (ref_md5 m) @ 0 # drop 33 buf)"
  using hex_loop [of 0 "ref_md5 m" buf] by (auto simp flip: length_0_conv)

section \<open>The digests\<close>

lemma string_md5:
  assumes "length (buffer junk) = 64" and "unat n \<le> length str" and "unat n < 2 ^ 32 - 64"
    and "33 \<le> length md5_str"
  shows "gen_string_md5 junk str n md5_str =
    Inr (0, hex_of (ref_md5 (take (unat n) str)) @ 0 # drop 33 md5_str)"
proof -
  obtain c c' where "md5_update (md5_init junk) str n = Inr c"
      "md5_final c (replicate 16 0) = Inr (c', ref_md5 (take (unat n) str))"
    using md5.one_shot [OF assms(1-3), of "replicate 16 0"] by (auto simp: rbind_eq_Inr)
  then show ?thesis using assms(4) by (simp add: gen_string_md5_def hex_digest)
qed

text \<open>
  \<open>chunked reads m\<close>: the reads return whole 256-byte blocks and then a shorter one (possibly
  at end of file), and \<open>m\<close> is what they returned.
\<close>

fun chunked :: "read_result list \<Rightarrow> cbytes \<Rightarrow> bool" where
  "chunked [] m \<longleftrightarrow> m = []"
| "chunked (ReadError # rs) m \<longleftrightarrow> False"
| "chunked (ReadData bs # rs) m \<longleftrightarrow>
    (if length bs < 256 then m = bs else length bs = 256 \<and> take 256 m = bs \<and> chunked rs (drop 256 m))"

lemma update_small:
  assumes "md5_rep c m" and "k \<le> length input" and "k \<le> 256"
  shows "\<exists>c'. md5_update c input (word_of_nat k) = Inr c' \<and> md5_rep c' (m @ take k input)"
  using md5.update_rep [OF assms(1), of "word_of_nat k" input] assms(2,3)
  by (simp add: unat_of_nat)

lemma file_loop:
  assumes "md5_rep c p" and "length data = 256" and "chunked reads m"
  shows "\<exists>c'. file_md5_loop c data reads = Inr (Some c') \<and> md5_rep c' (p @ m)"
  using assms
proof (induction c data reads arbitrary: p m rule: file_md5_loop.induct)
  case (1 c data)
  then show ?case using update_small [of c p 0 data] by auto
next
  case (3 c data bs rs)
  let ?d = "bs @ drop (length bs) data"
  have le: "length bs \<le> 256" using "3.prems" by (auto split: if_splits)
  have mc: "memcpy data 0 bs 0 (length bs) = Inr ?d"
    using le "3.prems" by (subst memcpy_eq) auto
  obtain c1 where c1: "md5_update c ?d (word_of_nat (length bs)) = Inr c1" "md5_rep c1 (p @ bs)"
    using update_small [OF "3.prems"(1), of "length bs" ?d] le by auto
  show ?case
  proof (cases "length bs < 256")
    case True
    with "3.prems" mc c1 show ?thesis by auto
  next
    case False
    with "3.prems" have bs: "length bs = 256" "m = bs @ drop 256 m" "chunked rs (drop 256 m)"
      by (auto simp: append_take_drop_id [symmetric] simp del: append_take_drop_id)
    have "length ?d = 256" using "3.prems" le by simp
    have step: "file_md5_loop c data (ReadData bs # rs) = file_md5_loop c1 ?d rs"
      using False by (simp only: file_md5_loop.simps mc c1(1) rbind_simps if_False)
    have m: "p @ m = (p @ bs) @ drop 256 m" unfolding append_assoc by (simp flip: bs(2))
    show ?thesis
      unfolding step m by (rule "3.IH" [OF False c1(2) \<open>length ?d = 256\<close> bs(3)])
  qed
qed simp

lemma file_loop_error:
  assumes "md5_rep c p" and "length data = 256" and "\<forall>bs \<in> set chunks. length bs = 256"
  shows "file_md5_loop c data (map ReadData chunks @ ReadError # rs) = Inr None"
  using assms
proof (induction chunks arbitrary: c data p)
  case (Cons bs chunks)
  let ?d = "bs @ drop (length bs) data"
  have mc: "memcpy data 0 bs 0 (length bs) = Inr ?d"
    using Cons.prems by (subst memcpy_eq) auto
  obtain c1 where c1: "md5_update c ?d (word_of_nat (length bs)) = Inr c1" "md5_rep c1 (p @ bs)"
    using update_small [OF Cons.prems(1), of "length bs" ?d] Cons.prems by auto
  have "length ?d = 256" using Cons.prems by simp
  from Cons.IH [OF c1(2) this] Cons.prems mc c1(1) show ?case by simp
qed simp

lemma file_md5:
  assumes "length (buffer junk) = 64" and "length data = 256" and "33 \<le> length md5_str"
    and "0 < fd" and "chunked reads m"
  shows "gen_file_md5 junk data fd fds reads md5_str =
    Inr (0, hex_of (ref_md5 m) @ 0 # drop 33 md5_str, fds - {fd})"
proof -
  obtain c where c: "file_md5_loop (md5_init junk) data reads = Inr (Some c)" "md5_rep c m"
    using file_loop [OF md5.init_rep [OF assms(1)] assms(2,5)] by auto
  obtain c' where "md5_final c (replicate 16 0) = Inr (c', ref_md5 m)"
    using md5.final_rep [OF c(2), of "replicate 16 0"] by auto
  then show ?thesis using c assms(3,4) by (simp add: gen_file_md5_def hex_digest)
qed

section \<open>Properties\<close>

text \<open>C2: \<open>gen_string_md5\<close> returns 0 and leaves in the caller's buffer, NUL-terminated, the
  32 lower-case hex digits of the RFC 1321 digest of the string; the rest of the buffer is
  unchanged and there is no fault, for every buffer of at least 33 bytes.\<close>

theorem gen_string_md5_digest:
  assumes "length (buffer junk) = 64" and "unat n \<le> length str" and "unat n < 2 ^ 32 - 64"
    and "33 \<le> length md5_str"
  shows "gen_string_md5 junk str n md5_str =
    Inr (0, hex_of (ref_md5 (take (unat n) str)) @ 0 # drop 33 md5_str)"
  using assms by (rule string_md5)

theorem gen_string_md5_digest_witness:
  "gen_string_md5 \<lparr>count = (5, 5), state = (0, 0, 0, 0), buffer = replicate 64 0\<rparr> [97, 98, 99, 0] 3
      (replicate 33 9) =
    Inr (0, hex_of (ref_md5 (take (unat (3 :: u32)) [97, 98, 99, 0])) @ 0 # drop 33 (replicate 33 9))"
  by (rule gen_string_md5_digest) simp_all

text \<open>C4: when \<open>read\<close> returns whole 256-byte chunks until a shorter last one, as it does on a
  regular file, \<open>gen_file_md5\<close> returns 0, writes the hex digest of the whole content and
  closes the descriptor, for a content of any length.\<close>

theorem gen_file_md5_digest:
  assumes "length (buffer junk) = 64" and "length data = 256" and "33 \<le> length md5_str"
    and "0 < fd" and "chunked reads m"
  shows "gen_file_md5 junk data fd fds reads md5_str =
    Inr (0, hex_of (ref_md5 m) @ 0 # drop 33 md5_str, fds - {fd})"
  using assms by (rule file_md5)

theorem gen_file_md5_digest_witness:
  "gen_file_md5 \<lparr>count = (5, 5), state = (0, 0, 0, 0), buffer = replicate 64 0\<rparr> (replicate 256 8) 3 {0, 3}
      [ReadData (replicate 256 1), ReadData [2, 3]] (replicate 40 9) =
    Inr (0, hex_of (ref_md5 (replicate 256 1 @ [2, 3])) @ 0 # drop 33 (replicate 40 9), {0, 3} - {3})"
  by (rule gen_file_md5_digest) simp_all

text \<open>C10: \<open>gen_file_md5\<close> reports every failure and leaves the caller's buffer alone: it returns
  -1 when \<open>open\<close> fails and when a \<open>read\<close> fails after any number of whole chunks, and it closes
  the descriptor it read from.\<close>

theorem gen_file_md5_error:
  assumes "length (buffer junk) = 64" and "length data = 256"
    and "\<forall>bs \<in> set chunks. length bs = 256"
  shows "gen_file_md5 junk data fd fds (map ReadData chunks @ ReadError # rs) md5_str =
    Inr (-1, md5_str, if fd \<le> 0 then fds else fds - {fd})"
  using file_loop_error [OF md5.init_rep [OF assms(1)] assms(2,3)] by (simp add: gen_file_md5_def)

theorem gen_file_md5_error_witness:
  "gen_file_md5 \<lparr>count = (5, 5), state = (0, 0, 0, 0), buffer = replicate 64 0\<rparr> (replicate 256 8) 3 {0, 3}
      (map ReadData [replicate 256 1] @ ReadError # []) [] =
    Inr (-1, [], if (3 :: int) \<le> 0 then {0, 3} else {0, 3} - {3})"
  by (rule gen_file_md5_error) simp_all

end
