(* ===== verification/Base64.thy ===== *)
theory Base64
  imports Prelude
begin

text \<open>
  \<open>gen_base64_encode\<close> and \<open>gen_base64_decode\<close> of \<open>src/src/myfcp/genstring.c\<close>.  The argument is
  the array the string lies in, so that reads beyond the terminating NUL are seen; \<open>char\<close> is
  signed, so that a byte of 128 or more is a negative number in the index computations.
  \<open>alloc n\<close> says whether \<open>malloc(n)\<close> succeeds; an allocated array has exactly the bytes asked
  for.  \<open>Inr None\<close> is the result \<open>NULL\<close>.
\<close>

section \<open>Model\<close>

definition base64_table :: cbytes where
  "base64_table =
    cbytes_of ''ABCDEFGHIJKLMNOPQRSTUVWXYZabcdefghijklmnopqrstuvwxyz0123456789+/'' @ [0]"

definition table :: "int list" where
  "table =
    [0, 0, 0, 0, 0, 0, 0, 0, 0, 0, 0, 0, 0, 0, 0, 0, 0, 0, 0, 0,
     0, 0, 0, 0, 0, 0, 0, 0, 0, 0, 0, 0, 0, 0, 0, 0, 0, 0, 0, 0,
     0, 0, 0, 62, 0, 0, 0, 63, 52, 53, 54, 55, 56, 57, 58, 59, 60, 61, 0, 0,
     0, 0, 0, 0, 0, 0, 1, 2, 3, 4, 5, 6, 7, 8, 9, 10, 11, 12, 13, 14,
     15, 16, 17, 18, 19, 20, 21, 22, 23, 24, 25, 0, 0, 0, 0, 0, 0, 26, 27, 28,
     29, 30, 31, 32, 33, 34, 35, 36, 37, 38, 39, 40, 41, 42, 43, 44, 45, 46, 47, 48,
     49, 50, 51]"

text \<open>An array read at a signed index.\<close>

definition rd_int :: "'a list \<Rightarrow> int \<Rightarrow> 'a res" where
  "rd_int xs i = (if 0 \<le> i then rd xs (nat i) else Inl OutOfBounds)"

function encode_loop :: "cbytes \<Rightarrow> nat \<Rightarrow> cbytes \<Rightarrow> nat \<Rightarrow> nat \<Rightarrow> (cbytes \<times> nat) res" where
  "encode_loop str len r i j =
    (if int i < int len - 2 then
       rbind (rd str j) (\<lambda>c0.
       rbind (rd_int base64_table (drop_bit 2 (sch c0))) (\<lambda>v.
       rbind (wr r i v) (\<lambda>r.
       rbind (rd str (j + 1)) (\<lambda>c1.
       rbind (rd_int base64_table (push_bit 4 (sch c0 AND 3) OR drop_bit 4 (sch c1))) (\<lambda>v.
       rbind (wr r (i + 1) v) (\<lambda>r.
       rbind (rd str (j + 2)) (\<lambda>c2.
       rbind (rd_int base64_table (push_bit 2 (sch c1 AND 0xF) OR drop_bit 6 (sch c2))) (\<lambda>v.
       rbind (wr r (i + 2) v) (\<lambda>r.
       rbind (rd_int base64_table (sch c2 AND 0x3F)) (\<lambda>v.
       rbind (wr r (i + 3) v) (\<lambda>r.
         encode_loop str len r (i + 4) (j + 3))))))))))))
     else Inr (r, i))"
  by pat_completeness auto
termination
  by (relation "measure (\<lambda>(str, len, r, i, j). len - i)") auto

definition gen_base64_encode :: "(nat \<Rightarrow> bool) \<Rightarrow> cbytes \<Rightarrow> cbytes option res" where
  "gen_base64_encode alloc str =
    (if \<not> terminated str then Inl OutOfBounds
     else
       let str_len = length (cstr str);
           len = (if str_len mod 3 \<noteq> 0 then (str_len div 3 + 1) * 4 else str_len div 3 * 4)
       in if \<not> alloc (len + 1) then Inr None
          else rbind (encode_loop str len (replicate (len + 1) 0) 0 0) (\<lambda>(r, i).
            if str_len mod 3 = 1 then
              rbind (wr r (i - 2) 61) (\<lambda>r. rbind (wr r (i - 1) 61) (\<lambda>r. Inr (Some r)))
            else if str_len mod 3 = 2 then
              rbind (wr r (i - 1) 61) (\<lambda>r. Inr (Some r))
            else Inr (Some r)))"

function decode_loop :: "cbytes \<Rightarrow> nat \<Rightarrow> cbytes \<Rightarrow> nat \<Rightarrow> nat \<Rightarrow> cbytes res" where
  "decode_loop code len r i j =
    (if int i < int len - 2 then
       rbind (rd code i) (\<lambda>c0. rbind (rd_int table (sch c0)) (\<lambda>t0.
       rbind (rd code (i + 1)) (\<lambda>c1. rbind (rd_int table (sch c1)) (\<lambda>t1.
       rbind (wr r j (word_of_int (push_bit 2 t0 OR drop_bit 4 t1))) (\<lambda>r.
       rbind (rd code (i + 2)) (\<lambda>c2. rbind (rd_int table (sch c2)) (\<lambda>t2.
       rbind (wr r (j + 1) (word_of_int (push_bit 4 t1 OR drop_bit 2 t2))) (\<lambda>r.
       rbind (rd code (i + 3)) (\<lambda>c3. rbind (rd_int table (sch c3)) (\<lambda>t3.
       rbind (wr r (j + 2) (word_of_int (push_bit 6 t2 OR t3))) (\<lambda>r.
         decode_loop code len r (i + 4) (j + 3))))))))))))
     else Inr r)"
  by pat_completeness auto
termination
  by (relation "measure (\<lambda>(code, len, r, i, j). len - i)") auto

declare encode_loop.simps [simp del] decode_loop.simps [simp del]

text \<open>\<open>strstr(code,"==")\<close> and \<open>strstr(code,"=")\<close>.\<close>

fun has_pair :: "cbytes \<Rightarrow> bool" where
  "has_pair (a # b # s) \<longleftrightarrow> a = 61 \<and> b = 61 \<or> has_pair (b # s)"
| "has_pair _ \<longleftrightarrow> False"

text \<open>
  \<open>str_len\<close> is a \<open>long\<close> and may be negative; the size passed to \<open>malloc\<close> is then close to
  \<open>2 ^ 64\<close>, which no allocation satisfies.
\<close>

definition gen_base64_decode :: "(nat \<Rightarrow> bool) \<Rightarrow> cbytes \<Rightarrow> cbytes option res" where
  "gen_base64_decode alloc code =
    (if \<not> terminated code then Inl OutOfBounds
     else
       let s = cstr code;
           len = length s;
           str_len = (if has_pair s then int len div 4 * 3 - 2
                      else if 61 \<in> set s then int len div 4 * 3 - 1
                      else int len div 4 * 3)
       in if str_len + 1 < 0 \<or> \<not> alloc (nat (str_len + 1)) then Inr None
          else rbind (decode_loop code len (replicate (nat (str_len + 1)) 0) 0 0)
                 (\<lambda>r. Inr (Some r)))"

section \<open>Reference encoding\<close>

text \<open>RFC 4648: three bytes are four 6-bit digits, most significant first, with padding.\<close>

definition digit :: "nat \<Rightarrow> byte" where
  "digit v = of_char ((''ABCDEFGHIJKLMNOPQRSTUVWXYZ'' @ ''abcdefghijklmnopqrstuvwxyz'' @
     ''0123456789+/'') ! v)"

fun ref_base64 :: "cbytes \<Rightarrow> cbytes" where
  "ref_base64 [] = []"
| "ref_base64 [x] = [digit (unat x div 4), digit (unat x mod 4 * 16), 61, 61]"
| "ref_base64 [x, y] =
    [digit (unat x div 4), digit (unat x mod 4 * 16 + unat y div 16), digit (unat y mod 16 * 4), 61]"
| "ref_base64 (x # y # z # s) =
    digit (unat x div 4) # digit (unat x mod 4 * 16 + unat y div 16) #
    digit (unat y mod 16 * 4 + unat z div 64) # digit (unat z mod 64) # ref_base64 s"

definition ascii :: "cbytes \<Rightarrow> bool" where
  "ascii s \<longleftrightarrow> (\<forall>c \<in> set s. c < 128)"

section \<open>Encoding\<close>

lemma sch_eq: "sch c = (if c < 128 then int (unat c) else int (unat c) - 256)"
proof -
  have u: "uint c < 256" "0 \<le> uint c" using unsigned_less [where 'a = int, of c] by simp_all
  have "sch c = (uint c + 128) mod 256 - 128"
    by (simp add: sch_def sint_uint signed_take_bit_eq_take_bit_shift take_bit_eq_mod)
  moreover have "(uint c + 128) mod 256 = (if uint c < 128 then uint c + 128 else uint c - 128)"
    using u by (auto simp: mod_pos_pos_trivial zmod_trivial_iff intro: mod_pos_geq [THEN trans])
  ultimately show ?thesis by (simp add: word_less_def)
qed

lemma int_or_add:
  "0 \<le> y \<Longrightarrow> y < 2 ^ n \<Longrightarrow> push_bit n x OR y = x * 2 ^ n + (y :: int)"
proof -
  assume y: "0 \<le> y" "y < 2 ^ n"
  then have t: "take_bit n y = y" by (simp add: take_bit_int_eq_self)
  have "push_bit n x AND y = 0"
    by (subst t [symmetric], rule bit_eqI) (auto simp: bit_simps)
  then show ?thesis by (simp add: disjunctive_add_eq_or [symmetric] push_bit_eq_mult)
qed

lemma or_high: "y < 0 \<Longrightarrow> x OR (y :: int) < 0"
  by simp

lemma and_low:
  "(x :: int) AND 3 = x mod 4" "x AND 0xF = x mod 16" "x AND 0x3F = x mod 64"
  using take_bit_eq_mask [of 2 x] take_bit_eq_mask [of 4 x] take_bit_eq_mask [of 6 x]
  by (simp_all add: mask_eq_exp_minus_1 take_bit_eq_mod)

lemma encode_table_all: "list_all (\<lambda>v. rd_int base64_table (int v) = Inr (digit v)) [0..<64]"
  by code_simp

lemma encode_table: "v < 64 \<Longrightarrow> rd_int base64_table (int v) = Inr (digit v)"
  using encode_table_all unfolding list_all_iff by simp

lemma sch_high: "\<not> c < 128 \<Longrightarrow> sch c < 0"
  using unsigned_less [where 'a = int, of c] by (simp add: sch_eq)

lemma index_high: "\<not> c < 128 \<Longrightarrow> rd_int base64_table (drop_bit n (sch c)) = Inl OutOfBounds"
  "\<not> c < 128 \<Longrightarrow> rd_int base64_table (v OR drop_bit n (sch c)) = Inl OutOfBounds"
  using sch_high [of c] by (simp_all add: rd_int_def)

lemma encode_index:
  "x < 128 \<Longrightarrow> rd_int base64_table (drop_bit 2 (sch x)) = Inr (digit (unat x div 4))"
  "x < 128 \<Longrightarrow> y < 128 \<Longrightarrow> rd_int base64_table (push_bit 4 (sch x AND 3) OR drop_bit 4 (sch y)) = 
     Inr (digit (unat x mod 4 * 16 + unat y div 16))"
  "x < 128 \<Longrightarrow> y < 128 \<Longrightarrow> rd_int base64_table (push_bit 2 (sch x AND 0xF) OR drop_bit 6 (sch y)) = 
     Inr (digit (unat x mod 16 * 4 + unat y div 64))"
  "x < 128 \<Longrightarrow> rd_int base64_table (sch x AND 0x3F) = Inr (digit (unat x mod 64))"
proof -
  have d: "uint c div 16 < 16" "uint c div 64 < 4" "0 \<le> uint c div 16" "0 \<le> uint c div 64" for c :: byte
    using unsigned_less [where 'a = int, of c] by (simp_all add: div_int_pos_iff)
  have b: "unat c < 128" if "c < 128" for c :: byte using that by (simp add: word_less_nat_alt)
  have n: "p mod 4 * 16 + q div 16 < 64" "p mod 16 * 4 + q div 64 < 64" if "q < 128" for p q :: nat
    using mod_less_divisor [of 4 p] mod_less_divisor [of 16 p]
      less_mult_imp_div_less [of q 8 16] less_mult_imp_div_less [of q 2 64] that by simp_all
  show "rd_int base64_table (drop_bit 2 (sch x)) = Inr (digit (unat x div 4))" if "x < 128"
    using b [OF that] that encode_table [of "unat x div 4"] by (simp add: sch_eq drop_bit_eq_div zdiv_int)
  show "rd_int base64_table (sch x AND 0x3F) = Inr (digit (unat x mod 64))" if "x < 128"
    using that encode_table [of "unat x mod 64"] by (simp add: sch_eq and_low zmod_int)
  show "rd_int base64_table (push_bit 4 (sch x AND 3) OR drop_bit 4 (sch y)) = 
     Inr (digit (unat x mod 4 * 16 + unat y div 16))" if "x < 128" "y < 128"
    using that encode_table [of "unat x mod 4 * 16 + unat y div 16"] n [OF b [OF that(2)]] d [of y]
      int_or_add [of "uint y div 16" 4 "uint x mod 4"]
    by (simp add: sch_eq and_low drop_bit_eq_div zmod_int zdiv_int less_mult_imp_div_less)
  show "rd_int base64_table (push_bit 2 (sch x AND 0xF) OR drop_bit 6 (sch y)) = 
     Inr (digit (unat x mod 16 * 4 + unat y div 64))" if "x < 128" "y < 128"
    using that encode_table [of "unat x mod 16 * 4 + unat y div 64"] n [OF b [OF that(2)]] d [of y]
      int_or_add [of "uint y div 64" 2 "uint x mod 16"]
    by (simp add: sch_eq and_low drop_bit_eq_div zmod_int zdiv_int less_mult_imp_div_less)
qed

lemma replicate_4: "replicate (4 + m) v = v # v # v # v # replicate m v"
  by (simp add: numeral_eq_Suc)

lemma encode_group:
  assumes "length acc + 2 < len"
  shows "encode_loop (pre @ x # y # z # t) len (acc @ replicate (4 + m) 0) (length acc) (length pre) =
    (if x < 128 \<and> y < 128 \<and> z < 128
     then encode_loop (pre @ x # y # z # t) len (acc @ digit (unat x div 4) #
            digit (unat x mod 4 * 16 + unat y div 16) # digit (unat y mod 16 * 4 + unat z div 64) #
            digit (unat z mod 64) # replicate m 0) (length acc + 4) (length pre + 3)
     else Inl OutOfBounds)"
  using assms
  by (subst encode_loop.simps) (cases "x < 128"; cases "y < 128"; cases "z < 128";
      simp add: seg_simps replicate_4 encode_index index_high del: push_bit_and)

fun enc_raw :: "cbytes \<Rightarrow> byte \<Rightarrow> cbytes" where
  "enc_raw [] c = []"
| "enc_raw [x] c = [digit (unat x div 4), digit (unat x mod 4 * 16), digit (unat c div 64), digit (unat c mod 64)]"
| "enc_raw [x, y] c =
    [digit (unat x div 4), digit (unat x mod 4 * 16 + unat y div 16), digit (unat y mod 16 * 4), digit 0]"
| "enc_raw (x # y # z # s) c =
    digit (unat x div 4) # digit (unat x mod 4 * 16 + unat y div 16) #
    digit (unat y mod 16 * 4 + unat z div 64) # digit (unat z mod 64) # enc_raw s c"

lemma encode_short:
  "encode_loop (pre @ [x, 0]) (length acc + 4) (acc @ replicate (4 + m) 0) (length acc) (length pre) =
    Inl OutOfBounds"
  using encode_index(1) [of x] encode_index(2) [of x 0]
  by (subst encode_loop.simps) (cases "x < 128"; simp add: seg_simps replicate_4 index_high del: push_bit_and)

lemma encode_end: "encode_loop str i r i j = Inr (r, i)"
  by (subst encode_loop.simps) simp

lemma encode_run:
  "encode_loop (pre @ s @ 0 # r) (length acc + 4 * ((length s + 2) div 3))
     (acc @ replicate (4 * ((length s + 2) div 3) + 1) 0) (length acc) (length pre) =
   (if ascii s \<and> (length s mod 3 = 1 \<longrightarrow> r \<noteq> [] \<and> hd r < 128)
    then Inr (acc @ enc_raw s (hd r) @ [0], length acc + 4 * ((length s + 2) div 3))
    else Inl OutOfBounds)"
proof (induction s arbitrary: pre acc rule: ref_base64.induct)
  case 1
  then show ?case by (simp add: encode_end ascii_def)
next
  case (2 x)
  show ?case
  proof (cases r)
    case Nil
    then show ?thesis using encode_short [of pre x acc 1] by (simp add: ascii_def)
  next
    case (Cons c r')
    then show ?thesis
      using encode_group [of acc "length acc + 4" pre x 0 c r' 1]
      by (simp add: encode_end ascii_def)
  qed
next
  case (3 x y)
  show ?case
    using encode_group [of acc "length acc + 4" pre x y 0 r 1]
    by (simp add: encode_end ascii_def)
next
  case (4 x y z s)
  let ?k = "4 * ((length s + 2) div 3)"
  let ?d = "[digit (unat x div 4), digit (unat x mod 4 * 16 + unat y div 16),
     digit (unat y mod 16 * 4 + unat z div 64), digit (unat z mod 64)]"
  have l: "4 * ((length (x # y # z # s) + 2) div 3) = 4 + ?k"
    using div_add_self1 [of 3 "length s + 2"] by (simp add: algebra_simps)
  have la: "length (acc @ ?d) = length acc + 4" "length (pre @ [x, y, z]) = length pre + 3" by simp_all
  have m: "length (x # y # z # s) mod 3 = length s mod 3" by (simp add: mod_simps)
  have e: "encode_loop (pre @ x # y # z # s @ 0 # r) (length acc + (4 + ?k))
      (acc @ replicate (4 + (?k + 1)) 0) (length acc) (length pre) =
    (if x < 128 \<and> y < 128 \<and> z < 128
     then encode_loop ((pre @ [x, y, z]) @ s @ 0 # r) (length (acc @ ?d) + ?k)
       ((acc @ ?d) @ replicate (?k + 1) 0) (length (acc @ ?d)) (length (pre @ [x, y, z]))
     else Inl OutOfBounds)"
    unfolding la using encode_group [of acc "length acc + (4 + ?k)" pre x y z "s @ 0 # r" "?k + 1"]
    by (simp only: append_assoc append_Cons append_Nil add.assoc)
  have a: "ascii (x # y # z # s) \<longleftrightarrow> x < 128 \<and> y < 128 \<and> z < 128 \<and> ascii s"
    by (auto simp: ascii_def)
  show ?case
    using e unfolding l m a 4 by (simp add: ac_simps)
qed

lemma length_enc_raw: "length (enc_raw s c) = 4 * ((length s + 2) div 3)"
proof (induction s c rule: enc_raw.induct)
  case (4 x y z s c)
  then show ?case using div_add_self1 [of 3 "length s + 2"] by (simp add: algebra_simps)
qed simp_all

lemma enc_raw_pad:
  "length s mod 3 = 0 \<Longrightarrow> enc_raw s c = ref_base64 s"
  "length s mod 3 = 1 \<Longrightarrow> \<exists>p a b. enc_raw s c = p @ [a, b] \<and> ref_base64 s = p @ [61, 61]"
  "length s mod 3 = 2 \<Longrightarrow> \<exists>p a. enc_raw s c = p @ [a] \<and> ref_base64 s = p @ [61]"
proof (induction s rule: ref_base64.induct)
  case (4 x y z s)
  let ?d = "[digit (unat x div 4), digit (unat x mod 4 * 16 + unat y div 16),
     digit (unat y mod 16 * 4 + unat z div 64), digit (unat z mod 64)]"
  have m: "length (x # y # z # s) mod 3 = length s mod 3" by (simp add: mod_simps)
  have e: "enc_raw (x # y # z # s) c = ?d @ enc_raw s c"
      "ref_base64 (x # y # z # s) = ?d @ ref_base64 s" by simp_all
  { case 1 then show ?case using 4(1) unfolding m e by simp
  next case 2 
    then obtain p a b where "enc_raw s c = p @ [a, b] \<and> ref_base64 s = p @ [61, 61]"
      using 4(2) unfolding m by auto
    then show ?case unfolding e by (intro exI [of _ "?d @ p"]) simp
  next case 3
    then obtain p a where "enc_raw s c = p @ [a] \<and> ref_base64 s = p @ [61]"
      using 4(3) unfolding m by auto
    then show ?case unfolding e by (intro exI [of _ "?d @ p"]) simp }
qed simp_all

lemma encode_eq:
  assumes "no_nul s" and "alloc (4 * ((length s + 2) div 3) + 1)"
  shows "gen_base64_encode alloc (s @ 0 # r) =
    (if ascii s \<and> (length s mod 3 = 1 \<longrightarrow> r \<noteq> [] \<and> hd r < 128)
     then Inr (Some (ref_base64 s @ [0])) else Inl OutOfBounds)"
proof -
  define len where "len = 4 * ((length s + 2) div 3)"
  define ok where "ok \<longleftrightarrow> ascii s \<and> (length s mod 3 = 1 \<longrightarrow> r \<noteq> [] \<and> hd r < 128)"
  have l: "(if n mod 3 \<noteq> 0 then (n div 3 + 1) * 4 else n div 3 * 4) = 4 * ((n + 2) div 3)" for n :: nat
    using div_mult_mod_eq [of n 3] by presburger
  note l = l [of "length s", folded len_def]
  have run: "encode_loop (s @ 0 # r) len (replicate (len + 1) 0) 0 0 =
      (if ok then Inr (enc_raw s (hd r) @ [0], len) else Inl OutOfBounds)"
    using encode_run [of "[]" s r "[]"] by (simp only: ok_def len_def append_Nil list.size add_0)
  have t: "terminated (s @ 0 # r)" by (simp add: terminated_def)
  consider "length s mod 3 = 0" | "length s mod 3 = 1" | "length s mod 3 = 2" by linarith
  then have "(if length s mod 3 = 1 then
        rbind (wr (enc_raw s (hd r) @ [0]) (len - 2) 61) (\<lambda>r. rbind (wr r (len - 1) 61) (\<lambda>r. Inr (Some r)))
      else if length s mod 3 = 2 then
        rbind (wr (enc_raw s (hd r) @ [0]) (len - 1) 61) (\<lambda>r. Inr (Some r))
      else Inr (Some (enc_raw s (hd r) @ [0]))) = Inr (Some (ref_base64 s @ [0]))"
  proof cases
    case 1
    then show ?thesis using enc_raw_pad(1) by simp
  next
    case 2
    from enc_raw_pad(2) [OF this, of "hd r"] obtain p a b where
      p: "enc_raw s (hd r) = p @ [a, b]" "ref_base64 s = p @ [61, 61]" by blast
    then have "len = length p + 2" using length_enc_raw [of s "hd r"] by (simp add: len_def)
    then show ?thesis using 2 p by (simp add: seg_simps)
  next
    case 3
    from enc_raw_pad(3) [OF this, of "hd r"] obtain p a where
      p: "enc_raw s (hd r) = p @ [a]" "ref_base64 s = p @ [61]" by blast
    then have "len = length p + 1" using length_enc_raw [of s "hd r"] by (simp add: len_def)
    then show ?thesis using 3 p by (simp add: seg_simps)
  qed
  moreover have "alloc (len + 1)" using assms(2) by (simp add: len_def)
  ultimately show ?thesis using run t l assms(1)
    unfolding ok_def [symmetric]
    by (cases ok) (simp_all only: gen_base64_encode_def cstr_append_nul Let_def if_True if_False
      not_True_eq_False rbind_simps prod.case)
qed

section \<open>Decoding\<close>

lemma decode_table_all: "list_all (\<lambda>v. rd_int table (sch (digit v)) = Inr (int v)) [0..<64]"
  by code_simp

lemma decode_table: "v < 64 \<Longrightarrow> rd_int table (sch (digit v)) = Inr (int v)"
  using decode_table_all unfolding list_all_iff by simp

lemma decode_table_pad: "rd_int table (sch 61) = Inr 0" "rd_int table (sch 0) = Inr 0"
  by code_simp+

lemma digit_ne: "v < 64 \<Longrightarrow> digit v \<noteq> 61 \<and> digit v \<noteq> 0"
proof -
  have "list_all (\<lambda>v. digit v \<noteq> 61 \<and> digit v \<noteq> 0) [0..<64]" by code_simp
  then show "v < 64 \<Longrightarrow> digit v \<noteq> 61 \<and> digit v \<noteq> 0" unfolding list_all_iff by simp
qed

lemma int_or_nat:
  "b < 2 ^ n \<Longrightarrow> (word_of_int (push_bit n (int a) OR int b) :: byte) = word_of_nat (a * 2 ^ n + b)"
proof -
  assume "b < 2 ^ n"
  then have "int b < 2 ^ n" by (metis of_nat_less_iff of_nat_numeral of_nat_power)
  then have "push_bit n (int a) OR int b = int (a * 2 ^ n + b)" by (simp add: int_or_add)
  then show ?thesis by (simp only: of_int_of_nat_eq)
qed

lemma byte_mod: "(word_of_nat (256 * a + unat y) :: byte) = y"
proof -
  have "(word_of_nat 256 :: byte) = 0" by code_simp
  then have "(word_of_nat (256 * a) :: byte) = 0" by (simp only: of_nat_mult mult_zero_left)
  then show ?thesis by (simp only: of_nat_add add_0) simp
qed

lemma drop_int: "drop_bit 4 (int n) = int (n div 16)" "drop_bit 2 (int n) = int (n div 4)"
  by (simp_all add: drop_bit_eq_div zdiv_int)

lemma byte_parts:
  fixes x y z :: byte
  shows "(word_of_int (push_bit 2 (int (unat x div 4)) OR
      drop_bit 4 (int (unat x mod 4 * 16 + unat y div 16))) :: byte) = x"
    and "(word_of_int (push_bit 4 (int (unat x mod 4 * 16 + unat y div 16)) OR
      drop_bit 2 (int (unat y mod 16 * 4 + unat z div 64))) :: byte) = y"
    and "(word_of_int (push_bit 6 (int (unat y mod 16 * 4 + unat z div 64)) OR
      int (unat z mod 64)) :: byte) = z"
proof -
  have d: "unat x div 16 < 16" "unat x div 64 < 4" for x :: byte
    using unsigned_less [where 'a = nat, of x] by (simp_all add: less_mult_imp_div_less)
  have q: "drop_bit 4 (int (unat x mod 4 * 16 + unat y div 16)) = int (unat x mod 4)" for x y :: byte
    unfolding drop_int using d [of y] by simp
  have q2: "drop_bit 2 (int (unat y mod 16 * 4 + unat z div 64)) = int (unat y mod 16)" for y z :: byte
    unfolding drop_int using d [of z] by simp
  show "(word_of_int (push_bit 2 (int (unat x div 4)) OR
      drop_bit 4 (int (unat x mod 4 * 16 + unat y div 16))) :: byte) = x"
    unfolding q by (subst int_or_nat) (simp_all add: div_mult_mod_eq)
  show "(word_of_int (push_bit 4 (int (unat x mod 4 * 16 + unat y div 16)) OR
      drop_bit 2 (int (unat y mod 16 * 4 + unat z div 64))) :: byte) = y"
  proof -
    have "(unat x mod 4 * 16 + unat y div 16) * 2 ^ 4 + unat y mod 16 =
        256 * (unat x mod 4) + (unat y div 16 * 16 + unat y mod 16)" by simp
    then show ?thesis
      unfolding q2 using byte_mod [of "unat x mod 4" y] by (subst int_or_nat) (simp_all only: div_mult_mod_eq, simp)
  qed
  show "(word_of_int (push_bit 6 (int (unat y mod 16 * 4 + unat z div 64)) OR
      int (unat z mod 64)) :: byte) = z"
  proof -
    have "(unat y mod 16 * 4 + unat z div 64) * 2 ^ 6 + unat z mod 64 =
        256 * (unat y mod 16) + (unat z div 64 * 64 + unat z mod 64)" by simp
    then show ?thesis
      using byte_mod [of "unat y mod 16" z] by (subst int_or_nat) (simp_all only: div_mult_mod_eq, simp)
  qed
qed

lemma decode_group:
  assumes "length pre + 2 < len"
    and "rd_int table (sch a) = Inr t0" "rd_int table (sch b) = Inr t1"
    and "rd_int table (sch c) = Inr t2" "rd_int table (sch d) = Inr t3"
  shows "decode_loop (pre @ a # b # c # d # t) len (acc @ u # v # w # r) (length pre) (length acc) =
    decode_loop (pre @ a # b # c # d # t) len (acc @ word_of_int (push_bit 2 t0 OR drop_bit 4 t1) #
      word_of_int (push_bit 4 t1 OR drop_bit 2 t2) # word_of_int (push_bit 6 t2 OR t3) # r)
      (length pre + 4) (length acc + 3)"
  using assms by (subst decode_loop.simps) (simp add: seg_simps)

lemma decode_digits:
  assumes "length pre + 2 < len" and "v0 < 64" "v1 < 64" "v2 < 64"
  shows "v3 < 64 \<Longrightarrow> decode_loop (pre @ digit v0 # digit v1 # digit v2 # digit v3 # t) len
      (acc @ u # v # w # r) (length pre) (length acc) =
    decode_loop (pre @ digit v0 # digit v1 # digit v2 # digit v3 # t) len
      (acc @ word_of_int (push_bit 2 (int v0) OR drop_bit 4 (int v1)) #
        word_of_int (push_bit 4 (int v1) OR drop_bit 2 (int v2)) #
        word_of_int (push_bit 6 (int v2) OR int v3) # r) (length pre + 4) (length acc + 3)"
    and "decode_loop (pre @ digit v0 # digit v1 # digit v2 # 61 # t) len
      (acc @ u # v # w # r) (length pre) (length acc) =
    decode_loop (pre @ digit v0 # digit v1 # digit v2 # 61 # t) len
      (acc @ word_of_int (push_bit 2 (int v0) OR drop_bit 4 (int v1)) #
        word_of_int (push_bit 4 (int v1) OR drop_bit 2 (int v2)) #
        word_of_int (push_bit 6 (int v2) OR 0) # r) (length pre + 4) (length acc + 3)"
  by (rule decode_group [OF assms(1) decode_table [OF assms(2)] decode_table [OF assms(3)]
        decode_table [OF assms(4)]]; simp add: decode_table decode_table_pad)+

lemma decode_end: "decode_loop code i r i j = Inr r"
  by (subst decode_loop.simps) simp

lemma group_bounds:
  fixes x y z :: byte
  shows "unat x div 4 < 64" "unat x mod 4 * 16 + unat y div 16 < 64"
    "unat y mod 16 * 4 + unat z div 64 < 64" "unat z mod 64 < 64"
  using unsigned_less [where 'a = nat, of x] unsigned_less [where 'a = nat, of y]
    unsigned_less [where 'a = nat, of z] mod_less_divisor [of 4 "unat x"] mod_less_divisor [of 16 "unat y"]
    less_mult_imp_div_less [of "unat y" 16 16] less_mult_imp_div_less [of "unat z" 4 64]
  by simp_all

lemma decode_run:
  assumes "length s mod 3 \<noteq> 1"
  shows "decode_loop (pre @ ref_base64 s @ t) (length pre + 4 * ((length s + 2) div 3))
    (acc @ replicate (length s + 1) 0) (length pre) (length acc) = Inr (acc @ s @ [0])"
  using assms
proof (induction s arbitrary: pre acc rule: ref_base64.induct)
  case 1
  then show ?case by (simp add: decode_end)
next
  case (3 x y)
  show ?case
    using decode_digits(2) [of pre "length pre + 4" "unat x div 4" "unat x mod 4 * 16 + unat y div 16"
        "unat y mod 16 * 4" t acc 0 0 0 "[]"] group_bounds(1) [of x] group_bounds(2) [of x y] group_bounds(3) [of y 0]
      byte_parts(1) [of x y] byte_parts(2) [of x y 0] byte_parts(3) [of y 0]
    by (simp add: decode_end numeral_2_eq_2)
next
  case (4 x y z s)
  let ?k = "4 * ((length s + 2) div 3)"
  let ?d = "[digit (unat x div 4), digit (unat x mod 4 * 16 + unat y div 16),
     digit (unat y mod 16 * 4 + unat z div 64), digit (unat z mod 64)]"
  have l: "4 * ((length (x # y # z # s) + 2) div 3) = 4 + ?k"
    using div_add_self1 [of 3 "length s + 2"] by (simp add: algebra_simps)
  have m: "length (x # y # z # s) mod 3 = length s mod 3" by (simp add: mod_simps)
  have la: "length (pre @ ?d) = length pre + 4" "length (acc @ [x, y, z]) = length acc + 3" by simp_all
  have "decode_loop (pre @ ref_base64 (x # y # z # s) @ t) (length pre + (4 + ?k))
      (acc @ replicate (length (x # y # z # s) + 1) 0) (length pre) (length acc) =
    decode_loop ((pre @ ?d) @ ref_base64 s @ t) (length (pre @ ?d) + ?k)
      ((acc @ [x, y, z]) @ replicate (length s + 1) 0) (length (pre @ ?d)) (length (acc @ [x, y, z]))"
    unfolding la using decode_digits(1) [of pre "length pre + (4 + ?k)" "unat x div 4"
        "unat x mod 4 * 16 + unat y div 16" "unat y mod 16 * 4 + unat z div 64" "unat z mod 64"
        "ref_base64 s @ t" acc 0 0 0 "replicate (length s + 1) 0"] group_bounds(1) [of x]
      group_bounds(2) [of x y] group_bounds(3) [of y z] group_bounds(4) [of z]
      byte_parts(1) [of x y] byte_parts(2) [of x y z] byte_parts(3) [of y z] by (simp add: add.assoc)
  then show ?case
    using 4(1) [of "pre @ ?d" "acc @ [x, y, z]"] 4(2) unfolding l m by simp
qed simp

lemma has_pair_skip [simp]: "a \<noteq> 61 \<Longrightarrow> has_pair (a # s) = has_pair s"
  by (cases s) auto

lemma ref_base64_facts:
  "length (ref_base64 s) = 4 * ((length s + 2) div 3)"
  "no_nul (ref_base64 s)"
  "61 \<in> set (ref_base64 s) \<longleftrightarrow> length s mod 3 \<noteq> 0"
  "has_pair (ref_base64 s) \<longleftrightarrow> length s mod 3 = 1"
proof (induction s rule: ref_base64.induct)
  case (2 x)
  note g = group_bounds(1) [of x] group_bounds(2) [of x 0]
  { case 1 show ?case by simp
  next case 2 show ?case using g digit_ne by (simp add: no_nul_def)
  next case 3 show ?case by simp
  next case 4 show ?case using g [THEN digit_ne] by simp }
next
  case (3 x y)
  note g = group_bounds(1) [of x] group_bounds(2) [of x y] group_bounds(3) [of y 0]
  { case 1 show ?case by simp
  next case 2 show ?case using g digit_ne by (simp add: no_nul_def)
  next case 3 show ?case by simp
  next case 4 show ?case using g digit_ne by simp }
next
  case (4 x y z s)
  have m: "length (x # y # z # s) mod 3 = length s mod 3" by (simp add: mod_simps)
  note g = group_bounds(1) [of x] group_bounds(2) [of x y] group_bounds(3) [of y z] group_bounds(4) [of z]
  note ne = g [THEN digit_ne]
  { case 1 show ?case using 4(1) div_add_self1 [of 3 "length s + 2"] by (simp add: algebra_simps)
  next case 2 show ?case using 4(2) ne by (simp add: no_nul_def)
  next case 3 show ?case unfolding m using 4(3) ne by auto
  next case 4 show ?case unfolding m using \<open>has_pair (ref_base64 s) = (length s mod 3 = 1)\<close> ne by simp }
qed (simp_all add: no_nul_def)

lemma decode_eq:
  assumes "length s mod 3 \<noteq> 1" and "alloc (length s + 1)"
  shows "gen_base64_decode alloc (ref_base64 s @ 0 # r) = Inr (Some (s @ [0]))"
proof -
  have t: "terminated (ref_base64 s @ 0 # r)" by (simp add: terminated_def)
  have c: "cstr (ref_base64 s @ 0 # r) = ref_base64 s" by (simp add: cstr_append_nul ref_base64_facts)
  have "\<exists>q. (length s + 2) div 3 = q \<and> q * 3 = length s + (if length s mod 3 \<noteq> 0 then 1 else 0)"
  proof -
    consider "length s mod 3 = 0" | "length s mod 3 = 2" using assms(1) by linarith
    then show ?thesis
    proof cases
      case 1
      then have "length s = 3 * (length s div 3)" using div_mult_mod_eq [of "length s" 3] by simp
      then obtain q where "length s = 3 * q" ..
      then show ?thesis by simp
    next
      case 2
      then have "length s = 3 * (length s div 3) + 2" using div_mult_mod_eq [of "length s" 3] by simp
      then obtain q where q: "length s = 3 * q + 2" ..
      then have "(length s + 2) div 3 = q + 1" by simp
      then show ?thesis using 2 q by simp
    qed
  qed
  then obtain q where q: "length (ref_base64 s) = 4 * q"
      "q * 3 = length s + (if length s mod 3 \<noteq> 0 then 1 else 0)"
    by (auto simp only: ref_base64_facts)
  then have l: "int (length (ref_base64 s)) div 4 * 3 - (if length s mod 3 \<noteq> 0 then 1 else 0) = int (length s)"
    by (simp split: if_splits)
  have "decode_loop (ref_base64 s @ 0 # r) (length (ref_base64 s)) (replicate (length s + 1) 0) 0 0
      = Inr (s @ [0])"
    using decode_run [OF assms(1), of "[]" "0 # r" "[]"] by (simp add: ref_base64_facts)
  moreover have "nat (int (length s) + 1) = length s + 1" by simp
  ultimately show ?thesis
    using t l assms unfolding gen_base64_decode_def c Let_def ref_base64_facts(3,4)
    by (cases "length s mod 3 = 0") (simp_all only: simp_thms if_True if_False of_nat_1 diff_0_right rbind_simps, simp_all)
qed

lemma wr_Inr: "wr xs i v = Inr ys \<Longrightarrow> i < length xs \<and> length ys = length xs"
  by (auto simp: wr_def split: if_splits)

lemma decode_loop_bound:
  "decode_loop code len r i j = Inr r' \<Longrightarrow> i + 2 < len \<Longrightarrow> j + 3 * ((len - i + 1) div 4) \<le> length r"
proof (induction "len - i" arbitrary: r i j rule: less_induct)
  case less
  from less.prems obtain r3 where r3: "decode_loop code len r3 (i + 4) (j + 3) = Inr r'"
    "length r3 = length r" "j + 2 < length r"
    by (subst (asm) decode_loop.simps, subst (asm) if_P)
      (simp, simp only: rbind_eq_Inr, elim exE conjE, auto dest!: wr_Inr)
  show ?case
  proof (cases "i + 4 + 2 < len")
    case True
    have "j + 3 + 3 * ((len - (i + 4) + 1) div 4) \<le> length r3"
      using less.hyps [OF _ r3(1)] less.prems True by simp
    moreover have e: "len - i + 1 = (len - (i + 4) + 1) + 4" using True by simp
    have "(len - i + 1) div 4 = (len - (i + 4) + 1) div 4 + 1" by (subst e) simp
    ultimately show ?thesis using r3(2) by linarith
  next
    case False
    then have "(len - i + 1) div 4 = 1" using less.prems(2) by simp
    then show ?thesis using r3(3) by simp
  qed
qed

lemma only_oob_rd_int [only_oob_intros]: "only_oob (rd_int xs k)"
  by (auto simp: rd_int_def rd_def only_oob_def)

lemma decode_loop_only_oob: "only_oob (decode_loop code len r i j)"
proof (induction "len - i" arbitrary: r i j rule: less_induct)
  case less
  show ?case
  proof (cases "int i < int len - 2")
    case True
    then have "len - (i + 4) < len - i" by simp
    note IH = less.hyps [OF this]
    show ?thesis
      by (subst decode_loop.simps, subst if_P [OF True]) (intro only_oob_intros IH)
  next
    case False
    then show ?thesis by (subst decode_loop.simps) (simp add: only_oob_intros)
  qed
qed

lemma decode_overflow:
  assumes "no_nul s" and "has_pair s \<or> length s mod 4 = 3" and "4 \<le> length s"
  shows "gen_base64_decode (\<lambda>_. True) (s @ 0 # r) = Inl OutOfBounds"
proof -
  let ?L = "if has_pair s then int (length s) div 4 * 3 - 2
     else if 61 \<in> set s then int (length s) div 4 * 3 - 1 else int (length s) div 4 * 3"
  let ?n = "nat (?L + 1)"
  obtain q m where q: "length s = 4 * q + m" "m < 4" "1 \<le> q"
    using assms(3) div_mult_mod_eq [of "length s" 4] mod_less_divisor [of 4 "length s"]
      div_le_mono [OF assms(3), of 4] by (metis div_self mult.commute zero_less_numeral zero_neq_numeral)
  then have d: "int (length s) div 4 = int q" by (simp add: div_add1_eq)
  have lt: "?n < 3 * ((length s + 1) div 4)"
  proof (cases "m = 3")
    case True
    then have "length s + 1 = 4 * (q + 1)" using q by simp
    then have "(length s + 1) div 4 = q + 1" by simp
    moreover have "?n \<le> 3 * q + 1" by (auto simp: d)
    ultimately show ?thesis by simp
  next
    case False
    then have "(length s + 1) div 4 = q" using q by (simp add: div_nat_eqI)
    moreover have "has_pair s" using False assms(2) q by simp
    ultimately show ?thesis using q(3) by (simp add: d)
  qed
  have "decode_loop (s @ 0 # r) (length s) (replicate ?n 0) 0 0 \<noteq> Inr r'" for r'
    using decode_loop_bound [of "s @ 0 # r" "length s" "replicate ?n 0" 0 0 r'] lt assms(3) by auto
  then have "decode_loop (s @ 0 # r) (length s) (replicate ?n 0) 0 0 = Inl OutOfBounds"
    using decode_loop_only_oob unfolding only_oob_def by (metis sum.exhaust)
  moreover have "\<not> ?L + 1 < 0" using q(3) by (simp add: d)
  moreover have "terminated (s @ 0 # r)" by (simp add: terminated_def)
  ultimately show ?thesis
    unfolding gen_base64_decode_def Let_def cstr_append_nul [OF assms(1)] by simp
qed

section \<open>Properties\<close>

text \<open>C17: \<open>gen_base64_encode\<close> in full, when memory is available: it returns the RFC 4648
  encoding exactly when every byte is ASCII and, for a length of 1 modulo 3, the byte after the
  terminating NUL exists and is ASCII too; otherwise it reads outside an array (a negative table
  index, or one byte past the string).\<close>

theorem gen_base64_encode_rfc4648:
  assumes "no_nul s" and "alloc (4 * ((length s + 2) div 3) + 1)"
  shows "gen_base64_encode alloc (s @ 0 # r) =
    (if ascii s \<and> (length s mod 3 = 1 \<longrightarrow> r \<noteq> [] \<and> hd r < 128)
     then Inr (Some (ref_base64 s @ [0])) else Inl OutOfBounds)"
  using assms by (rule encode_eq)

theorem gen_base64_encode_rfc4648_witness:
  "gen_base64_encode (\<lambda>n. n < 100) ([104, 105] @ 0 # []) =
    (if ascii [104, 105] \<and> (length [104, 105 :: byte] mod 3 = 1 \<longrightarrow> [] \<noteq> ([] :: cbytes) \<and> hd [] < (128 :: byte))
     then Inr (Some (ref_base64 [104, 105] @ [0])) else Inl OutOfBounds)"
  by (rule gen_base64_encode_rfc4648) (simp_all add: no_nul_def)

text \<open>C18: \<open>gen_base64_decode\<close> inverts the RFC 4648 encoding of every byte string, of any bytes,
  whose length is not 1 modulo 3, without a fault and with a terminating NUL.\<close>

theorem gen_base64_decode_rfc4648:
  assumes "length s mod 3 \<noteq> 1" and "alloc (length s + 1)"
  shows "gen_base64_decode alloc (ref_base64 s @ 0 # r) = Inr (Some (s @ [0]))"
  using assms by (rule decode_eq)

theorem gen_base64_decode_rfc4648_witness:
  "gen_base64_decode (\<lambda>n. n < 100) (ref_base64 [200, 0] @ 0 # [7]) = Inr (Some ([200, 0] @ [0]))"
  by (rule gen_base64_decode_rfc4648) simp_all

text \<open>Round trip on C strings: what \<open>gen_base64_encode\<close> returns for an ASCII string of a
  length not 1 modulo 3 is decoded to that string by \<open>gen_base64_decode\<close>.\<close>

theorem gen_base64_round_trip:
  assumes "no_nul s" and "ascii s" and "length s mod 3 \<noteq> 1"
    and "alloc (4 * ((length s + 2) div 3) + 1)" and "alloc (length s + 1)"
  shows "\<exists>code. gen_base64_encode alloc (s @ [0]) = Inr (Some code) \<and>
    gen_base64_decode alloc code = Inr (Some (s @ [0]))"
  using encode_eq [of s alloc "[]"] decode_eq [of s alloc "[]"] assms by simp

theorem gen_base64_round_trip_witness:
  "\<exists>code. gen_base64_encode (\<lambda>n. n < 100) ([104, 105, 33] @ [0]) = Inr (Some code) \<and>
    gen_base64_decode (\<lambda>n. n < 100) code = Inr (Some ([104, 105, 33] @ [0]))"
  by (rule gen_base64_round_trip) (simp_all add: no_nul_def ascii_def)

text \<open>C19: \<open>gen_base64_decode\<close> goes out of bounds on every input of four or more
  characters that contains \<open>==\<close>, so on every encoding of a string of length 1 modulo 3, and on
  every input of a length of 3 modulo 4: it writes past the array it allocates, unless a character
  outside the alphabet has made it read outside its table before.\<close>

theorem gen_base64_decode_overflow:
  assumes "no_nul s" and "has_pair s \<or> length s mod 4 = 3" and "4 \<le> length s"
  shows "gen_base64_decode (\<lambda>_. True) (s @ 0 # r) = Inl OutOfBounds"
  using assms by (rule decode_overflow)

theorem gen_base64_decode_overflow_witness:
  "gen_base64_decode (\<lambda>_. True) ([89, 81, 61, 61] @ 0 # []) = Inl OutOfBounds"
  by (rule gen_base64_decode_overflow) (simp_all add: no_nul_def)

end
