(* ===== verification/Memory.thy ===== *)
theory Memory
  imports Prelude
begin

text \<open>
  Allocated memory, for the parts of the library that hold state in it between calls
  (\<open>gen_foreach_field\<close>, the directory iterator of \<open>general.c\<close>, the list nodes of \<open>fcp_os.c\<close>).
  An object is a cell at an address, of a cell type the component chooses; address 0 is the
  null pointer and addresses are never reused, so that a use after release is a fault
  (\<open>UseAfterFree\<close>) and a second release is one (\<open>BadFree\<close>).  Whether the \<open>n\<close>-th allocation
  succeeds is the argument \<open>oom\<close>.
\<close>

section \<open>Model\<close>

type_synonym ptr = nat

record 'c mem =
  cells :: "ptr \<Rightarrow> 'c option"
  allocs :: nat

definition mem_alloc :: "(nat \<Rightarrow> bool) \<Rightarrow> 'c \<Rightarrow> 'c mem \<Rightarrow> ptr \<times> 'c mem" where
  "mem_alloc oom v m =
    (let n = Suc (allocs m) in
     if oom (allocs m) then (0, m\<lparr>allocs := n\<rparr>)
     else (n, m\<lparr>cells := (cells m)(n \<mapsto> v), allocs := n\<rparr>))"

definition mem_free :: "ptr \<Rightarrow> 'c mem \<Rightarrow> 'c mem res" where
  "mem_free p m =
    (if p = 0 then Inr m
     else if cells m p = None then Inl BadFree
     else Inr (m\<lparr>cells := (cells m)(p := None)\<rparr>))"

definition mem_get :: "ptr \<Rightarrow> 'c mem \<Rightarrow> 'c res" where
  "mem_get p m =
    (if p = 0 then Inl NullDeref
     else case cells m p of None \<Rightarrow> Inl UseAfterFree | Some v \<Rightarrow> Inr v)"

definition mem_put :: "ptr \<Rightarrow> 'c \<Rightarrow> 'c mem \<Rightarrow> 'c mem res" where
  "mem_put p v m =
    (if p = 0 then Inl NullDeref
     else if cells m p = None then Inl UseAfterFree
     else Inr (m\<lparr>cells := (cells m)(p \<mapsto> v)\<rparr>))"

section \<open>Laws\<close>

text \<open>Every live address has been returned by an allocation.\<close>

definition mem_ok :: "'c mem \<Rightarrow> bool" where
  "mem_ok m \<longleftrightarrow> (\<forall>p. cells m p \<noteq> None \<longrightarrow> 0 < p \<and> p \<le> allocs m)"

named_theorems mem_simps

lemma mem_alloc_fail [mem_simps]: "oom (allocs m) \<Longrightarrow> mem_alloc oom v m = (0, m\<lparr>allocs := Suc (allocs m)\<rparr>)"
  by (simp add: mem_alloc_def)

lemma mem_alloc_ok [mem_simps]: "\<not> oom (allocs m) \<Longrightarrow> mem_alloc oom v m =
    (Suc (allocs m), m\<lparr>cells := (cells m)(Suc (allocs m) \<mapsto> v), allocs := Suc (allocs m)\<rparr>)"
  by (simp add: mem_alloc_def)

lemma mem_free_live [mem_simps]:
  "cells m p = Some v \<Longrightarrow> 0 < p \<Longrightarrow> mem_free p m = Inr (m\<lparr>cells := (cells m)(p := None)\<rparr>)"
  by (simp add: mem_free_def)

lemma mem_free_null [mem_simps]: "mem_free 0 m = Inr m"
  by (simp add: mem_free_def)

lemma mem_free_dead [mem_simps]: "cells m p = None \<Longrightarrow> 0 < p \<Longrightarrow> mem_free p m = Inl BadFree"
  by (simp add: mem_free_def)

lemma mem_get_live [mem_simps]: "cells m p = Some v \<Longrightarrow> 0 < p \<Longrightarrow> mem_get p m = Inr v"
  by (simp add: mem_get_def)

lemma mem_put_live [mem_simps]:
  "cells m p = Some w \<Longrightarrow> 0 < p \<Longrightarrow> mem_put p v m = Inr (m\<lparr>cells := (cells m)(p \<mapsto> v)\<rparr>)"
  by (simp add: mem_put_def)

lemma mem_ok_fresh: "mem_ok m \<Longrightarrow> allocs m < p \<Longrightarrow> cells m p = None"
  unfolding mem_ok_def by (meson not_le)

lemma mem_ok_null: "mem_ok m \<Longrightarrow> cells m 0 = None"
  unfolding mem_ok_def by blast

lemma mem_ok_live: "mem_ok m \<Longrightarrow> cells m p = Some v \<Longrightarrow> 0 < p \<and> p \<le> allocs m"
  unfolding mem_ok_def by blast

lemma mem_ok_update:
  "mem_ok m \<Longrightarrow> cells m p \<noteq> None \<Longrightarrow> mem_ok (m\<lparr>cells := (cells m)(p := v)\<rparr>)"
  by (auto simp: mem_ok_def)

text \<open>The same laws on the cells, with the well-formedness they keep.\<close>

lemma mem_free_some:
  assumes "mem_ok m" and "p \<noteq> 0 \<longrightarrow> cells m p \<noteq> None"
  obtains m' where "mem_free p m = Inr m'" "cells m' = (cells m)(p := None)"
    "allocs m' = allocs m" "mem_ok m'"
proof (cases "p = 0")
  case True
  then show ?thesis
    using that [of m] assms mem_ok_null [OF assms(1)] by (auto simp: mem_free_null fun_upd_idem)
next
  case False
  with assms obtain v where "cells m p = Some v" by auto
  then show ?thesis
    using that [of "m\<lparr>cells := (cells m)(p := None)\<rparr>"] False assms mem_ok_update [of m p]
    by (simp add: mem_free_live)
qed

lemma mem_put_some:
  assumes "mem_ok m" and "cells m p = Some w"
  obtains m' where "mem_put p v m = Inr m'" "cells m' = (cells m)(p \<mapsto> v)"
    "allocs m' = allocs m" "mem_ok m'"
  using that [of "m\<lparr>cells := (cells m)(p \<mapsto> v)\<rparr>"] assms mem_ok_live [OF assms] mem_ok_update [of m p]
  by (simp add: mem_put_live)

lemma mem_alloc_some:
  assumes "mem_ok m" and "\<not> oom (allocs m)"
  obtains p m' where "mem_alloc oom v m = (p, m')" "0 < p" "cells m p = None"
    "cells m' = (cells m)(p \<mapsto> v)" "allocs m' = Suc (allocs m)" "mem_ok m'"
proof -
  let ?m = "m\<lparr>cells := (cells m)(Suc (allocs m) \<mapsto> v), allocs := Suc (allocs m)\<rparr>"
  have "mem_ok ?m" using assms(1) unfolding mem_ok_def by (simp add: le_SucI)
  moreover have "cells m (Suc (allocs m)) = None" using mem_ok_fresh [OF assms(1)] by simp
  ultimately show ?thesis using that [of "Suc (allocs m)" ?m] assms(2) by (simp add: mem_alloc_ok)
qed

lemma mem_alloc_none:
  assumes "mem_ok m" and "oom (allocs m)"
  obtains m' where "mem_alloc oom v m = (0, m')" "cells m' = cells m" "allocs m' = Suc (allocs m)" "mem_ok m'"
  using that [OF mem_alloc_fail [of oom m v]] assms
  by (auto simp: mem_ok_def le_SucI)

lemma mem_get_some: "mem_ok m \<Longrightarrow> cells m p = Some v \<Longrightarrow> mem_get p m = Inr v"
  using mem_ok_live [of m p v] by (simp add: mem_get_live)

end
