(* ===== verification/Item_Stream.thy ===== *)
theory Item_Stream
  imports Prelude
begin

text \<open>
  The iterator protocol of the library (\<open>struct fcp_one_item\<close> and \<open>LOOP_TYPE_*\<close> of
  \<open>src/src/myfcp/fcp_base.h\<close>): a zeroed entry is handed to a \<open>foreach\<close> function again and
  again, each call returns 0 and one item, and the first call that returns another value has
  released what the iterator held.  A caller that wants to stop sets \<open>flag\<close> to
  \<open>LOOP_TYPE_STOP\<close> and calls once more.

  The locale states the protocol; the string fields, the directory entries and the ARP table
  interpret it.
\<close>

section \<open>The entry\<close>

definition LOOP_TYPE_START :: nat where "LOOP_TYPE_START = 0"
definition LOOP_TYPE_CON :: nat where "LOOP_TYPE_CON = 1"
definition LOOP_TYPE_STOP :: nat where "LOOP_TYPE_STOP = 2"
definition LOOP_TYPE_MAX :: nat where "LOOP_TYPE_MAX = 3"

lemmas loop_types = LOOP_TYPE_START_def LOOP_TYPE_CON_def LOOP_TYPE_STOP_def LOOP_TYPE_MAX_def

record one_item =
  this_of :: nat
  data_of :: nat
  flag :: nat

definition zero_item :: one_item where
  "zero_item = \<lparr>this_of = 0, data_of = 0, flag = 0\<rparr>"

section \<open>The loop of a caller\<close>

text \<open>
  \<open>while( !step(s) ) body\<close>, where the body works on the caller's own state and may ask to stop,
  which is the function \<open>stop\<close> on the iterator's state (setting the flag).  \<open>fuel\<close> bounds the
  number of calls; \<open>None\<close> is the loop that has not ended.
\<close>

fun foreach_loop ::
    "nat \<Rightarrow> ('s \<Rightarrow> (int \<times> 's) res) \<Rightarrow> ('s \<Rightarrow> 's) \<Rightarrow> ('s \<Rightarrow> 'a \<Rightarrow> (bool \<times> 'a) res) \<Rightarrow>
      's \<Rightarrow> 'a \<Rightarrow> ('s \<times> 'a) option res" where
  "foreach_loop 0 step stop body s a = Inr None"
| "foreach_loop (Suc fuel) step stop body s a =
    rbind (step s) (\<lambda>(ret, s).
      if ret \<noteq> 0 then Inr (Some (s, a))
      else rbind (body s a) (\<lambda>(halt, a).
             foreach_loop fuel step stop body (if halt then stop s else s) a))"

text \<open>What the loop computes on the items: the body is run on them in order, up to the first
  that stops it.\<close>

fun visit :: "('x \<Rightarrow> 'a \<Rightarrow> bool \<times> 'a) \<Rightarrow> 'x list \<Rightarrow> 'a \<Rightarrow> 'a" where
  "visit g [] a = a"
| "visit g (x # xs) a = (case g x a of (halt, a) \<Rightarrow> if halt then a else visit g xs a)"

text \<open>The items delivered when each of them takes one allocation and the \<open>t\<close>-th is next.\<close>

fun delivered :: "(nat \<Rightarrow> bool) \<Rightarrow> nat \<Rightarrow> 'x list \<Rightarrow> 'x list" where
  "delivered oom t [] = []"
| "delivered oom t (w # ws) = (if oom t then [] else w # delivered oom (Suc t) ws)"

lemma visit_all: "visit (\<lambda>x a. (False, a @ [f x])) xs acc = acc @ map f xs"
  by (induction xs arbitrary: acc) auto

lemma delivered_take: "\<exists>n. delivered oom t ws = take n ws \<and> ((\<forall>k. \<not> oom k) \<longrightarrow> n = length ws)"
proof (induction ws arbitrary: t)
  case (Cons w ws)
  then obtain n where "delivered oom (Suc t) ws = take n ws" "(\<forall>k. \<not> oom k) \<longrightarrow> n = length ws" by blast
  then show ?case
    by (cases "oom t") (auto intro: exI [of _ 0] exI [of _ "Suc n"])
qed simp

text \<open>A body that never stops makes no use of the way to stop.\<close>

lemma foreach_loop_any_stop:
  assumes "\<And>s a b. body s a \<noteq> Inr (True, b)"
  shows "foreach_loop fuel step stop body s a = foreach_loop fuel step stop' body s a"
proof (induction fuel arbitrary: s a)
  case (Suc fuel)
  have "rbind (body t a) (\<lambda>(halt, a). foreach_loop fuel step stop body (if halt then stop t else t) a) =
      rbind (body t a) (\<lambda>(halt, a). foreach_loop fuel step stop' body (if halt then stop' t else t) a)" for t
  proof (cases "body t a")
    case (Inr r)
    then obtain h b where b: "body t a = Inr (h, b)" by (cases r) auto
    then have "\<not> h" using assms [of t a b] by auto
    then show ?thesis using Suc b by simp
  qed simp
  then show ?case by (cases "step s") (auto split: prod.split)
qed simp

section \<open>The protocol\<close>

locale item_stream =
  fixes step :: "'s \<Rightarrow> (int \<times> 's) res"
    and stop :: "'s \<Rightarrow> 's"
    and ready :: "'s \<Rightarrow> 'x list \<Rightarrow> bool"
    and at :: "'s \<Rightarrow> 'x \<Rightarrow> 'x list \<Rightarrow> bool"
    and released :: "'s \<Rightarrow> bool"
  assumes ready_item: "ready s (x # xs) \<Longrightarrow> \<exists>t. step s = Inr (0, t) \<and> at t x xs"
    and ready_end: "ready s [] \<Longrightarrow> \<exists>t r. step s = Inr (r, t) \<and> r \<noteq> 0 \<and> released t"
    and at_item: "at s y (x # xs) \<Longrightarrow> \<exists>t. step s = Inr (0, t) \<and> at t x xs"
    and at_end: "at s y [] \<Longrightarrow> \<exists>t r. step s = Inr (r, t) \<and> r \<noteq> 0 \<and> released t"
    and at_stop: "at s y xs \<Longrightarrow> \<exists>t r. step (stop s) = Inr (r, t) \<and> r \<noteq> 0 \<and> released t"
begin

lemma loop_from_item:
  assumes "at s y xs" and "length xs < fuel"
    and "\<And>s x xs a. at s x xs \<Longrightarrow> body s a = Inr (g x a)"
  shows "\<exists>t. foreach_loop fuel step stop body s a = Inr (Some (t, visit g xs a)) \<and> released t"
  using assms(1,2)
proof (induction xs arbitrary: s y a fuel)
  case Nil
  then obtain f where "fuel = Suc f" by (cases fuel) auto
  with at_end [OF Nil.prems(1)] show ?case by auto
next
  case (Cons x xs)
  then obtain f where f: "fuel = Suc f" "length xs < f" by (cases fuel) auto
  obtain t where t: "step s = Inr (0, t)" "at t x xs" using at_item [OF Cons.prems(1)] by blast
  obtain h b where g: "g x a = (h, b)" by fastforce
  show ?case
  proof (cases h)
    case True
    obtain f' where "f = Suc f'" using f(2) by (cases f) auto
    with at_stop [OF t(2)] show ?thesis using t g True f(1) assms(3) [OF t(2), of a] by auto
  next
    case False
    with Cons.IH [OF t(2) f(2), of b] show ?thesis using t g f(1) assms(3) [OF t(2), of a] by auto
  qed
qed

lemma loop_visits:
  assumes "ready s xs" and "length xs < fuel"
    and "\<And>s x xs a. at s x xs \<Longrightarrow> body s a = Inr (g x a)"
  shows "\<exists>t. foreach_loop fuel step stop body s a = Inr (Some (t, visit g xs a)) \<and> released t"
proof (cases xs)
  case Nil
  then obtain f where "fuel = Suc f" using assms(2) by (cases fuel) auto
  with ready_end assms(1) Nil show ?thesis by fastforce
next
  case (Cons x ys)
  then obtain f where f: "fuel = Suc f" "length ys < f" using assms(2) by (cases fuel) auto
  obtain t where t: "step s = Inr (0, t)" "at t x ys" using ready_item assms(1) Cons by blast
  obtain h b where g: "g x a = (h, b)" by fastforce
  show ?thesis
  proof (cases h)
    case True
    obtain f' where "f = Suc f'" using f(2) by (cases f) auto
    with at_stop [OF t(2)] show ?thesis using t g True f(1) Cons assms(3) [OF t(2), of a] by auto
  next
    case False
    with loop_from_item [OF t(2) f(2), of body g b] assms(3) show ?thesis
      using t g f(1) Cons assms(3) [OF t(2), of a] by auto
  qed
qed

end

end
