(* ===== verification/Gen_String.thy ===== *)
theory Gen_String
  imports Prelude
begin

text \<open>
  Trimming and path handling of \<open>src/src/myfcp/genstring.c\<close> (exported by \<open>fcp_string.c\<close>).
  A \<open>char *\<close> argument is the array it points into together with an offset; a returned
  pointer is an offset into the same array.
\<close>

section \<open>Model\<close>

text \<open>\<open>isspace\<close> of the C locale.\<close>

definition isspace :: "byte \<Rightarrow> bool" where
  "isspace c \<longleftrightarrow> c = 32 \<or> (9 \<le> c \<and> c \<le> 13)"

text \<open>\<open>strlen\<close>: a read past the array when there is no NUL byte in it.\<close>

definition c_strlen :: "cbytes \<Rightarrow> nat \<Rightarrow> nat res" where
  "c_strlen bs p =
    (if terminated (drop p bs) then Inr (length (cstr (drop p bs))) else Inl OutOfBounds)"

function gen_left_strim :: "cbytes \<Rightarrow> nat \<Rightarrow> nat res" where
  "gen_left_strim bs str =
    (if str < length bs
     then if isspace (bs ! str) then gen_left_strim bs (str + 1) else Inr str
     else Inl OutOfBounds)"
  by pat_completeness auto
termination
  by (relation "measure (\<lambda>(bs, str). length bs - str)") auto

declare gen_left_strim.simps [simp del]

text \<open>
  The loop of \<open>gen_right_strim\<close>; \<open>n\<close> is \<open>pend + 1 - str\<close>, so that \<open>pend >= str\<close> is
  \<open>n \<noteq> 0\<close>.
\<close>

fun right_strim_loop :: "cbytes \<Rightarrow> nat \<Rightarrow> nat \<Rightarrow> nat res" where
  "right_strim_loop bs str 0 = Inr 0"
| "right_strim_loop bs str (Suc n) =
    rbind (rd bs (str + n)) (\<lambda>c. if isspace c then right_strim_loop bs str n else Inr (Suc n))"

definition gen_right_strim :: "cbytes \<Rightarrow> nat \<Rightarrow> (cbytes \<times> nat) res" where
  "gen_right_strim bs str =
    rbind (c_strlen bs str) (\<lambda>size.
      if size = 0 then Inr (bs, str)
      else rbind (right_strim_loop bs str size) (\<lambda>n.
           rbind (wr bs (str + n) 0) (\<lambda>bs. Inr (bs, str))))"

definition gen_strim :: "cbytes \<Rightarrow> nat \<Rightarrow> (cbytes \<times> nat) res" where
  "gen_strim bs str =
    rbind (gen_right_strim bs str) (\<lambda>(bs, str).
    rbind (gen_left_strim bs str) (\<lambda>str. Inr (bs, str)))"

abbreviation slash :: byte where "slash \<equiv> 47"

text \<open>The two loops of \<open>gen_path_last_component\<close>: leading slashes, then the scan with the
  \<open>next_slash\<close> flag.\<close>

function path_skip :: "cbytes \<Rightarrow> nat \<Rightarrow> nat res" where
  "path_skip bs base =
    (if base < length bs
     then if bs ! base = slash then path_skip bs (base + 1) else Inr base
     else Inl OutOfBounds)"
  by pat_completeness auto
termination
  by (relation "measure (\<lambda>(bs, base). length bs - base)") auto

function path_scan :: "cbytes \<Rightarrow> nat \<Rightarrow> nat \<Rightarrow> bool \<Rightarrow> nat res" where
  "path_scan bs base p next_slash =
    (if p < length bs then
       if bs ! p = 0 then Inr base
       else if bs ! p = slash then path_scan bs base (p + 1) True
       else if next_slash then path_scan bs p (p + 1) False
       else path_scan bs base (p + 1) next_slash
     else Inl OutOfBounds)"
  by pat_completeness auto
termination
  by (relation "measure (\<lambda>(bs, base, p, next_slash). length bs - p)") auto

declare path_skip.simps [simp del] path_scan.simps [simp del]

text \<open>\<open>None\<close> as the argument is a null \<open>filepath\<close>; \<open>None\<close> as the result is \<open>NULL\<close>.\<close>

definition gen_path_last_component :: "cbytes option \<Rightarrow> nat option res" where
  "gen_path_last_component filepath =
    (case filepath of None \<Rightarrow> Inr None
     | Some bs \<Rightarrow>
        rbind (c_strlen bs 0) (\<lambda>n.
          if n = 0 then Inr None
          else rbind (path_skip bs 0) (\<lambda>base.
               rbind (path_scan bs base base False) (\<lambda>base. Inr (Some base)))))"

section \<open>Trimming\<close>

definition ltrim :: "cbytes \<Rightarrow> cbytes" where
  "ltrim s = dropWhile isspace s"

definition rtrim :: "cbytes \<Rightarrow> cbytes" where
  "rtrim s = rev (dropWhile isspace (rev s))"

lemma isspace_nul [simp]: "\<not> isspace 0"
  by (simp add: isspace_def)

lemma strlen_at [cstr_simps]:
  "no_nul s \<Longrightarrow> c_strlen (pre @ s @ 0 # r) (length pre) = Inr (length s)"
  by (simp add: c_strlen_def terminated_def cstr_append_nul)

lemma rtrim_snoc: "rtrim (s @ [c]) = (if isspace c then rtrim s else s @ [c])"
  by (simp add: rtrim_def)

lemma rtrim_prefix: "rtrim s = take (length (rtrim s)) s"
proof (induction s rule: rev_induct)
  case (snoc c s)
  have "length (rtrim s) \<le> length s" by (metis rtrim_def length_dropWhile_le length_rev)
  with snoc show ?case by (simp add: rtrim_snoc)
qed (simp add: rtrim_def)

lemma length_rtrim: "length (rtrim s) \<le> length s"
  by (metis rtrim_def length_dropWhile_le length_rev)

lemma right_loop:
  "right_strim_loop (pre @ s @ t) (length pre) (length s) = Inr (length (rtrim s))"
proof (induction s arbitrary: t rule: rev_induct)
  case (snoc c s)
  from snoc.IH [of "c # t"] show ?case
    by (simp add: rd_in nth_append rtrim_snoc)
qed (simp add: rtrim_def)

lemma right_strim:
  assumes "no_nul s"
  shows "gen_right_strim (pre @ s @ 0 # r) (length pre) = Inr
    (pre @ (if s = [] then [] else (s @ [0])[length (rtrim s) := 0]) @ (if s = [] then 0 # r else r),
     length pre)"
proof (cases "s = []")
  case True
  then show ?thesis using strlen_at [of "[]" pre r] by (simp add: gen_right_strim_def no_nul_simps)
next
  case False
  have "length (rtrim s) < length (s @ 0 # r)" using length_rtrim [of s] by simp
  then have "wr (pre @ s @ 0 # r) (length pre + length (rtrim s)) 0 =
      Inr (pre @ (s @ [0])[length (rtrim s) := 0] @ r)"
    using length_rtrim [of s] by (simp add: wr_in list_update_append)
  then show ?thesis
    using False assms by (simp add: gen_right_strim_def strlen_at right_loop)
qed

lemma left_strim:
  assumes "dropWhile isspace s \<noteq> []"
  shows "gen_left_strim (pre @ s) (length pre) = Inr (length pre + length (takeWhile isspace s))"
  using assms
proof (induction s arbitrary: pre)
  case (Cons c s)
  then show ?case
    using Cons.IH [of "pre @ [c]"] by (subst gen_left_strim.simps) auto
qed simp

text \<open>One byte is written, behind the last one that is kept; for the empty string it is NUL already.\<close>

lemma right_strim_string:
  assumes "no_nul s"
  shows "gen_right_strim (pre @ s @ 0 # r) (length pre) =
    Inr ((pre @ s @ 0 # r)[length pre + length (rtrim s) := 0], length pre)"
proof (cases "s = []")
  case True
  then show ?thesis using right_strim [OF assms, of pre r] by (simp add: rtrim_def list_update_append)
next
  case False
  then show ?thesis
    using right_strim [OF assms, of pre r] length_rtrim [of s]
    by (simp add: list_update_append)
qed

lemma rtrim_cut:
  "\<exists>t. (pre @ s @ 0 # r)[length pre + length (rtrim s) := 0] = pre @ rtrim s @ 0 # t"
proof -
  let ?n = "length (rtrim s)"
  have "(s @ 0 # r)[?n := 0] = take ?n (s @ 0 # r) @ 0 # drop (Suc ?n) (s @ 0 # r)"
    using length_rtrim [of s] by (intro upd_conv_take_nth_drop) simp
  also have "take ?n (s @ 0 # r) = rtrim s"
    using length_rtrim [of s] rtrim_prefix [of s] by simp
  finally show ?thesis by (simp add: list_update_append)
qed

lemma no_nul_rtrim: "no_nul s \<Longrightarrow> no_nul (rtrim s)"
  by (auto simp: no_nul_def rtrim_def dest: set_dropWhileD)

lemma takeWhile_isspace_nul: "takeWhile isspace (t @ 0 # r) = takeWhile isspace t"
  by (induction t) auto

lemma strim_string:
  fixes pre s r :: cbytes
  assumes "no_nul s"
  defines "bs' \<equiv> (pre @ s @ 0 # r)[length pre + length (rtrim s) := 0]"
    and "str' \<equiv> length pre + length (takeWhile isspace (rtrim s))"
  shows "gen_strim (pre @ s @ 0 # r) (length pre) = Inr (bs', str') \<and> cstr (drop str' bs') = ltrim (rtrim s)"
proof -
  obtain t where t: "bs' = pre @ rtrim s @ 0 # t" using rtrim_cut unfolding bs'_def by blast
  let ?t = "rtrim s" and ?k = "length (takeWhile isspace (rtrim s))"
  have "dropWhile isspace (?t @ 0 # t) \<noteq> []" by (auto simp: dropWhile_eq_Nil_conv)
  from left_strim [OF this, of pre]
  have l: "gen_left_strim (pre @ ?t @ 0 # t) (length pre) = Inr str'"
    by (simp only: takeWhile_isspace_nul str'_def)
  have "drop ?k (?t @ 0 # t) = ltrim ?t @ 0 # t"
    by (metis append_assoc append_eq_conv_conj ltrim_def takeWhile_dropWhile_id)
  then have "cstr (drop str' bs') = ltrim ?t"
    using no_nul_rtrim [OF assms(1)] unfolding t str'_def
    by (auto simp: ltrim_def no_nul_def dest: set_dropWhileD intro!: cstr_append_nul)
  moreover have "gen_right_strim (pre @ s @ 0 # r) (length pre) = Inr (bs', length pre)"
    unfolding bs'_def by (rule right_strim_string [OF assms(1)])
  ultimately show ?thesis using l t by (simp add: gen_strim_def)
qed

section \<open>Path components\<close>

lemma path_skip_eq:
  "c \<noteq> slash \<Longrightarrow> path_skip (a @ replicate k slash @ c # t) (length a) = Inr (length a + k)"
proof (induction k arbitrary: a)
  case 0
  then show ?case by (subst path_skip.simps) auto
next
  case (Suc k)
  from Suc.IH [OF Suc.prems, of "a @ [slash]"] show ?case
    by (subst path_skip.simps) simp
qed

lemma scan_slashes: "path_scan (a @ replicate k slash @ 0 # r) base (length a) f = Inr base"
proof (induction k arbitrary: a f)
  case 0
  then show ?case by (subst path_scan.simps) simp
next
  case (Suc k)
  from Suc.IH [of "a @ [slash]"] show ?case by (subst path_scan.simps) simp
qed

lemma scan_comp:
  assumes "c \<noteq> []" and "slash \<notin> set c" and "no_nul c"
  shows "path_scan (a @ c @ t) base (length a) f =
    path_scan (a @ c @ t) (if f then length a else base) (length a + length c) False"
  using assms
proof (induction c arbitrary: a base f)
  case (Cons x c)
  then have x: "x \<noteq> slash" "x \<noteq> 0" by (auto simp: no_nul_def)
  have "path_scan (a @ (x # c) @ t) base (length a) f =
      path_scan ((a @ [x]) @ c @ t) (if f then length a else base) (length (a @ [x])) False"
    using x by (subst path_scan.simps) auto
  moreover have "path_scan ((a @ [x]) @ c @ t) b (length (a @ [x])) False =
      path_scan ((a @ [x]) @ c @ t) b (length (a @ [x]) + length c) False" for b
    using Cons.IH [of "a @ [x]" b False] Cons.prems by (cases "c = []") (auto simp: no_nul_def)
  ultimately show ?case by simp
qed simp

lemma scan_until_slash:
  assumes "no_nul (pre @ [slash])"
  shows "\<exists>b. path_scan (a @ pre @ slash # t) base (length a) f =
    path_scan (a @ pre @ slash # t) b (length a + length pre + 1) True"
  using assms
proof (induction pre arbitrary: a base f)
  case Nil
  then show ?case by (subst path_scan.simps) auto
next
  case (Cons x pre)
  then have x: "x \<noteq> 0" and n: "no_nul (pre @ [slash])" by (auto simp: no_nul_def)
  have "path_scan (a @ (x # pre) @ slash # t) base (length a) f =
      path_scan ((a @ [x]) @ pre @ slash # t)
        (if x \<noteq> slash \<and> f then length a else base) (length (a @ [x])) (x = slash \<or> False)"
    using x by (subst path_scan.simps) auto
  with Cons.IH [OF n, of "a @ [x]"] show ?case by fastforce
qed

lemma slashes_prefix:
  obtains k t where "s = replicate k slash @ t" "t = [] \<or> hd t \<noteq> slash"
proof
  show "s = replicate (length (takeWhile (\<lambda>c. c = slash) s)) slash @ dropWhile (\<lambda>c. c = slash) s"
    by (metis (mono_tags, lifting) replicate_length_same set_takeWhileD takeWhile_dropWhile_id)
  show "dropWhile (\<lambda>c. c = slash) s = [] \<or> hd (dropWhile (\<lambda>c. c = slash) s) \<noteq> slash"
    using hd_dropWhile by blast
qed

lemma last_component_at:
  assumes "pre = [] \<or> last pre = slash" and "w \<noteq> []" and "slash \<notin> set w"
    and "no_nul (pre @ w)"
  shows "gen_path_last_component (Some (pre @ w @ replicate k slash @ 0 # r)) =
    Inr (Some (length pre))"
proof -
  let ?bs = "pre @ w @ replicate k slash @ 0 # r"
  obtain c cs where c: "w = c # cs" "c \<noteq> slash" using assms(2,3) by (cases w) auto
  have len: "c_strlen ?bs 0 = Inr (length (pre @ w @ replicate k slash))"
    using strlen_at [of "pre @ w @ replicate k slash" "[]" r] assms(4)
    by (simp add: no_nul_def)
  obtain m u where u: "pre = replicate m slash @ u" "u = [] \<or> hd u \<noteq> slash"
    by (rule slashes_prefix)
  have skip: "path_skip ?bs 0 = Inr m"
    using path_skip_eq [where a = "[]" and k = m and c = "hd (u @ w)"
        and t = "tl (u @ w) @ replicate k slash @ 0 # r"] u c
    by (cases u) auto
  have w: "path_scan ?bs b (length pre) f = Inr (if f then length pre else b)" for b f
    using scan_comp [OF assms(2,3), of pre "replicate k slash @ 0 # r" b f] assms(4)
      scan_slashes [of "pre @ w" k r] by (simp add: no_nul_def)
  have "path_scan ?bs m m False = Inr (length pre)"
  proof (cases "u = []")
    case True
    then show ?thesis using w [of m False] u by simp
  next
    case False
    then have "pre \<noteq> []" "last u = slash" using u assms(1) by auto
    with False obtain v where v: "u = v @ [slash]" by (metis append_butlast_last_id)
    have "no_nul (v @ [slash])" using assms(4) by (simp add: u v no_nul_def)
    from scan_until_slash [OF this, of "replicate m slash" "w @ replicate k slash @ 0 # r" m False]
    obtain b where "path_scan ?bs m m False = path_scan ?bs b (length pre) True"
      by (auto simp: u v)
    then show ?thesis using w by simp
  qed
  with len skip show ?thesis using c by (simp add: gen_path_last_component_def)
qed

lemma all_slashes:
  "0 < k \<Longrightarrow> gen_path_last_component (Some (replicate k slash @ 0 # r)) = Inr (Some k)"
  using path_skip_eq [where a = "[]" and k = k and c = 0 and t = r] scan_slashes [of "replicate k slash" 0 r k False]
    strlen_at [of "replicate k slash" "[]" r]
  by (simp add: gen_path_last_component_def no_nul_def)

section \<open>Properties\<close>

text \<open>C8: \<open>gen_strim\<close> trims a string in place: the returned pointer points to the string
  without the spaces at its two ends, and of the whole array, before the string, in it and behind
  its terminator, exactly one byte is written, the one behind the last that is kept, for the empty
  and the all-space string too.\<close>

theorem gen_strim_trims:
  assumes "no_nul s"
  shows "\<exists>bs' str'. gen_strim (pre @ s @ 0 # r) (length pre) = Inr (bs', str') \<and>
    bs' = (pre @ s @ 0 # r)[length pre + length (rtrim s) := 0] \<and>
    str' = length pre + length (takeWhile isspace (rtrim s)) \<and>
    cstr (drop str' bs') = ltrim (rtrim s)"
  using strim_string [OF assms] by blast

theorem gen_strim_trims_witness:
  "\<exists>bs' str'. gen_strim ([1, 2] @ [32, 9, 65, 32, 66, 10] @ 0 # [5]) (length [1, 2 :: byte]) =
      Inr (bs', str') \<and>
    bs' = ([1, 2] @ [32, 9, 65, 32, 66, 10] @ 0 # [5])[length [1, 2 :: byte] + length (rtrim [32, 9, 65, 32, 66, 10]) := 0] \<and>
    str' = length [1, 2 :: byte] + length (takeWhile isspace (rtrim [32, 9, 65, 32, 66, 10])) \<and>
    cstr (drop str' bs') = ltrim (rtrim [32, 9, 65, 32, 66, 10])"
  by (rule gen_strim_trims) (simp add: no_nul_simps)

text \<open>C9: \<open>gen_path_last_component\<close> returns the start of the last component of a path, with
  or without a directory part and trailing slashes.\<close>

theorem gen_path_last_component_at:
  assumes "pre = [] \<or> last pre = slash" and "w \<noteq> []" and "slash \<notin> set w" and "no_nul (pre @ w)"
  shows "gen_path_last_component (Some (pre @ w @ replicate k slash @ 0 # r)) =
    Inr (Some (length pre))"
  using assms by (rule last_component_at)

theorem gen_path_last_component_at_witness:
  "gen_path_last_component (Some ([47, 97, 47, 47] @ [98, 99] @ replicate 2 slash @ 0 # [1])) =
    Inr (Some (length [47, 97, 47, 47 :: byte]))"
  by (rule gen_path_last_component_at) (simp_all add: no_nul_def)

text \<open>On a path of slashes only \<open>gen_path_last_component\<close> returns a pointer to the
  terminating NUL, an empty component, and not the \<open>NULL\<close> that its comment documents.\<close>

theorem gen_path_last_component_slashes:
  assumes "0 < k"
  shows "gen_path_last_component (Some (replicate k slash @ 0 # r)) = Inr (Some k) \<and>
    cstr (drop k (replicate k slash @ 0 # r)) = []"
  using all_slashes [OF assms] by (simp add: cstr_def)

theorem gen_path_last_component_slashes_witness:
  "gen_path_last_component (Some (replicate 1 slash @ 0 # [])) = Inr (Some 1) \<and>
    cstr (drop 1 (replicate 1 slash @ 0 # [])) = []"
  by (rule gen_path_last_component_slashes) simp

end
