(* ===== verification/Gen_Field.thy ===== *)
theory Gen_Field
  imports Memory Item_Stream Gen_String
begin

text \<open>
  \<open>gen_foreach_field\<close> of \<open>src/src/myfcp/genstring.c\<close> (\<open>fcp_foreach_field\<close>): the fields of a
  line, one per call, kept in allocated memory between the calls.
\<close>

section \<open>Model\<close>

text \<open>A cell holds characters or a \<open>struct gen_field_value\<close>; its \<open>ptr\<close> points into
  \<open>strbuff\<close> and is the offset there.\<close>

datatype field_cell = Chars cbytes | Field_Value ptr nat

definition get_chars :: "ptr \<Rightarrow> field_cell mem \<Rightarrow> cbytes res" where
  "get_chars p m = rbind (mem_get p m)
     (\<lambda>c. case c of Chars bs \<Rightarrow> Inr bs | Field_Value _ _ \<Rightarrow> Inl OutOfBounds)"

definition get_value :: "ptr \<Rightarrow> field_cell mem \<Rightarrow> (ptr \<times> nat) res" where
  "get_value p m = rbind (mem_get p m)
     (\<lambda>c. case c of Chars _ \<Rightarrow> Inl OutOfBounds | Field_Value sb k \<Rightarrow> Inr (sb, k))"

definition gen_isspace :: "byte \<Rightarrow> bool" where
  "gen_isspace c \<longleftrightarrow> c = 32 \<or> c = 9"

text \<open>The two scanning loops: past separators, and to the end of the field.\<close>

function skip_keys :: "byte \<Rightarrow> cbytes \<Rightarrow> nat \<Rightarrow> nat res" where
  "skip_keys keys bs p =
    (if p < length bs
     then if gen_isspace (bs ! p) \<or> bs ! p = keys then skip_keys keys bs (p + 1) else Inr p
     else Inl OutOfBounds)"
  by pat_completeness auto
termination
  by (relation "measure (\<lambda>(keys, bs, p). length bs - p)") auto

function scan_field :: "byte \<Rightarrow> cbytes \<Rightarrow> nat \<Rightarrow> nat res" where
  "scan_field keys bs e =
    (if e < length bs
     then if bs ! e \<noteq> 0 \<and> bs ! e \<noteq> keys then scan_field keys bs (e + 1) else Inr e
     else Inl OutOfBounds)"
  by pat_completeness auto
termination
  by (relation "measure (\<lambda>(keys, bs, e). length bs - e)") auto

declare skip_keys.simps [simp del] scan_field.simps [simp del]

text \<open>\<open>done:\<close> releases the node and its buffer; \<open>entry->data\<close> keeps its dead value.\<close>

definition field_done :: "ptr \<Rightarrow> one_item \<Rightarrow> field_cell mem \<Rightarrow> (int \<times> one_item \<times> field_cell mem) res"
  where
  "field_done node entry m =
    rbind (if node = 0 then Inr m
           else rbind (get_value node m) (\<lambda>(strbuff, _).
                rbind (mem_free strbuff m) (\<lambda>m. mem_free node m))) (\<lambda>m.
    rbind (mem_free (data_of entry) m) (\<lambda>m.
      Inr (-1, entry\<lparr>this_of := 0\<rparr>, m)))"

definition field_scan ::
    "(nat \<Rightarrow> bool) \<Rightarrow> byte \<Rightarrow> ptr \<Rightarrow> one_item \<Rightarrow> field_cell mem \<Rightarrow>
      (int \<times> one_item \<times> field_cell mem) res" where
  "field_scan oom keys node entry m =
    rbind (get_value node m) (\<lambda>(strbuff, p).
    rbind (get_chars strbuff m) (\<lambda>bs.
    rbind (skip_keys keys bs p) (\<lambda>p.
    rbind (mem_put node (Field_Value strbuff p) m) (\<lambda>m.
    rbind (scan_field keys bs p) (\<lambda>e.
      if p \<ge> e then field_done node entry m
      else
        rbind (mem_free (data_of entry) m) (\<lambda>m.
          let (data, m) = mem_alloc oom (Chars (replicate (e - p + 10) 0)) m;
              entry = entry\<lparr>data_of := data\<rparr>
          in if data = 0 then field_done node entry m
             else
               rbind (memcpy (replicate (e - p + 10) 0) 0 bs p (e - p)) (\<lambda>cs.
               rbind (mem_put data (Chars cs) m) (\<lambda>m.
               rbind (mem_put node (Field_Value strbuff e) m) (\<lambda>m.
                 Inr (0, entry, m))))))))))"

text \<open>The copy of the line, without a final newline.\<close>

definition field_copy :: "cbytes \<Rightarrow> cbytes res" where
  "field_copy buff =
    rbind (c_strlen buff 0) (\<lambda>n.
    rbind (memcpy (replicate (n + 10) 0) 0 buff 0 n) (\<lambda>strbuff.
    rbind (rd strbuff (n - 1)) (\<lambda>c.
      if c = 10 then wr strbuff (n - 1) 0 else Inr strbuff)))"

definition gen_foreach_field ::
    "(nat \<Rightarrow> bool) \<Rightarrow> cbytes option \<Rightarrow> byte \<Rightarrow> one_item option \<Rightarrow> field_cell mem \<Rightarrow>
      (int \<times> one_item option \<times> field_cell mem) res" where
  "gen_foreach_field oom buff keys entry m =
    (case buff of None \<Rightarrow> Inr (-1, entry, m) | Some buff \<Rightarrow>
     rbind (c_strlen buff 0) (\<lambda>n.
     if n = 0 then Inr (-1, entry, m) else
     case entry of None \<Rightarrow> Inr (-1, entry, m) | Some entry \<Rightarrow>
     if flag entry \<ge> LOOP_TYPE_MAX then Inr (-1, Some entry, m)
     else
       rbind
         (if flag entry = LOOP_TYPE_START then
            (let (node, m) = mem_alloc oom (Field_Value 0 0) m in
             if node = 0 then Inr (-1, entry, m)
             else
               let (strbuff, m) = mem_alloc oom (Chars (replicate (n + 10) 0)) m in
               if strbuff = 0 then rbind (mem_free node m) (\<lambda>m. Inr (-1, entry, m))
               else
                 rbind (field_copy buff) (\<lambda>cs.
                 rbind (mem_put strbuff (Chars cs) m) (\<lambda>m.
                 rbind (mem_put node (Field_Value strbuff 0) m) (\<lambda>m.
                   field_scan oom keys node (entry\<lparr>this_of := node, flag := LOOP_TYPE_CON\<rparr>) m))))
          else if flag entry = LOOP_TYPE_CON then
            if this_of entry = 0 then field_done 0 entry m
            else field_scan oom keys (this_of entry) entry m
          else field_done (this_of entry) entry m)
         (\<lambda>(ret, entry, m). Inr (ret, Some entry, m))))"

section \<open>The fields of a line\<close>

definition is_sep :: "byte \<Rightarrow> byte \<Rightarrow> bool" where
  "is_sep key c \<longleftrightarrow> gen_isspace c \<or> c = key"

lemma dropWhile_shrinks:
  assumes "dropWhile (is_sep key) s = c # t"
  shows "length (dropWhile (\<lambda>c. c \<noteq> key) (c # t)) < length s"
proof -
  have "\<not> is_sep key c" using hd_dropWhile [of "is_sep key" s] assms by simp
  then have "length (dropWhile (\<lambda>c. c \<noteq> key) (c # t)) \<le> length t"
    by (simp add: is_sep_def length_dropWhile_le)
  moreover have "length (c # t) \<le> length s" using length_dropWhile_le [of "is_sep key" s] assms by simp
  ultimately show ?thesis by simp
qed

function fields_of :: "byte \<Rightarrow> cbytes \<Rightarrow> cbytes list" where
  "fields_of key s =
    (case dropWhile (is_sep key) s of [] \<Rightarrow> []
     | c # t \<Rightarrow> takeWhile (\<lambda>c. c \<noteq> key) (c # t) # fields_of key (dropWhile (\<lambda>c. c \<noteq> key) (c # t)))"
  by pat_completeness auto
termination
  by (relation "measure (\<lambda>(key, s). length s)")
    (simp, simp only: in_measure prod.case dropWhile_shrinks)

declare fields_of.simps [simp del]

lemma skip_at:
  assumes "no_nul s" and "key \<noteq> 0"
  shows "skip_keys key (pre @ s @ 0 # z) (length pre) = Inr (length pre + length (takeWhile (is_sep key) s))"
  using assms
proof (induction s arbitrary: pre)
  case Nil
  then show ?case by (subst skip_keys.simps) (simp add: gen_isspace_def)
next
  case (Cons c s)
  then show ?case
    using Cons.IH [of "pre @ [c]"] by (subst skip_keys.simps) (auto simp: no_nul_simps simp flip: is_sep_def)
qed

lemma scan_at:
  assumes "no_nul s"
  shows "scan_field key (pre @ s @ 0 # z) (length pre) = Inr (length pre + length (takeWhile (\<lambda>c. c \<noteq> key) s))"
  using assms
proof (induction s arbitrary: pre)
  case Nil
  then show ?case by (subst scan_field.simps) simp
next
  case (Cons c s)
  then show ?case
    using Cons.IH [of "pre @ [c]"] by (subst scan_field.simps) (auto simp: no_nul_simps)
qed

definition field_rep ::
    "(ptr \<Rightarrow> field_cell option) \<Rightarrow> ptr \<Rightarrow> cbytes \<Rightarrow> one_item \<Rightarrow> field_cell mem \<Rightarrow> bool" where
  "field_rep base node s e m \<longleftrightarrow> mem_ok m \<and> no_nul s \<and>
    (\<exists>sb pre z. 0 < node \<and> 0 < sb \<and> node \<noteq> sb \<and> data_of e \<noteq> node \<and> data_of e \<noteq> sb \<and>
      cells m node = Some (Field_Value sb (length pre)) \<and> cells m sb = Some (Chars (pre @ s @ 0 # z)) \<and>
      (data_of e \<noteq> 0 \<longrightarrow> cells m (data_of e) \<noteq> None) \<and>
      (cells m)(node := None, sb := None, data_of e := None) = base)"

definition field_released :: "(ptr \<Rightarrow> field_cell option) \<Rightarrow> one_item \<Rightarrow> field_cell mem \<Rightarrow> bool" where
  "field_released base e m \<longleftrightarrow> cells m = base \<and> mem_ok m \<and> this_of e = 0"

lemma field_done_rep:
  assumes "field_rep base node s e m"
  shows "\<exists>e' m'. field_done node e m = Inr (-1, e', m') \<and> field_released base e' m'"
proof -
  from assms obtain sb pre z where r: "mem_ok m" "node \<noteq> sb" "data_of e \<noteq> node" "data_of e \<noteq> sb"
    "cells m node = Some (Field_Value sb (length pre))" "cells m sb = Some (Chars (pre @ s @ 0 # z))"
    "data_of e \<noteq> 0 \<longrightarrow> cells m (data_of e) \<noteq> None"
    "(cells m)(node := None, sb := None, data_of e := None) = base"
    by (auto simp: field_rep_def)
  obtain m1 where m1: "mem_free sb m = Inr m1" "cells m1 = (cells m)(sb := None)" "mem_ok m1"
    using mem_free_some [OF r(1), of sb] r(6) by auto
  obtain m2 where m2: "mem_free node m1 = Inr m2" "cells m2 = (cells m1)(node := None)" "mem_ok m2"
    using mem_free_some [OF m1(3), of node] r(2,5) m1(2) by auto
  obtain m3 where m3: "mem_free (data_of e) m2 = Inr m3" "cells m3 = (cells m2)(data_of e := None)" "mem_ok m3"
    using mem_free_some [OF m2(3), of "data_of e"] r(3,4,7) m1(2) m2(2) by auto
  have "cells m3 = base" using r(2,8) m1(2) m2(2) m3(2) by (simp add: fun_upd_twist)
  then show ?thesis
    using r(1,5) m1(1) m2(1) m3(1,3) mem_ok_null [OF r(1)]
    by (cases "node = 0") (auto simp: field_done_def get_value_def mem_get_some field_released_def)
qed

lemma field_repI:
  assumes "mem_ok m" "no_nul s" "node \<noteq> sb" "data_of e \<noteq> node" "data_of e \<noteq> sb"
    "cells m node = Some (Field_Value sb (length pre))" "cells m sb = Some (Chars (pre @ s @ 0 # z))"
    "data_of e \<noteq> 0 \<longrightarrow> cells m (data_of e) \<noteq> None"
    "(cells m)(node := None, sb := None, data_of e := None) = base"
  shows "field_rep base node s e m"
  using assms mem_ok_live [OF assms(1,6)] mem_ok_live [OF assms(1,7)] unfolding field_rep_def by blast

lemma field_repE:
  assumes "field_rep base node s e m"
  obtains sb pre z where "mem_ok m" "no_nul s" "node \<noteq> sb" "data_of e \<noteq> node" "data_of e \<noteq> sb"
    "cells m node = Some (Field_Value sb (length pre))" "cells m sb = Some (Chars (pre @ s @ 0 # z))"
    "data_of e \<noteq> 0 \<longrightarrow> cells m (data_of e) \<noteq> None"
    "(cells m)(node := None, sb := None, data_of e := None) = base" "0 < node" "0 < sb"
  using assms unfolding field_rep_def by blast

lemma field_move:
  assumes "field_rep base node s e m" and "s = d @ t"
  obtains sb bs p m' where "get_value node m = Inr (sb, p)" "get_chars sb m = Inr bs"
    "\<exists>pre z. bs = pre @ s @ 0 # z \<and> p = length pre"
    "mem_put node (Field_Value sb (p + length d)) m = Inr m'"
    "field_rep base node t e m'" "allocs m' = allocs m" "get_value node m' = Inr (sb, p + length d)"
    "\<And>q. q \<noteq> node \<Longrightarrow> cells m' q = cells m q"
proof -
  obtain sb pre z where r: "mem_ok m" "no_nul s" "node \<noteq> sb" "data_of e \<noteq> node" "data_of e \<noteq> sb"
    "cells m node = Some (Field_Value sb (length pre))" "cells m sb = Some (Chars (pre @ s @ 0 # z))"
    "data_of e \<noteq> 0 \<longrightarrow> cells m (data_of e) \<noteq> None"
    "(cells m)(node := None, sb := None, data_of e := None) = base"
    by (rule field_repE [OF assms(1)])
  obtain m' where m': "mem_put node (Field_Value sb (length pre + length d)) m = Inr m'"
      "cells m' = (cells m)(node \<mapsto> Field_Value sb (length pre + length d))" "allocs m' = allocs m" "mem_ok m'"
    using mem_put_some [OF r(1,6)] by metis
  have "field_rep base node t e m'"
    by (rule field_repI [where sb = sb and pre = "pre @ d" and z = z])
      (use r m' assms(2) in \<open>auto simp: no_nul_simps\<close>)
  then show ?thesis
    by (intro that [of sb "length pre" "pre @ s @ 0 # z" m'])
      (use r(1,6,7) m' in \<open>auto simp: get_value_def get_chars_def mem_get_some\<close>)
qed

lemma get_value_cong: "cells m p = cells m' p \<Longrightarrow> get_value p m = get_value p m'"
  by (simp add: get_value_def mem_get_def)

lemma fields_of_cases:
  obtains "dropWhile (is_sep key) s = []" "fields_of key s = []"
  | t w where "s = takeWhile (is_sep key) s @ t" "t = w @ dropWhile (\<lambda>c. c \<noteq> key) t" "w = takeWhile (\<lambda>c. c \<noteq> key) t" "w \<noteq> []"
      "fields_of key s = w # fields_of key (dropWhile (\<lambda>c. c \<noteq> key) t)" "dropWhile (is_sep key) s = t"
proof (cases "dropWhile (is_sep key) s")
  case Nil
  then have "fields_of key s = []" by (subst fields_of.simps) (simp only: list.case)
  then show ?thesis using that(1) Nil by blast
next
  case (Cons c t)
  have "\<not> is_sep key c" using hd_dropWhile [of "is_sep key" s] Cons by simp
  then have "c \<noteq> key" by (simp add: is_sep_def)
  moreover have "s = takeWhile (is_sep key) s @ c # t" using takeWhile_dropWhile_id [of "is_sep key" s] Cons by simp
  ultimately show ?thesis
    using that(2) [of "c # t" "takeWhile (\<lambda>c. c \<noteq> key) (c # t)"] Cons fields_of.simps [of key s] by simp
qed

lemma field_data:
  assumes "field_rep base node s e m"
  shows "mem_ok m" and "data_of e \<noteq> 0 \<longrightarrow> cells m (data_of e) \<noteq> None" and "no_nul s"
  using assms by (auto simp: field_rep_def)

lemma field_drop_data:
  assumes "field_rep base node s e m" and "mem_ok m'" and "cells m' = (cells m)(data_of e := None)"
  shows "field_rep base node s (e\<lparr>data_of := 0\<rparr>) m'"
proof -
  obtain sb pre z where r: "mem_ok m" "no_nul s" "node \<noteq> sb" "data_of e \<noteq> node" "data_of e \<noteq> sb"
    "cells m node = Some (Field_Value sb (length pre))" "cells m sb = Some (Chars (pre @ s @ 0 # z))"
    "(cells m)(node := None, sb := None, data_of e := None) = base" "0 < node" "0 < sb"
    by (rule field_repE [OF assms(1)])
  have base: "(cells m')(node := None, sb := None, 0 := None) = base"
    unfolding r(8) [symmetric] assms(3) using mem_ok_null [OF r(1)] by (intro ext) simp
  show ?thesis
    by (rule field_repI [where sb = sb and pre = pre and z = z]) (use r base assms(2,3) in simp_all)
qed

lemma field_new_data:
  assumes "field_rep base node s (e\<lparr>data_of := 0\<rparr>) m" and "mem_ok m'" and "cells m p = None" and "0 < p"
    and "cells m' = (cells m)(p \<mapsto> v)"
  shows "field_rep base node s (e\<lparr>data_of := p\<rparr>) m'"
proof -
  obtain sb pre z where r: "mem_ok m" "no_nul s" "node \<noteq> sb"
    "cells m node = Some (Field_Value sb (length pre))" "cells m sb = Some (Chars (pre @ s @ 0 # z))"
    "(cells m)(node := None, sb := None, 0 := None) = base" "0 < node" "0 < sb"
    by (rule field_repE [OF assms(1)]) simp
  have p: "p \<noteq> node" "p \<noteq> sb" using r(4,5) assms(3) by auto
  have base: "(cells m')(node := None, sb := None, p := None) = base"
    unfolding r(6) [symmetric] assms(5) using assms(3) mem_ok_null [OF r(1)] by (intro ext) simp
  show ?thesis
    by (rule field_repI [where sb = sb and pre = pre and z = z]) (use r base p assms(2,4,5) in simp_all)
qed

lemma memcpy_seg: "memcpy (replicate (length w + k) v) 0 (pre @ w @ r) (length pre) (length w) = Inr (w @ replicate k v)"
  by (simp add: memcpy_def)

lemma field_scan_step:
  assumes rep: "field_rep base node s e m" and key: "key \<noteq> 0"
  shows "case fields_of key s of
      [] \<Rightarrow> \<exists>e' m'. field_scan oom key node e m = Inr (-1, e', m') \<and> field_released base e' m'
    | w # ws \<Rightarrow>
        if oom (allocs m)
        then \<exists>e' m'. field_scan oom key node e m = Inr (-1, e', m') \<and> field_released base e' m'
        else \<exists>e' m' t. field_scan oom key node e m = Inr (0, e', m') \<and> field_rep base node t e' m' \<and>
          fields_of key t = ws \<and> cells m' (data_of e') = Some (Chars (w @ replicate 10 0)) \<and>
          data_of e' \<noteq> 0 \<and> this_of e' = this_of e \<and> flag e' = flag e \<and> allocs m' = Suc (allocs m)"
proof (cases rule: fields_of_cases [of key s])
  let ?d = "takeWhile (is_sep key) s"
  case 1
  have sd: "s = ?d @ []" using 1(1) by (metis takeWhile_dropWhile_id)
  obtain sb bs p m1 where m: "get_value node m = Inr (sb, p)" "get_chars sb m = Inr bs"
      "\<exists>pre z. bs = pre @ s @ 0 # z \<and> p = length pre"
      "mem_put node (Field_Value sb (p + length ?d)) m = Inr m1" "field_rep base node [] e m1"
    by (rule field_move [OF rep sd])
  then obtain pre z where b: "bs = pre @ s @ 0 # z" "p = length pre" by blast
  have sk: "skip_keys key bs p = Inr (p + length ?d)"
    unfolding b by (rule skip_at [OF field_data(3) [OF rep] key])
  have sc: "scan_field key bs (p + length ?d) = Inr (p + length ?d)"
    using scan_at [of "[]" key "pre @ s" z] sd by (simp add: b no_nul_simps)
  have "field_scan oom key node e m = field_done node e m1"
    using m(1,2,4) sk sc by (simp add: field_scan_def)
  with field_done_rep [OF m(5)] 1(2) show ?thesis by simp
next
  let ?d = "takeWhile (is_sep key) s"
  case (2 t w)
  let ?t = "dropWhile (\<lambda>c. c \<noteq> key) t"
  obtain sb bs p m1 where m: "get_value node m = Inr (sb, p)" "get_chars sb m = Inr bs"
      "\<exists>pre z. bs = pre @ s @ 0 # z \<and> p = length pre"
      "mem_put node (Field_Value sb (p + length ?d)) m = Inr m1" "field_rep base node t e m1" "allocs m1 = allocs m"
      "get_value node m1 = Inr (sb, p + length ?d)"
    by (rule field_move [OF rep 2(1)])
  then obtain pre z where b: "bs = pre @ s @ 0 # z" "p = length pre" by blast
  have sk: "skip_keys key bs p = Inr (p + length ?d)"
    unfolding b by (rule skip_at [OF field_data(3) [OF rep] key])
  have bs: "bs = (pre @ ?d) @ w @ ?t @ 0 # z" using 2(1,2) b by (metis append.assoc)
  have sc: "scan_field key bs (p + length ?d) = Inr (p + length ?d + length w)"
    using scan_at [OF field_data(3) [OF m(5)], of key "pre @ ?d" z] 2(2,3) b bs
    by (metis (no_types, lifting) append.assoc length_append)
  obtain m2 where m2: "mem_free (data_of e) m1 = Inr m2" "cells m2 = (cells m1)(data_of e := None)"
      "allocs m2 = allocs m1" "mem_ok m2"
    using mem_free_some field_data(1,2) [OF m(5)] by metis
  have r2: "field_rep base node t (e\<lparr>data_of := 0\<rparr>) m2"
    by (rule field_drop_data [OF m(5) m2(4,2)])
  let ?a = "mem_alloc oom (Chars (replicate (length w + 10) 0)) m2"
  have e: "field_scan oom key node e m = (let (data, m) = ?a; entry = e\<lparr>data_of := data\<rparr>
          in if data = 0 then field_done node entry m
             else
               rbind (memcpy (replicate (length w + 10) 0) 0 bs (p + length ?d) (length w)) (\<lambda>cs.
               rbind (mem_put data (Chars cs) m) (\<lambda>m.
               rbind (mem_put node (Field_Value sb (p + length ?d + length w)) m) (\<lambda>m.
                 Inr (0, entry, m)))))"
  proof -
    let ?p = "p + length ?d"
    have n: "\<not> ?p + length w \<le> ?p" using 2(4) by simp
    show ?thesis
      unfolding field_scan_def m(1,2) rbind_simps prod.case sk m(4) sc if_not_P [OF n] m2(1)
        diff_add_inverse by (rule refl)
  qed
  show ?thesis
  proof (cases "oom (allocs m)")
    case True
    then have o: "oom (allocs m2)" using m(6) m2(3) by simp
    obtain m3 where m3: "?a = (0, m3)" "cells m3 = cells m2" "mem_ok m3"
      using mem_alloc_none [of m2 oom "Chars (replicate (length w + 10) 0)", OF m2(4) o] by metis
    have "field_rep base node t (e\<lparr>data_of := 0\<rparr>) m3"
      using field_drop_data [OF r2 m3(3)] m3(2) mem_ok_null [OF m2(4)] by (simp add: fun_upd_idem)
    from field_done_rep [OF this] show ?thesis using True 2(5) by (simp add: e m3(1))
  next
    case False
    then have o: "\<not> oom (allocs m2)" using m(6) m2(3) by simp
    obtain q m3 where m3: "?a = (q, m3)" "0 < q" "cells m2 q = None"
        "cells m3 = (cells m2)(q \<mapsto> Chars (replicate (length w + 10) 0))" "allocs m3 = Suc (allocs m2)" "mem_ok m3"
      using mem_alloc_some [of m2 oom "Chars (replicate (length w + 10) 0)", OF m2(4) o] by metis
    have mc: "memcpy (replicate (length w + 10) 0) 0 bs (p + length ?d) (length w) = Inr (w @ replicate 10 0)"
      using memcpy_seg [of w 10 0 "pre @ ?d" "?t @ 0 # z"] by (simp only: bs b(2) length_append append.assoc)
    obtain m4 where m4: "mem_put q (Chars (w @ replicate 10 0)) m3 = Inr m4"
        "cells m4 = (cells m3)(q \<mapsto> Chars (w @ replicate 10 0))" "allocs m4 = allocs m3" "mem_ok m4"
      using mem_put_some [OF m3(6), of q] m3(4) by (metis fun_upd_same)
    have r4: "field_rep base node t (e\<lparr>data_of := q\<rparr>) m4"
      by (rule field_new_data [OF r2 m4(4) m3(3,2)]) (simp add: m4(2) m3(4))
    have nq: "q \<noteq> node" "data_of e \<noteq> node"
      using r4 m(5) by (auto elim!: field_repE)
    have gv: "get_value node m4 = Inr (sb, p + length ?d)"
      using nq m(7) m2(2) m3(4) m4(2) get_value_cong [of m4 node m1] by simp
    obtain sb' bs' p' m5 where m5: "get_value node m4 = Inr (sb', p')"
        "mem_put node (Field_Value sb' (p' + length w)) m4 = Inr m5"
        "field_rep base node ?t (e\<lparr>data_of := q\<rparr>) m5" "allocs m5 = allocs m4"
        "cells m5 q = cells m4 q"
      by (rule field_move [OF r4 2(2)]) (use nq in blast)
    have "field_scan oom key node e m = Inr (0, e\<lparr>data_of := q\<rparr>, m5)"
      using m3(1,2) mc m4(1) m5(1,2) gv by (simp add: e)
    then show ?thesis
      using False 2(5) m5(3-5) m3(2,5) m4(2,3) m2(3) m(6) by auto
  qed
qed

definition strip_nl :: "cbytes \<Rightarrow> cbytes" where
  "strip_nl s = (if s \<noteq> [] \<and> last s = 10 then butlast s else s)"

lemma no_nul_strip_nl: "no_nul s \<Longrightarrow> no_nul (strip_nl s)"
  by (auto simp: strip_nl_def no_nul_def dest: in_set_butlastD)

lemma field_copy_eq:
  assumes "no_nul s" and "s \<noteq> []"
  shows "\<exists>z. field_copy (s @ 0 # r) = Inr (strip_nl s @ 0 # z)"
proof -
  obtain u c where s: "s = u @ [c]" using assms(2) by (metis append_butlast_last_id)
  have "c_strlen (s @ 0 # r) 0 = Inr (length s)" using strlen_at [OF assms(1), of "[]" r] by simp
  moreover have "memcpy (replicate (length s + 10) 0) 0 (s @ 0 # r) 0 (length s) = Inr (s @ replicate 10 0)"
    using memcpy_seg [of s 10 0 "[]" "0 # r"] by simp
  ultimately have f: "field_copy (s @ 0 # r) = rbind (rd (s @ replicate 10 0) (length s - 1)) (\<lambda>c.
      if c = 10 then wr (s @ replicate 10 0) (length s - 1) 0 else Inr (s @ replicate 10 0))"
    by (simp add: field_copy_def)
  show ?thesis
    unfolding f by (auto simp: s seg_simps strip_nl_def numeral_eq_Suc)
qed

lemma field_start:
  assumes s: "no_nul s" "s \<noteq> []" and m: "mem_ok m" "cells m = base" and e: "flag e = LOOP_TYPE_START" "data_of e = 0"
    and o: "\<not> oom (allocs m)" "\<not> oom (Suc (allocs m))"
  shows "\<exists>node m'. gen_foreach_field oom (Some (s @ 0 # r)) key (Some e) m =
      rbind (field_scan oom key node (e\<lparr>this_of := node, flag := LOOP_TYPE_CON\<rparr>) m')
        (\<lambda>(ret, e, m). Inr (ret, Some e, m)) \<and>
    field_rep base node (strip_nl s) (e\<lparr>this_of := node, flag := LOOP_TYPE_CON\<rparr>) m' \<and>
    allocs m' = Suc (Suc (allocs m))"
proof -
  obtain z where z: "field_copy (s @ 0 # r) = Inr (strip_nl s @ 0 # z)" using field_copy_eq [OF s] by blast
  have l: "c_strlen (s @ 0 # r) 0 = Inr (length s)" using strlen_at [OF s(1), of "[]" r] by simp
  let ?c = "Chars (replicate (length s + 10) 0)"
  obtain n m1 where m1: "mem_alloc oom (Field_Value 0 0) m = (n, m1)" "0 < n" "cells m n = None"
      "cells m1 = (cells m)(n \<mapsto> Field_Value 0 0)" "allocs m1 = Suc (allocs m)" "mem_ok m1"
    using mem_alloc_some [of m oom "Field_Value 0 0", OF m(1) o(1)] by metis
  obtain sb m2 where m2: "mem_alloc oom ?c m1 = (sb, m2)" "0 < sb" "cells m1 sb = None"
      "cells m2 = (cells m1)(sb \<mapsto> ?c)" "allocs m2 = Suc (allocs m1)" "mem_ok m2"
    using mem_alloc_some [of m1 oom ?c, OF m1(6)] o(2) m1(5) by metis
  have ne: "n \<noteq> sb" using m1(4) m2(3) by auto
  obtain m3 where m3: "mem_put sb (Chars (strip_nl s @ 0 # z)) m2 = Inr m3"
      "cells m3 = (cells m2)(sb \<mapsto> Chars (strip_nl s @ 0 # z))" "allocs m3 = allocs m2" "mem_ok m3"
    using mem_put_some [OF m2(6), of sb] m2(4) by (metis fun_upd_same)
  have "cells m3 n = Some (Field_Value 0 0)" using m3(2) m2(4) m1(4) ne by simp
  from mem_put_some [OF m3(4) this, of "Field_Value sb 0"] obtain m4 where
    m4: "mem_put n (Field_Value sb 0) m3 = Inr m4"
      "cells m4 = (cells m3)(n \<mapsto> Field_Value sb 0)" "allocs m4 = allocs m3" "mem_ok m4" by metis
  have base: "(cells m4)(n := None, sb := None, 0 := None) = base"
    unfolding m(2) [symmetric] m1(4) m2(4) m3(2) m4(2)
    using m1(3) m2(3) m1(4) ne mem_ok_null [OF m(1)] by (intro ext) simp
  have "field_rep base n (strip_nl s) (e\<lparr>this_of := n, flag := LOOP_TYPE_CON\<rparr>) m4"
    by (rule field_repI [where sb = sb and pre = "[]" and z = z])
      (use m4 m3 m2 m1 ne base e(2) no_nul_strip_nl [OF s(1)] in simp_all)
  moreover have "gen_foreach_field oom (Some (s @ 0 # r)) key (Some e) m =
      rbind (field_scan oom key n (e\<lparr>this_of := n, flag := LOOP_TYPE_CON\<rparr>) m4)
        (\<lambda>(ret, e, m). Inr (ret, Some e, m))"
    using l s(2) e(1) m1(1,2) m2(1,2) m3(1) m4(1) z by (simp add: gen_foreach_field_def loop_types)
  ultimately show ?thesis using m4(3) m3(3) m2(5) m1(5) by auto
qed

lemma field_start_oom:
  assumes s: "no_nul s" "s \<noteq> []" and m: "mem_ok m" "cells m = base" and e: "flag e = LOOP_TYPE_START" "this_of e = 0"
    and o: "oom (allocs m) \<or> oom (Suc (allocs m))"
  shows "\<exists>m'. gen_foreach_field oom (Some (s @ 0 # r)) key (Some e) m = Inr (-1, Some e, m') \<and>
    field_released base e m'"
proof -
  have l: "c_strlen (s @ 0 # r) 0 = Inr (length s)" using strlen_at [OF s(1), of "[]" r] by simp
  let ?c = "Chars (replicate (length s + 10) 0)"
  show ?thesis
  proof (cases "oom (allocs m)")
    case True
    obtain m1 where "mem_alloc oom (Field_Value 0 0) m = (0, m1)" "cells m1 = cells m" "mem_ok m1"
      using mem_alloc_none [of m oom "Field_Value 0 0", OF m(1) True] by metis
    then show ?thesis using l s(2) e m by (simp add: gen_foreach_field_def loop_types field_released_def)
  next
    case False
    obtain n m1 where m1: "mem_alloc oom (Field_Value 0 0) m = (n, m1)" "0 < n" "cells m n = None"
        "cells m1 = (cells m)(n \<mapsto> Field_Value 0 0)" "allocs m1 = Suc (allocs m)" "mem_ok m1"
      using mem_alloc_some [of m oom "Field_Value 0 0", OF m(1) False] by metis
    obtain m2 where m2: "mem_alloc oom ?c m1 = (0, m2)" "cells m2 = cells m1" "mem_ok m2"
      using mem_alloc_none [of m1 oom ?c, OF m1(6)] o False m1(5) by metis
    obtain m3 where m3: "mem_free n m2 = Inr m3" "cells m3 = (cells m2)(n := None)" "mem_ok m3"
      using mem_free_some [OF m2(3), of n] m2(2) m1(4) by (metis fun_upd_same option.distinct(1))
    have "cells m3 = base" using m3(2) m2(2) m1(3,4) m(2) by (simp add: fun_upd_idem)
    then show ?thesis
      using l s(2) e m1(1,2) m2(1) m3(1,3) by (simp add: gen_foreach_field_def loop_types field_released_def)
  qed
qed

section \<open>The fields as an item stream\<close>

type_synonym field_state = "one_item option \<times> field_cell mem"

definition field_ready ::
    "(nat \<Rightarrow> bool) \<Rightarrow> byte \<Rightarrow> (ptr \<Rightarrow> field_cell option) \<Rightarrow> cbytes \<Rightarrow> field_state \<Rightarrow> cbytes list \<Rightarrow> bool"
  where
  "field_ready oom key base s st xs \<longleftrightarrow> no_nul s \<and> s \<noteq> [] \<and> key \<noteq> 0 \<and>
    (\<exists>m. st = (Some zero_item, m) \<and> mem_ok m \<and> cells m = base \<and>
      xs = (if oom (allocs m) \<or> oom (Suc (allocs m)) then []
            else delivered oom (Suc (Suc (allocs m))) (fields_of key (strip_nl s))))"

definition field_at ::
    "(nat \<Rightarrow> bool) \<Rightarrow> byte \<Rightarrow> (ptr \<Rightarrow> field_cell option) \<Rightarrow> cbytes \<Rightarrow> field_state \<Rightarrow> cbytes \<Rightarrow> cbytes list \<Rightarrow> bool"
  where
  "field_at oom key base s st w xs \<longleftrightarrow> no_nul s \<and> s \<noteq> [] \<and> key \<noteq> 0 \<and>
    (\<exists>e m t. st = (Some e, m) \<and> field_rep base (this_of e) t e m \<and> flag e = LOOP_TYPE_CON \<and>
      data_of e \<noteq> 0 \<and> cells m (data_of e) = Some (Chars (w @ replicate 10 0)) \<and>
      xs = delivered oom (allocs m) (fields_of key t))"

definition field_end :: "(ptr \<Rightarrow> field_cell option) \<Rightarrow> field_state \<Rightarrow> bool" where
  "field_end base st \<longleftrightarrow> (\<exists>e m. st = (Some e, m) \<and> field_released base e m)"

definition field_stop :: "field_state \<Rightarrow> field_state" where
  "field_stop = (\<lambda>(e, m). (map_option (\<lambda>e. e\<lparr>flag := LOOP_TYPE_STOP\<rparr>) e, m))"

text \<open>One call that scans: either it delivers the next field or it releases everything.\<close>

lemma scan_call:
  assumes "field_rep base node t e m" and "key \<noteq> 0" and "no_nul s" "s \<noteq> []"
    and e: "this_of e = node" "flag e = LOOP_TYPE_CON"
  shows "case delivered oom (allocs m) (fields_of key t) of
      [] \<Rightarrow> \<exists>st. rbind (field_scan oom key node e m) (\<lambda>(ret, e, m). Inr (ret, Some e, m)) = Inr (-1, st) \<and>
          field_end base st
    | w # ws \<Rightarrow> \<exists>st. rbind (field_scan oom key node e m) (\<lambda>(ret, e, m). Inr (ret, Some e, m)) = Inr (0, st) \<and>
          field_at oom key base s st w ws"
proof (cases "fields_of key t")
  case Nil
  with field_scan_step [OF assms(1,2), of oom] show ?thesis by (auto simp: field_end_def)
next
  case (Cons w ws)
  show ?thesis
  proof (cases "oom (allocs m)")
    case True
    with Cons field_scan_step [OF assms(1,2), of oom] show ?thesis by (auto simp: field_end_def)
  next
    case False
    with Cons field_scan_step [OF assms(1,2), of oom] obtain e' m' t' where
      r: "field_scan oom key node e m = Inr (0, e', m')" "field_rep base node t' e' m'"
        "fields_of key t' = ws" "cells m' (data_of e') = Some (Chars (w @ replicate 10 0))"
        "data_of e' \<noteq> 0" "this_of e' = this_of e" "flag e' = flag e" "allocs m' = Suc (allocs m)"
      by auto
    have "field_at oom key base s (Some e', m') w (delivered oom (Suc (allocs m)) ws)"
      unfolding field_at_def using r e assms(2-4) by auto
    then show ?thesis using Cons False r(1) by simp
  qed
qed

lemma continue_call:
  assumes "field_rep base (this_of e) t e m" and "no_nul s" "s \<noteq> []" and "flag e = LOOP_TYPE_CON"
  shows "gen_foreach_field oom (Some (s @ 0 # r)) key (Some e) m =
    rbind (field_scan oom key (this_of e) e m) (\<lambda>(ret, e, m). Inr (ret, Some e, m))"
proof -
  have "c_strlen (s @ 0 # r) 0 = Inr (length s)" using strlen_at [OF assms(2), of "[]" r] by simp
  moreover have "this_of e \<noteq> 0" using assms(1) by (auto elim: field_repE)
  ultimately show ?thesis using assms(3,4) by (simp add: gen_foreach_field_def loop_types)
qed

lemma stop_call:
  assumes "field_rep base (this_of e) t e m" and "no_nul s" "s \<noteq> []"
  shows "\<exists>st. gen_foreach_field oom (Some (s @ 0 # r)) key (Some (e\<lparr>flag := LOOP_TYPE_STOP\<rparr>)) m =
    Inr (-1, st) \<and> field_end base st"
proof -
  have "c_strlen (s @ 0 # r) 0 = Inr (length s)" using strlen_at [OF assms(2), of "[]" r] by simp
  moreover have "field_rep base (this_of e) t (e\<lparr>flag := LOOP_TYPE_STOP\<rparr>) m"
    using assms(1) by (simp add: field_rep_def)
  ultimately show ?thesis
    using field_done_rep [of base "this_of e" t "e\<lparr>flag := LOOP_TYPE_STOP\<rparr>" m] assms(3)
    by (auto simp: gen_foreach_field_def loop_types field_end_def)
qed

interpretation field_stream: item_stream
  "\<lambda>(e, m). gen_foreach_field oom (Some (s @ 0 # r)) key e m" field_stop
  "field_ready oom key base s" "field_at oom key base s" "field_end base"
  for oom key base s r
proof unfold_locales
  let ?step = "\<lambda>(e, m). gen_foreach_field oom (Some (s @ 0 # r)) key e m"
  have start: "case xs of [] \<Rightarrow> \<exists>t. ?step st = Inr (-1, t) \<and> field_end base t
      | x # xs \<Rightarrow> \<exists>t. ?step st = Inr (0, t) \<and> field_at oom key base s t x xs"
    if "field_ready oom key base s st xs" for st xs
  proof -
    from that obtain m where f: "no_nul s" "s \<noteq> []" "key \<noteq> 0" "st = (Some zero_item, m)" "mem_ok m" "cells m = base"
        "xs = (if oom (allocs m) \<or> oom (Suc (allocs m)) then []
            else delivered oom (Suc (Suc (allocs m))) (fields_of key (strip_nl s)))"
      unfolding field_ready_def by blast
    have z: "flag zero_item = LOOP_TYPE_START" "data_of zero_item = 0" "this_of zero_item = 0"
      by (simp_all add: zero_item_def loop_types)
    show ?thesis
    proof (cases "oom (allocs m) \<or> oom (Suc (allocs m))")
      case True
      with field_start_oom [OF f(1,2,5,6) z(1,3) True, of r key] f show ?thesis
        by (auto simp: field_end_def)
    next
      case False
      then have o: "\<not> oom (allocs m)" "\<not> oom (Suc (allocs m))" by auto
      obtain node m' where n: "gen_foreach_field oom (Some (s @ 0 # r)) key (Some zero_item) m =
          rbind (field_scan oom key node (zero_item\<lparr>this_of := node, flag := LOOP_TYPE_CON\<rparr>) m')
            (\<lambda>(ret, e, m). Inr (ret, Some e, m))"
        "field_rep base node (strip_nl s) (zero_item\<lparr>this_of := node, flag := LOOP_TYPE_CON\<rparr>) m'"
        "allocs m' = Suc (Suc (allocs m))"
        using field_start [OF f(1,2,5,6) z(1,2) o] by blast
      from scan_call [OF n(2) f(3,1,2), of oom] n(1,3) f(4,7) False show ?thesis
        by (simp split: list.splits)
    qed
  qed
  show "\<exists>t. ?step st = Inr (0, t) \<and> field_at oom key base s t x xs"
    if "field_ready oom key base s st (x # xs)" for st x xs
    using start [OF that] by simp
  show "\<exists>t ret. ?step st = Inr (ret, t) \<and> ret \<noteq> 0 \<and> field_end base t"
    if "field_ready oom key base s st []" for st
    using start [OF that] by force
  have next_call: "case xs of [] \<Rightarrow> \<exists>t. ?step st = Inr (-1, t) \<and> field_end base t
      | x # xs \<Rightarrow> \<exists>t. ?step st = Inr (0, t) \<and> field_at oom key base s t x xs"
    if at: "field_at oom key base s st y xs" for st y xs
  proof -
    from at obtain e m t where f: "no_nul s" "s \<noteq> []" "key \<noteq> 0" "st = (Some e, m)"
        "field_rep base (this_of e) t e m" "flag e = LOOP_TYPE_CON" "xs = delivered oom (allocs m) (fields_of key t)"
      unfolding field_at_def by blast
    from scan_call [OF f(5,3,1,2) refl f(6), of oom] continue_call [OF f(5,1,2,6)] f(4,7)
    show ?thesis by (simp split: list.splits)
  qed
  show "\<exists>t. ?step st = Inr (0, t) \<and> field_at oom key base s t x xs"
    if "field_at oom key base s st y (x # xs)" for st y x xs
    using next_call [OF that] by simp
  show "\<exists>t ret. ?step st = Inr (ret, t) \<and> ret \<noteq> 0 \<and> field_end base t"
    if "field_at oom key base s st y []" for st y
    using next_call [OF that] by force
  show "\<exists>t ret. ?step (field_stop st) = Inr (ret, t) \<and> ret \<noteq> 0 \<and> field_end base t"
    if at: "field_at oom key base s st y xs" for st y xs
  proof -
    from at obtain e m t where f: "no_nul s" "s \<noteq> []" "st = (Some e, m)" "field_rep base (this_of e) t e m"
      unfolding field_at_def by blast
    from stop_call [OF f(4,1,2), of oom r key] f(3) show ?thesis by (auto simp: field_stop_def)
  qed
qed

text \<open>A caller that keeps a copy of every field it gets.\<close>

definition keep_field :: "field_state \<Rightarrow> cbytes list \<Rightarrow> (bool \<times> cbytes list) res" where
  "keep_field = (\<lambda>(e, m) acc. case e of None \<Rightarrow> Inl NullDeref
     | Some e \<Rightarrow> rbind (get_chars (data_of e) m) (\<lambda>bs. Inr (False, acc @ [bs])))"

lemma keep_field_at:
  "field_at oom key base s st w xs \<Longrightarrow> keep_field st acc = Inr (False, acc @ [w @ replicate 10 0])"
  by (auto simp: field_at_def keep_field_def get_chars_def mem_get_some dest: field_data(1))

lemma field_loop:
  assumes "no_nul s" and "s \<noteq> []" and "key \<noteq> 0" and "mem_ok m"
    and "length (fields_of key (strip_nl s)) < fuel"
    and body: "\<And>st w xs a. field_at oom key (cells m) s st w xs \<Longrightarrow> body st a = Inr (g w a)"
  shows "\<exists>e m' n. foreach_loop fuel (\<lambda>(e, m). gen_foreach_field oom (Some (s @ 0 # r)) key e m)
      field_stop body (Some zero_item, m) a =
        Inr (Some ((e, m'), visit g (take n (fields_of key (strip_nl s))) a)) \<and>
    cells m' = cells m \<and> mem_ok m' \<and> ((\<forall>k. \<not> oom k) \<longrightarrow> n = length (fields_of key (strip_nl s)))"
proof -
  let ?ws = "fields_of key (strip_nl s)"
  obtain k where k: "delivered oom (Suc (Suc (allocs m))) ?ws = take k ?ws" "(\<forall>k. \<not> oom k) \<longrightarrow> k = length ?ws"
    using delivered_take by blast
  define n where "n = (if oom (allocs m) \<or> oom (Suc (allocs m)) then 0 else k)"
  have rdy: "field_ready oom key (cells m) s (Some zero_item, m) (take n ?ws)"
    using assms k by (auto simp: field_ready_def n_def)
  have len: "length (take n ?ws) < fuel" using assms(5) by simp
  have "\<exists>t. foreach_loop fuel (\<lambda>(e, m). gen_foreach_field oom (Some (s @ 0 # r)) key e m)
      field_stop body (Some zero_item, m) a = Inr (Some (t, visit g (take n ?ws) a)) \<and> field_end (cells m) t"
    by (rule field_stream.loop_visits [OF rdy len]) (rule body)
  then obtain e m' where "foreach_loop fuel (\<lambda>(e, m). gen_foreach_field oom (Some (s @ 0 # r)) key e m)
      field_stop body (Some zero_item, m) a = Inr (Some ((e, m'), visit g (take n ?ws) a))"
    "field_end (cells m) (e, m')"
    by fast
  then show ?thesis
    using k(2) by (intro exI [of _ e] exI [of _ m'] exI [of _ n])
      (auto simp: field_end_def field_released_def n_def)
qed

lemma fields_loop:
  assumes "no_nul s" and "s \<noteq> []" and "key \<noteq> 0" and "mem_ok m"
    and "length (fields_of key (strip_nl s)) < fuel"
  shows "\<exists>e m' n. foreach_loop fuel (\<lambda>(e, m). gen_foreach_field oom (Some (s @ 0 # r)) key e m)
      field_stop keep_field (Some zero_item, m) [] =
        Inr (Some ((e, m'), map (\<lambda>w. w @ replicate 10 0) (take n (fields_of key (strip_nl s))))) \<and>
    cells m' = cells m \<and> ((\<forall>k. \<not> oom k) \<longrightarrow> n = length (fields_of key (strip_nl s)))"
proof -
  have "\<exists>e m' n. foreach_loop fuel (\<lambda>(e, m). gen_foreach_field oom (Some (s @ 0 # r)) key e m)
      field_stop keep_field (Some zero_item, m) [] =
        Inr (Some ((e, m'), visit (\<lambda>x a. (False, a @ [x @ replicate 10 0])) (take n (fields_of key (strip_nl s))) [])) \<and>
    cells m' = cells m \<and> mem_ok m' \<and> ((\<forall>k. \<not> oom k) \<longrightarrow> n = length (fields_of key (strip_nl s)))"
    by (rule field_loop [OF assms]) (rule keep_field_at)
  then show ?thesis by (simp add: visit_all) blast
qed

lemma field_done_entry: "field_done node e m = Inr (ret, e', m') \<Longrightarrow> e' = e\<lparr>this_of := 0\<rparr>"
  by (auto simp: field_done_def rbind_eq_Inr)

lemma field_rep_data_None: "field_rep base node t e m \<Longrightarrow> base (data_of e) = None"
  by (elim field_repE) (metis fun_upd_same)

lemma call_after_stop:
  assumes "field_at oom key base s (Some e, m) w xs"
  shows "\<exists>e' m'. gen_foreach_field oom (Some (s @ 0 # r)) key (Some (e\<lparr>flag := LOOP_TYPE_STOP\<rparr>)) m =
      Inr (-1, Some e', m') \<and>
    gen_foreach_field oom (Some (s @ 0 # r)) key (Some e') m' = Inl BadFree"
proof -
  let ?e = "e\<lparr>flag := LOOP_TYPE_STOP\<rparr>"
  from assms obtain t where f: "no_nul s" "s \<noteq> []" "field_rep base (this_of e) t e m" "data_of e \<noteq> 0"
    by (auto simp: field_at_def)
  have l: "c_strlen (s @ 0 # r) 0 = Inr (length s)" using strlen_at [OF f(1), of "[]" r] by simp
  have "field_rep base (this_of e) t ?e m" using f(3) by (simp add: field_rep_def)
  from field_done_rep [OF this] obtain e' m' where
    d: "field_done (this_of e) ?e m = Inr (-1, e', m')" "cells m' = base" by (auto simp: field_released_def)
  have e': "e' = ?e\<lparr>this_of := 0\<rparr>" by (rule field_done_entry [OF d(1)])
  have "cells m' (data_of e) = None" using field_rep_data_None [OF f(3)] d(2) by simp
  then have "field_done 0 e' m' = Inl BadFree"
    using f(4) by (simp add: field_done_def e' mem_simps)
  then show ?thesis using l f(2) d(1) by (simp add: gen_foreach_field_def loop_types e')
qed

section \<open>Properties\<close>

text \<open>C13: the loop of \<open>foreach_line_field\<close> over a line yields the fields of the line in order,
  each in an allocated copy with its terminating NULs, never faults, and ends with the memory it
  began with: nothing is leaked or released twice.  With every allocation succeeding it yields
  all of the fields; whichever allocations fail, it yields a prefix of them.\<close>

theorem gen_foreach_field_loop:
  assumes "no_nul s" and "s \<noteq> []" and "key \<noteq> 0" and "mem_ok m"
    and "length (fields_of key (strip_nl s)) < fuel"
  shows "\<exists>e m' n. foreach_loop fuel (\<lambda>(e, m). gen_foreach_field oom (Some (s @ 0 # r)) key e m)
      field_stop keep_field (Some zero_item, m) [] =
        Inr (Some ((e, m'), map (\<lambda>w. w @ replicate 10 0) (take n (fields_of key (strip_nl s))))) \<and>
    cells m' = cells m \<and> ((\<forall>k. \<not> oom k) \<longrightarrow> n = length (fields_of key (strip_nl s)))"
  using assms by (rule fields_loop)

lemma empty_mem_ok: "mem_ok \<lparr>cells = \<lambda>_. None, allocs = 0\<rparr>"
  by (simp add: mem_ok_def)

theorem gen_foreach_field_loop_witness:
  "\<exists>e m' n. foreach_loop 9 (\<lambda>(e, m). gen_foreach_field (\<lambda>_. False) (Some ([97, 44, 32, 98, 10] @ 0 # [])) 44 e m)
      field_stop keep_field (Some zero_item, \<lparr>cells = \<lambda>_. None, allocs = 0\<rparr>) [] =
        Inr (Some ((e, m'), map (\<lambda>w. w @ replicate 10 0)
          (take n (fields_of 44 (strip_nl [97, 44, 32, 98, 10]))))) \<and>
    cells m' = cells \<lparr>cells = \<lambda>_. None, allocs = 0\<rparr> \<and>
    ((\<forall>k :: nat. \<not> False) \<longrightarrow> n = length (fields_of 44 (strip_nl [97, 44, 32, 98, 10])))"
  by (rule gen_foreach_field_loop)
    (simp_all add: no_nul_def empty_mem_ok strip_nl_def fields_of.simps is_sep_def gen_isspace_def)

text \<open>An iteration that has ended must not be continued: the last call leaves the dead
  \<open>data\<close> pointer in the entry, so that a further call, also after a requested stop, releases it
  a second time.\<close>

theorem gen_foreach_field_after_end:
  assumes "field_at oom key base s (Some e, m) w xs"
  shows "\<exists>e' m'. gen_foreach_field oom (Some (s @ 0 # r)) key (Some (e\<lparr>flag := LOOP_TYPE_STOP\<rparr>)) m =
      Inr (-1, Some e', m') \<and>
    gen_foreach_field oom (Some (s @ 0 # r)) key (Some e') m' = Inl BadFree"
  using assms by (rule call_after_stop)

theorem gen_foreach_field_after_end_witness:
  "\<exists>e' m'. gen_foreach_field (\<lambda>_. False) (Some ([97] @ 0 # [])) 44
        (Some (\<lparr>this_of = 1, data_of = 3, flag = 1\<rparr>\<lparr>flag := LOOP_TYPE_STOP\<rparr>))
        \<lparr>cells = [1 \<mapsto> Field_Value 2 1, 2 \<mapsto> Chars [97, 0], 3 \<mapsto> Chars ([97] @ replicate 10 0)], allocs = 3\<rparr> =
      Inr (-1, Some e', m') \<and>
    gen_foreach_field (\<lambda>_. False) (Some ([97] @ 0 # [])) 44 (Some e') m' = Inl BadFree"
proof (rule gen_foreach_field_after_end)
  let ?e = "\<lparr>this_of = 1, data_of = 3, flag = 1\<rparr>"
  let ?m = "\<lparr>cells = [1 \<mapsto> Field_Value 2 1, 2 \<mapsto> Chars [97, 0], 3 \<mapsto> Chars ([97] @ replicate 10 0)], allocs = 3\<rparr>"
  have "field_rep (\<lambda>_. None) 1 [] ?e ?m"
    by (rule field_repI [where sb = 2 and pre = "[97]" and z = "[]"])
      (simp_all add: mem_ok_def no_nul_def fun_upd_twist)
  then show "field_at (\<lambda>_. False) 44 (\<lambda>_. None) [97] (Some ?e, ?m) [97] []"
    by (simp add: field_at_def no_nul_def loop_types exI [of _ "[]"] fields_of.simps)
qed

end
