(* ===== verification/Fcp_String.thy ===== *)
theory Fcp_String
  imports Gen_Md5 Base64 Gen_Field
begin

text \<open>
  \<open>src/src/myfcp/fcp_string.c\<close>: the string functions under the names the library exports.
\<close>

definition fcp_left_strim :: "cbytes \<Rightarrow> nat \<Rightarrow> nat res" where
  "fcp_left_strim bs str = gen_left_strim bs str"

definition fcp_right_strim :: "cbytes \<Rightarrow> nat \<Rightarrow> (cbytes \<times> nat) res" where
  "fcp_right_strim bs str = gen_right_strim bs str"

definition fcp_strim :: "cbytes \<Rightarrow> nat \<Rightarrow> (cbytes \<times> nat) res" where
  "fcp_strim bs str = gen_strim bs str"

definition fcp_foreach_field ::
    "(nat \<Rightarrow> bool) \<Rightarrow> cbytes option \<Rightarrow> byte \<Rightarrow> one_item option \<Rightarrow> field_cell mem \<Rightarrow>
      (int \<times> one_item option \<times> field_cell mem) res" where
  "fcp_foreach_field oom buff keys entry m = gen_foreach_field oom buff keys entry m"

definition fcp_base64_decode :: "(nat \<Rightarrow> bool) \<Rightarrow> cbytes \<Rightarrow> cbytes option res" where
  "fcp_base64_decode alloc str = gen_base64_decode alloc str"

definition fcp_base64_encode :: "(nat \<Rightarrow> bool) \<Rightarrow> cbytes \<Rightarrow> cbytes option res" where
  "fcp_base64_encode alloc str = gen_base64_encode alloc str"

definition fcp_file_md5 ::
    "md5_ctx \<Rightarrow> cbytes \<Rightarrow> int \<Rightarrow> int set \<Rightarrow> read_result list \<Rightarrow> cbytes \<Rightarrow> (int \<times> cbytes \<times> int set) res" where
  "fcp_file_md5 junk data fd fds reads md5_str = gen_file_md5 junk data fd fds reads md5_str"

definition fcp_string_md5 :: "md5_ctx \<Rightarrow> cbytes \<Rightarrow> u32 \<Rightarrow> cbytes \<Rightarrow> (int \<times> cbytes) res" where
  "fcp_string_md5 junk str str_len md5_str = gen_string_md5 junk str str_len md5_str"

definition strutils_path_last_component :: "cbytes option \<Rightarrow> nat option res" where
  "strutils_path_last_component filepath = gen_path_last_component filepath"

end
