(* ===== verification/Libc.thy ===== *)
theory Libc
  imports Gen_String
begin

text \<open>
  The functions of the C library the sources call on strings: searching, number parsing and
  printing, bounded printing and reading lines.  The argument of a search or a parse is the
  content of the C string (the bytes before its NUL); a found position is an offset.
\<close>

section \<open>Searching\<close>

definition c_strchr :: "cbytes \<Rightarrow> byte \<Rightarrow> nat option" where
  "c_strchr s c = (if c \<in> set s then Some (length (takeWhile (\<lambda>b. b \<noteq> c) s)) else None)"

definition c_strrchr :: "cbytes \<Rightarrow> byte \<Rightarrow> nat option" where
  "c_strrchr s c =
    (if c \<in> set s then Some (length s - Suc (length (takeWhile (\<lambda>b. b \<noteq> c) (rev s)))) else None)"

fun is_prefix :: "cbytes \<Rightarrow> cbytes \<Rightarrow> bool" where
  "is_prefix [] s \<longleftrightarrow> True"
| "is_prefix (p # ps) (c # s) \<longleftrightarrow> p = c \<and> is_prefix ps s"
| "is_prefix (p # ps) [] \<longleftrightarrow> False"

fun c_strstr :: "cbytes \<Rightarrow> cbytes \<Rightarrow> bool" where
  "c_strstr [] p \<longleftrightarrow> is_prefix p []"
| "c_strstr (c # s) p \<longleftrightarrow> is_prefix p (c # s) \<or> c_strstr s p"

text \<open>\<open>strncmp(a,b,n) == 0\<close>.\<close>

definition c_strneq :: "cbytes \<Rightarrow> cbytes \<Rightarrow> nat \<Rightarrow> bool" where
  "c_strneq a b n \<longleftrightarrow> take n a = take n b"

section \<open>Numbers\<close>

text \<open>\<open>strtol\<close> and \<open>strtoul\<close> of glibc in base 10 or 16: spaces, a sign, \<open>0x\<close> before hex digits,
  then the longest run of digits, clamped to the range of the result.\<close>

definition digit_val :: "byte \<Rightarrow> nat" where
  "digit_val c =
    (if 48 \<le> c \<and> c \<le> 57 then unat c - 48
     else if 97 \<le> c \<and> c \<le> 122 then unat c - 87
     else if 65 \<le> c \<and> c \<le> 90 then unat c - 55
     else 99)"

definition digits_val :: "nat \<Rightarrow> cbytes \<Rightarrow> nat" where
  "digits_val base s = foldl (\<lambda>v c. v * base + digit_val c) 0 (takeWhile (\<lambda>c. digit_val c < base) s)"

fun strip_0x :: "nat \<Rightarrow> cbytes \<Rightarrow> cbytes" where
  "strip_0x base (a # x # c # s) =
    (if base = 16 \<and> a = 48 \<and> (x = 120 \<or> x = 88) \<and> digit_val c < 16 then c # s else a # x # c # s)"
| "strip_0x base s = s"

fun sign_split :: "cbytes \<Rightarrow> bool \<times> cbytes" where
  "sign_split (c # s) = (if c = 45 then (True, s) else if c = 43 then (False, s) else (False, c # s))"
| "sign_split [] = (False, [])"

definition num_parts :: "nat \<Rightarrow> cbytes \<Rightarrow> bool \<times> nat" where
  "num_parts base s =
    (case sign_split (dropWhile isspace s) of (neg, s) \<Rightarrow> (neg, digits_val base (strip_0x base s)))"

definition c_strtol :: "nat \<Rightarrow> cbytes \<Rightarrow> int" where
  "c_strtol base s =
    (case num_parts base s of (neg, v) \<Rightarrow>
       if neg then max (- (2 ^ 63)) (- int v) else min (2 ^ 63 - 1) (int v))"

definition c_strtoul :: "nat \<Rightarrow> cbytes \<Rightarrow> u64" where
  "c_strtoul base s =
    (case num_parts base s of (neg, v) \<Rightarrow>
       if v \<ge> 2 ^ 64 then -1 else if neg then - word_of_nat v else word_of_nat v)"

text \<open>\<open>atoi\<close> is \<open>strtol\<close> cut to an \<open>int\<close>.\<close>

definition to_int32 :: "int \<Rightarrow> int" where
  "to_int32 v = signed_take_bit 31 v"

definition c_atoi :: "cbytes \<Rightarrow> int" where
  "c_atoi s = to_int32 (c_strtol 10 s)"

text \<open>\<open>%d\<close> of a number.\<close>

fun dec_of_nat :: "nat \<Rightarrow> cbytes" where
  "dec_of_nat n = (if n < 10 then [48 + word_of_nat n] else dec_of_nat (n div 10) @ [48 + word_of_nat (n mod 10)])"

declare dec_of_nat.simps [simp del]

definition dec_of_int :: "int \<Rightarrow> cbytes" where
  "dec_of_int i = (if i < 0 then 45 # dec_of_nat (nat (- i)) else dec_of_nat (nat i))"

section \<open>Buffers and lines\<close>

text \<open>\<open>snprintf(buf + off, size, ...)\<close> of a text, and the unbounded \<open>sprintf\<close>.\<close>

definition c_snprintf :: "cbytes \<Rightarrow> nat \<Rightarrow> nat \<Rightarrow> cbytes \<Rightarrow> cbytes res" where
  "c_snprintf buf off n txt =
    (if n = 0 then Inr buf
     else let t = take (n - 1) txt in memcpy buf off (t @ [0]) 0 (Suc (length t)))"

definition c_sprintf :: "cbytes \<Rightarrow> nat \<Rightarrow> cbytes \<Rightarrow> cbytes res" where
  "c_sprintf buf off txt = memcpy buf off (txt @ [0]) 0 (Suc (length txt))"

text \<open>\<open>fgets(buf, n, fp)\<close> on the unread bytes of the stream: what is stored before the NUL, and
  what remains; no result at end of file.\<close>

definition c_fgets :: "nat \<Rightarrow> cbytes \<Rightarrow> (cbytes \<times> cbytes) option" where
  "c_fgets n s =
    (if s = [] then None
     else let l = takeWhile (\<lambda>c. c \<noteq> 10) s;
              k = (if length l < length s then Suc (length l) else length l);
              k = min k (n - 1)
          in Some (take k s, drop k s))"

text \<open>A \<open>%s\<close> argument, or a string function's: it reads up to the NUL, and beyond the array without one.\<close>

definition text_of :: "cbytes \<Rightarrow> cbytes res" where
  "text_of bs = (if terminated bs then Inr (cstr bs) else Inl OutOfBounds)"

definition str_at :: "cbytes \<Rightarrow> nat \<Rightarrow> cbytes res" where
  "str_at bs p = text_of (drop p bs)"

text \<open>A line that is printed, with its newline.\<close>

definition put_line :: "cbytes \<Rightarrow> cbytes" where
  "put_line s = s @ [10]"

text \<open>\<open>%d\<close> and \<open>%u\<close> of a 32-bit value, \<open>%x\<close>, \<open>%p\<close> of a pointer (glibc writes \<open>(nil)\<close> for the null pointer).\<close>

definition fmt_d :: "u32 \<Rightarrow> cbytes" where
  "fmt_d v = dec_of_int (sint v)"

definition fmt_u :: "u32 \<Rightarrow> cbytes" where
  "fmt_u v = dec_of_nat (unat v)"

fun hex_text :: "nat \<Rightarrow> cbytes" where
  "hex_text n = (if n < 16 then [] else hex_text (n div 16)) @ [let d = n mod 16 in if d < 10 then 48 + word_of_nat d else 87 + word_of_nat d]"

declare hex_text.simps [simp del]

definition fmt_p :: "u64 \<Rightarrow> cbytes" where
  "fmt_p v = (if v = 0 then cbytes_of ''(nil)'' else cbytes_of ''0x'' @ hex_text (unat v))"

section \<open>Laws\<close>

lemma text_of_at: "no_nul s \<Longrightarrow> text_of (s @ 0 # r) = Inr s"
  by (simp add: text_of_def terminated_def cstr_append_nul)

lemma text_of_cstr: "text_of b = Inr s \<Longrightarrow> cstr b = s"
  by (simp add: text_of_def split: if_splits)

lemma is_prefix_iff: "is_prefix p s \<longleftrightarrow> (\<exists>t. s = p @ t)"
  by (induction p s rule: is_prefix.induct) auto

lemma c_strstr_iff: "c_strstr s p \<longleftrightarrow> (\<exists>a b. s = a @ p @ b)"
proof (induction s)
  case Nil
  then show ?case by (auto simp: is_prefix_iff)
next
  case (Cons c s)
  show ?case
  proof
    assume "c_strstr (c # s) p"
    then show "\<exists>a b. c # s = a @ p @ b"
    proof (cases "is_prefix p (c # s)")
      case True
      then obtain t where "c # s = p @ t" by (auto simp: is_prefix_iff)
      then have "c # s = [] @ p @ t" by simp
      then show ?thesis by blast
    next
      case False
      with \<open>c_strstr (c # s) p\<close> Cons obtain a b where "s = a @ p @ b" by auto
      then have "c # s = (c # a) @ p @ b" by simp
      then show ?thesis by blast
    qed
  next
    assume "\<exists>a b. c # s = a @ p @ b"
    then obtain a b where "c # s = a @ p @ b" by blast
    then show "c_strstr (c # s) p"
    proof (cases a)
      case Nil
      then have "is_prefix p (c # s)" using \<open>c # s = a @ p @ b\<close> by (auto simp: is_prefix_iff)
      then show ?thesis by simp
    next
      case (Cons d e)
      then show ?thesis using \<open>c # s = a @ p @ b\<close> \<open>c_strstr s p = _\<close> by auto
    qed
  qed
qed

lemma c_strchr_at: "c \<notin> set a \<Longrightarrow> c_strchr (a @ c # b) c = Some (length a)"
  by (induction a) (auto simp: c_strchr_def)

lemma c_strrchr_at: "c \<notin> set b \<Longrightarrow> c_strrchr (a @ c # b) c = Some (length a)"
proof -
  assume "c \<notin> set b"
  then have "takeWhile (\<lambda>x. x \<noteq> c) (rev b @ c # rev a) = rev b"
    by (subst takeWhile_append2) auto
  then show ?thesis by (simp add: c_strrchr_def)
qed

lemma dec_digit_all: "list_all (\<lambda>n. digit_val (48 + word_of_nat n) = n) [0..<10]"
  by code_simp

lemma dec_digit: "n < 10 \<Longrightarrow> digit_val (48 + word_of_nat n) = n"
  using dec_digit_all unfolding list_all_iff by simp

lemma dec_digits: "(\<forall>c \<in> set (dec_of_nat n). digit_val c < 10)"
proof (induction n rule: dec_of_nat.induct)
  case (1 n)
  show ?case
  proof (cases "n < 10")
    case True
    then show ?thesis by (simp add: dec_of_nat.simps [of n] dec_digit)
  next
    case False
    with 1 [OF False] show ?thesis by (simp add: dec_of_nat.simps [of n] dec_digit)
  qed
qed

lemma foldl_dec: "foldl (\<lambda>v c. v * 10 + digit_val c) 0 (dec_of_nat n) = n"
proof (induction n rule: dec_of_nat.induct)
  case (1 n)
  show ?case
  proof (cases "n < 10")
    case True
    then show ?thesis by (simp add: dec_of_nat.simps [of n] dec_digit)
  next
    case False
    with 1 [OF False] show ?thesis by (simp add: dec_of_nat.simps [of n] dec_digit)
  qed
qed

lemma digits_val_dec: "\<not> digit_val c < 10 \<Longrightarrow> digits_val 10 (dec_of_nat n @ c # t) = n"
  "digits_val 10 (dec_of_nat n) = n"
proof -
  have t1: "takeWhile (\<lambda>c. digit_val c < 10) (dec_of_nat n @ c # t) = dec_of_nat n" if "\<not> digit_val c < 10"
    using dec_digits [of n] that by (subst takeWhile_append2) auto
  have t2: "takeWhile (\<lambda>c. digit_val c < 10) (dec_of_nat n) = dec_of_nat n"
    using dec_digits [of n] by (simp add: takeWhile_eq_all_conv)
  show "\<not> digit_val c < 10 \<Longrightarrow> digits_val 10 (dec_of_nat n @ c # t) = n"
    by (simp only: digits_val_def t1 foldl_dec not_False_eq_True)
  show "digits_val 10 (dec_of_nat n) = n"
    by (simp only: digits_val_def t2 foldl_dec)
qed

lemma dec_of_nat_Cons: "\<exists>c t. dec_of_nat n = c # t"
  by (cases "dec_of_nat n") (auto simp: dec_of_nat.simps [of n] split: if_splits)

lemma digit_not_space: "digit_val c < 10 \<Longrightarrow> \<not> isspace c \<and> c \<noteq> 45 \<and> c \<noteq> 43"
proof -
  assume d: "digit_val c < 10"
  have "digit_val 45 = 99" "digit_val 43 = 99" "digit_val 32 = 99" by code_simp+
  moreover have "\<not> (9 \<le> c \<and> c \<le> 13)"
    using d by (auto simp: digit_val_def word_le_nat_alt split: if_splits)
  ultimately show ?thesis using d by (auto simp: isspace_def)
qed

lemma num_parts_dec:
  "num_parts 10 (dec_of_nat n) = (False, n)"
  "\<not> digit_val c < 10 \<Longrightarrow> num_parts 10 (dec_of_nat n @ c # t) = (False, n)"
proof -
  have strip: "strip_0x 10 s = s" for s by (cases "(10 :: nat, s)" rule: strip_0x.cases) auto
  obtain d u where d: "dec_of_nat n = d # u" using dec_of_nat_Cons by blast
  then have "\<not> isspace d \<and> d \<noteq> 45 \<and> d \<noteq> 43" using dec_digits [of n] by (intro digit_not_space) simp
  then show "num_parts 10 (dec_of_nat n) = (False, n)"
    "\<not> digit_val c < 10 \<Longrightarrow> num_parts 10 (dec_of_nat n @ c # t) = (False, n)"
    using digits_val_dec(1) [of c n t] digits_val_dec(2) [of n] by (auto simp: num_parts_def d strip)
qed

text \<open>Printing a number with \<open>%d\<close> and reading it with \<open>atoi\<close>.\<close>

lemma to_int32_small: "- (2 ^ 31) \<le> v \<Longrightarrow> v < 2 ^ 31 \<Longrightarrow> to_int32 v = v"
  by (simp add: to_int32_def signed_take_bit_int_eq_self)

lemma atoi_dec:
  "n < 2 ^ 31 \<Longrightarrow> c_atoi (dec_of_nat n) = int n"
  "n < 2 ^ 31 \<Longrightarrow> \<not> digit_val c < 10 \<Longrightarrow> c_atoi (dec_of_nat n @ c # t) = int n"
  by (simp_all add: c_atoi_def c_strtol_def num_parts_dec to_int32_small)

lemma snprintf_fits:
  assumes "length txt < n"
  shows "c_snprintf (replicate n v) 0 n txt = Inr (txt @ 0 # replicate (n - Suc (length txt)) v)"
  using assms by (simp add: c_snprintf_def memcpy_def min_def)

text \<open>Reading a line that fits the buffer.\<close>

lemma fgets_line:
  assumes "10 \<notin> set l" and "Suc (length l) < n"
  shows "c_fgets n (l @ 10 # r) = Some (l @ [10], r)"
proof -
  have "takeWhile (\<lambda>c. c \<noteq> 10) (l @ 10 # r) = l" using assms(1) by (subst takeWhile_append2) auto
  moreover have "min (Suc (length l)) (n - 1) = Suc (length l)" using assms(2) by simp
  ultimately show ?thesis unfolding c_fgets_def Let_def by (simp only: length_append) simp
qed

lemma fgets_last:
  assumes "l \<noteq> []" and "10 \<notin> set l" and "length l < n"
  shows "c_fgets n l = Some (l, [])"
proof -
  have "takeWhile (\<lambda>c. c \<noteq> 10) l = l" using assms(2) by (auto simp: takeWhile_eq_all_conv)
  moreover have "min (length l) (n - 1) = length l" using assms(3) by simp
  ultimately show ?thesis using assms(1) unfolding c_fgets_def Let_def by (simp only: less_irrefl) simp
qed

lemma fgets_shrinks:
  assumes "c_fgets n s = Some (l, r)" and "1 < n"
  shows "length r < length s"
proof -
  have "s \<noteq> []" using assms(1) by (auto simp: c_fgets_def)
  then have "length (takeWhile (\<lambda>c. c \<noteq> 10) s) < length s \<or> 0 < length (takeWhile (\<lambda>c. c \<noteq> 10) s)"
    by (cases s) auto
  moreover have "0 < length s" using \<open>s \<noteq> []\<close> by simp
  ultimately show ?thesis
    using assms unfolding c_fgets_def Let_def by (auto split: if_splits)
qed

end
