(* ===== verification/Gen_General.thy ===== *)
theory Gen_General
  imports Libc
begin

text \<open>
  \<open>general_get_field\<close> of \<open>src/src/myfcp/general.c\<close>, which cuts a line into fields in place,
  and its client \<open>general_os_version\<close>.  A \<open>char *\<close> into the line is an offset, the array
  of field pointers a list of offsets or \<open>NULL\<close>.
\<close>

section \<open>Model\<close>

lemma rbind_cong [fundef_cong]:
  "m = m' \<Longrightarrow> (\<And>a. m' = Inr a \<Longrightarrow> f a = g a) \<Longrightarrow> rbind m f = rbind m' g"
  by (cases m') auto

text \<open>\<open>while(P(*pstr)) pstr++\<close>.\<close>

function skip_while :: "(byte \<Rightarrow> bool) \<Rightarrow> cbytes \<Rightarrow> nat \<Rightarrow> nat res" where
  "skip_while P bs p =
    (if p < length bs then if P (bs ! p) then skip_while P bs (p + 1) else Inr p
     else Inl OutOfBounds)"
  by pat_completeness auto
termination
  by (relation "measure (\<lambda>(P, bs, p). length bs - p)") auto

declare skip_while.simps [simp del]

lemma skip_while_bounds: "skip_while P bs p = Inr q \<Longrightarrow> p \<le> q \<and> q < length bs"
proof (induction P bs p rule: skip_while.induct)
  case (1 P bs p)
  from "1.prems" show ?case
    by (subst (asm) skip_while.simps) (auto dest: 1(1) split: if_splits)
qed

definition is_blank :: "byte \<Rightarrow> bool" where
  "is_blank c \<longleftrightarrow> c = 32 \<or> c = 9"

text \<open>The cutting loop from \<open>pstr\<close>, with \<open>fieldindex\<close> fields stored.\<close>

function get_field_loop ::
    "byte \<Rightarrow> int \<Rightarrow> cbytes \<Rightarrow> nat option list \<Rightarrow> nat \<Rightarrow> nat \<Rightarrow> (cbytes \<times> nat option list) res" where
  "get_field_loop key fieldnum bs field fieldindex pstr =
    (if pstr < length bs then
       if bs ! pstr = 0 then Inr (bs, field)
       else if bs ! pstr = key then
         if int fieldindex \<ge> fieldnum then Inr (bs[pstr := 0], field)
         else
           rbind (skip_while is_blank (bs[pstr := 0]) (pstr + 1)) (\<lambda>q.
           rbind (wr field fieldindex (Some q)) (\<lambda>field.
             get_field_loop key fieldnum (bs[pstr := 0]) field (fieldindex + 1) (q + 1)))
       else get_field_loop key fieldnum bs field fieldindex (pstr + 1)
     else Inl OutOfBounds)"
  by pat_completeness auto
termination
  by (relation "measure (\<lambda>(key, fieldnum, bs, field, fieldindex, pstr). length bs - pstr)")
    (auto dest: skip_while_bounds)

declare get_field_loop.simps [simp del]

definition general_get_field ::
    "cbytes option \<Rightarrow> byte \<Rightarrow> int \<Rightarrow> nat option list option \<Rightarrow>
      (int \<times> cbytes option \<times> nat option list option) res" where
  "general_get_field tmpbuff key fieldnum field =
    (case (tmpbuff, field) of (Some bs, Some fs) \<Rightarrow>
       if fieldnum \<le> 0 then Inr (-1, tmpbuff, field)
       else
         rbind (rd bs 0) (\<lambda>c.
         if c = 0 then Inr (-1, tmpbuff, field)
         else
           rbind (c_strlen bs 0) (\<lambda>buflen.
           rbind (skip_while (\<lambda>c. c = 32) bs 0) (\<lambda>pstr.
           rbind (rd bs (pstr + (buflen - 1))) (\<lambda>c.
           rbind (if c = 10 then wr bs (pstr + (buflen - 1)) 0 else Inr bs) (\<lambda>bs.
           rbind (c_strlen bs pstr) (\<lambda>buflen.
           if buflen = 0 then Inr (-1, Some bs, field)
           else
             rbind (wr fs 0 (Some pstr)) (\<lambda>fs.
             rbind (get_field_loop key fieldnum bs fs 1 pstr) (\<lambda>(bs, fs).
               Inr (0, Some bs, Some fs)))))))))
     | _ \<Rightarrow> Inr (-1, tmpbuff, field))"

text \<open>
  \<open>general_os_version_con\<close>: \<open>content\<close> is what \<open>fopen\<close> gives, \<open>oom\<close> whether \<open>malloc\<close> of the
  pointer array fails.  The result is the return value and \<open>verbuff\<close>.
\<close>

definition general_os_version_con ::
    "bool \<Rightarrow> cbytes option \<Rightarrow> nat \<Rightarrow> cbytes \<Rightarrow> nat \<Rightarrow> (int \<times> cbytes) res" where
  "general_os_version_con oom content fieldnum verbuff bufsize =
    (if fieldnum = 0 then Inr (-1, verbuff)
     else if oom then Inr (-1, verbuff)
     else case content of None \<Rightarrow> Inr (-1, verbuff)
     | Some content \<Rightarrow>
     case c_fgets 255 content of None \<Rightarrow> Inr (-1, verbuff)
     | Some (line, _) \<Rightarrow>
         rbind (memcpy (replicate 256 0) 0 (line @ [0]) 0 (length line + 1)) (\<lambda>buff.
         rbind (c_strlen buff 0) (\<lambda>n.
         if n = 0 then Inr (-1, verbuff)
         else
           rbind (general_get_field (Some buff) 32 (int fieldnum) (Some (replicate fieldnum None)))
             (\<lambda>(ret, buff, fieldptr).
              if ret \<noteq> 0 then Inr (-1, verbuff)
              else
                let buff = the buff; fieldptr = the fieldptr;
                    str = (\<lambda>i. cstr (drop (the (fieldptr ! i)) buff))
                in if fieldptr ! 0 = None \<or> fieldptr ! (fieldnum - 1) = None then Inr (-1, verbuff)
                   else
                     rbind (if c_atoi (str (fieldnum - 1)) = 0 \<and> fieldnum > 2
                            then if fieldptr ! (fieldnum - 2) = None then Inl NullDeref
                                 else c_snprintf verbuff 0 bufsize (str 0 @ str (fieldnum - 2))
                            else c_snprintf verbuff 0 bufsize (str 0 @ str (fieldnum - 1)))
                       (\<lambda>verbuff. Inr (0, verbuff))))))"

definition to_lower :: "byte \<Rightarrow> byte" where
  "to_lower c = (if 65 \<le> c \<and> c \<le> 90 then c + 32 else c)"

definition OS_VERSION_UBUNTU18 :: int where "OS_VERSION_UBUNTU18 = 0"
definition OS_VERSION_CENTOS7 :: int where "OS_VERSION_CENTOS7 = 1"
definition OS_VERSION_CENTOS6 :: int where "OS_VERSION_CENTOS6 = 2"

text \<open>\<open>exists_file\<close> is the success of \<open>stat\<close>, \<open>content\<close> what \<open>fopen\<close> gives.\<close>

definition general_os_version ::
    "bool \<Rightarrow> (cbytes \<Rightarrow> bool) \<Rightarrow> (cbytes \<Rightarrow> cbytes option) \<Rightarrow> int res" where
  "general_os_version oom exists_file content =
    rbind
      (let redhat = cbytes_of ''/etc/redhat-release''; issue = cbytes_of ''/etc/issue'' in
       if exists_file redhat then general_os_version_con oom (content redhat) 4 (replicate 256 0) 256
       else if exists_file issue then general_os_version_con oom (content issue) 2 (replicate 256 0) 256
       else Inr (-1, replicate 256 0))
      (\<lambda>(ret, osversion).
         if ret \<noteq> 0 then Inr (-1)
         else
           let name = takeWhile (\<lambda>c. c \<noteq> 46) (map to_lower (cstr osversion))
           in if name = cbytes_of ''ubuntu18'' then Inr OS_VERSION_UBUNTU18
              else if name = cbytes_of ''centos7'' then Inr OS_VERSION_CENTOS7
              else if name = cbytes_of ''centos6'' then Inr OS_VERSION_CENTOS6
              else Inr (-1))"

section \<open>Cutting a line of fields\<close>

text \<open>
  A line is a first word and, for each further one, the separator, blanks and the word.
  \<open>cut_tail key m\<close> is what is left of it when the pointer array has room for \<open>m\<close> more fields,
  \<open>tail_offs\<close> where the words stand.
\<close>

fun line_tail :: "byte \<Rightarrow> (cbytes \<times> cbytes) list \<Rightarrow> cbytes" where
  "line_tail key [] = []"
| "line_tail key ((bl, v) # rest) = key # bl @ v @ line_tail key rest"

fun cut_tail :: "byte \<Rightarrow> nat \<Rightarrow> (cbytes \<times> cbytes) list \<Rightarrow> cbytes" where
  "cut_tail key m [] = []"
| "cut_tail key m ((bl, v) # rest) =
    0 # bl @ v @ (if m = 0 then line_tail key rest else cut_tail key (m - 1) rest)"

fun tail_offs :: "nat \<Rightarrow> (cbytes \<times> cbytes) list \<Rightarrow> nat list" where
  "tail_offs p [] = []"
| "tail_offs p ((bl, v) # rest) = (p + 1 + length bl) # tail_offs (p + 1 + length bl + length v) rest"

definition field_word :: "byte \<Rightarrow> cbytes \<Rightarrow> bool" where
  "field_word key v \<longleftrightarrow> v \<noteq> [] \<and> no_nul v \<and> key \<notin> set v \<and> \<not> is_blank (hd v)"

definition line_ok :: "byte \<Rightarrow> (cbytes \<times> cbytes) list \<Rightarrow> bool" where
  "line_ok key rest \<longleftrightarrow> key \<noteq> 0 \<and> (\<forall>(bl, v) \<in> set rest. (\<forall>c \<in> set bl. is_blank c) \<and> field_word key v)"

lemma line_ok_Cons [simp]:
  "line_ok key ((bl, v) # rest) \<longleftrightarrow>
    (\<forall>c \<in> set bl. is_blank c) \<and> field_word key v \<and> line_ok key rest"
  by (auto simp: line_ok_def)

lemma length_cut_tail [simp]: "length (cut_tail key m rest) = length (line_tail key rest)"
  by (induction key m rest rule: cut_tail.induct) auto

lemma length_tail_offs [simp]: "length (tail_offs p rest) = length rest"
  by (induction p rest rule: tail_offs.induct) auto

lemma is_blank_no_nul [simp]: "\<not> is_blank 0"
  by (simp add: is_blank_def)

lemma line_tail_no_nul: "line_ok key rest \<Longrightarrow> no_nul (line_tail key rest)"
proof (induction key rest rule: line_tail.induct)
  case (2 key bl v rest)
  then show ?case
    by (auto simp: field_word_def cstr_simps no_nul_def line_ok_def)
qed (simp add: cstr_simps)

lemma skip_while_over:
  assumes "\<forall>c \<in> set bl. P c" "\<not> P d"
  shows "skip_while P (pre @ bl @ d # s) (length pre) = Inr (length pre + length bl)"
  using assms(1)
proof (induction bl arbitrary: pre)
  case Nil
  show ?case
    by (subst skip_while.simps) (simp add: nth_append assms(2))
next
  case (Cons c bl)
  have "skip_while P (pre @ (c # bl) @ d # s) (length pre)
      = skip_while P ((pre @ [c]) @ bl @ d # s) (length (pre @ [c]))"
    using Cons.prems by (subst skip_while.simps) (simp add: nth_append)
  also have "\<dots> = Inr (length (pre @ [c]) + length bl)"
    by (rule Cons.IH) (use Cons.prems in simp)
  finally show ?case
    by simp
qed

text \<open>Inside a word the loop only moves on.\<close>

lemma get_field_loop_word:
  assumes "no_nul w" "key \<notin> set w"
  shows "get_field_loop key n (pre @ w @ s) fs fi (length pre)
    = get_field_loop key n ((pre @ w) @ s) fs fi (length (pre @ w))"
  using assms
proof (induction w arbitrary: pre)
  case (Cons c w)
  have "get_field_loop key n (pre @ (c # w) @ s) fs fi (length pre)
      = get_field_loop key n ((pre @ [c]) @ w @ s) fs fi (length (pre @ [c]))"
    using Cons.prems by (subst get_field_loop.simps) (auto simp: nth_append cstr_simps)
  also have "\<dots> = get_field_loop key n (((pre @ [c]) @ w) @ s) fs fi (length ((pre @ [c]) @ w))"
    by (rule Cons.IH) (use Cons.prems in \<open>simp_all add: cstr_simps\<close>)
  finally show ?case
    by simp
qed simp

text \<open>At a separator it cuts, and goes on behind the first byte of the next word.\<close>

lemma get_field_loop_cut:
  assumes "key \<noteq> 0" "\<forall>c \<in> set bl. is_blank c" "field_word key v" "fi < n" "fi < length fs"
  shows "get_field_loop key (int n) (pre @ key # bl @ v @ s) fs fi (length pre)
    = get_field_loop key (int n) ((pre @ 0 # bl @ v) @ s) (fs[fi := Some (length pre + 1 + length bl)])
        (fi + 1) (length (pre @ 0 # bl @ v))"
proof -
  obtain d v' where v: "v = d # v'"
    using assms(3) by (cases v) (auto simp: field_word_def)
  have skip: "skip_while is_blank ((pre @ [0]) @ bl @ d # v' @ s) (length (pre @ [0]))
      = Inr (length (pre @ [0]) + length bl)"
    by (rule skip_while_over) (use assms(2,3) v in \<open>auto simp: field_word_def\<close>)
  have "get_field_loop key (int n) (pre @ key # bl @ v @ s) fs fi (length pre)
      = get_field_loop key (int n) ((pre @ 0 # bl @ [d]) @ v' @ s)
          (fs[fi := Some (length pre + 1 + length bl)]) (fi + 1) (length (pre @ 0 # bl @ [d]))"
    using assms skip
    by (subst get_field_loop.simps) (simp add: nth_append v list_update_append wr_in)
  also have "\<dots> = get_field_loop key (int n) (((pre @ 0 # bl @ [d]) @ v') @ s)
          (fs[fi := Some (length pre + 1 + length bl)]) (fi + 1) (length ((pre @ 0 # bl @ [d]) @ v'))"
    by (rule get_field_loop_word) (use assms(3) v in \<open>auto simp: field_word_def cstr_simps\<close>)
  finally show ?thesis
    by (simp add: v)
qed

lemma get_field_loop_full:
  assumes "key \<noteq> 0" "n \<le> fi"
  shows "get_field_loop key (int n) (pre @ key # s) fs fi (length pre) = Inr (pre @ 0 # s, fs)"
  using assms by (subst get_field_loop.simps) (simp add: nth_append list_update_append)

lemma get_field_loop_nul:
  "get_field_loop key n (pre @ 0 # s) fs fi (length pre) = Inr (pre @ 0 # s, fs)"
  by (subst get_field_loop.simps) (simp add: nth_append)

definition put_fields :: "'a list \<Rightarrow> nat \<Rightarrow> 'a list \<Rightarrow> 'a list" where
  "put_fields fs fi offs = take fi fs @ offs @ drop (fi + length offs) fs"

lemma put_fields_Nil [simp]: "put_fields fs fi [] = fs"
  by (simp add: put_fields_def)

lemma put_fields_Cons:
  "fi < length fs \<Longrightarrow> put_fields (fs[fi := a]) (Suc fi) offs = put_fields fs fi (a # offs)"
  by (simp add: put_fields_def take_Suc_conv_app_nth drop_update_cancel)

lemma get_field_loop_fields:
  assumes "line_ok key rest" "n \<le> length fs"
  shows "get_field_loop key (int n) (pre @ line_tail key rest @ 0 # s) fs fi (length pre)
    = Inr (pre @ cut_tail key (n - fi) rest @ 0 # s,
           put_fields fs fi (map Some (take (n - fi) (tail_offs (length pre) rest))))"
  using assms
proof (induction key rest arbitrary: pre fs fi rule: line_tail.induct)
  case (1 key)
  then show ?case
    by (simp add: get_field_loop_nul)
next
  case (2 key bl v rest)
  have key: "key \<noteq> 0"
    using "2.prems"(1) by (auto simp: line_ok_def)
  show ?case
  proof (cases "fi < n")
    case False
    then have "get_field_loop key (int n) (pre @ key # bl @ v @ line_tail key rest @ 0 # s) fs fi (length pre)
        = Inr (pre @ 0 # bl @ v @ line_tail key rest @ 0 # s, fs)"
      using key by (intro get_field_loop_full) auto
    with False show ?thesis
      by simp
  next
    case True
    have "get_field_loop key (int n) (pre @ key # bl @ v @ line_tail key rest @ 0 # s) fs fi (length pre)
        = get_field_loop key (int n) ((pre @ 0 # bl @ v) @ line_tail key rest @ 0 # s)
            (fs[fi := Some (length pre + 1 + length bl)]) (fi + 1) (length (pre @ 0 # bl @ v))"
      by (rule get_field_loop_cut) (use "2.prems" True key in auto)
    also have "\<dots> = Inr ((pre @ 0 # bl @ v) @ cut_tail key (n - (fi + 1)) rest @ 0 # s,
        put_fields (fs[fi := Some (length pre + 1 + length bl)]) (fi + 1)
          (map Some (take (n - (fi + 1)) (tail_offs (length (pre @ 0 # bl @ v)) rest))))"
      by (rule "2.IH") (use "2.prems" in auto)
    finally show ?thesis
      using True "2.prems"(2) Suc_diff_Suc [OF True, symmetric]
      by (simp add: put_fields_Cons add_ac)
  qed
qed


text \<open>The fields are the words, each up to its NUL.\<close>

lemma cstr_cut_tail:
  assumes "line_ok key rest" "field_word key w"
  shows "cstr (w @ cut_tail key m rest @ 0 # s) = w"
  using assms
  by (cases rest) (auto simp: field_word_def cstr_simps split: prod.splits)

lemma tail_fields:
  assumes "line_ok key rest"
  shows "map (\<lambda>p. cstr (drop p (pre @ cut_tail key m rest @ 0 # s))) (take m (tail_offs (length pre) rest))
    = take m (map snd rest)"
  using assms
proof (induction key m rest arbitrary: pre rule: cut_tail.induct)
  case (2 key m bl v rest)
  show ?case
  proof (cases m)
    case (Suc m')
    have IH: "map (\<lambda>p. cstr (drop p ((pre @ 0 # bl @ v) @ cut_tail key m' rest @ 0 # s)))
        (take m' (tail_offs (length (pre @ 0 # bl @ v)) rest)) = take m' (map snd rest)"
      using "2.IH" [of "pre @ 0 # bl @ v"] "2.prems" Suc by simp
    have "cstr (v @ cut_tail key m' rest @ 0 # s) = v"
      by (rule cstr_cut_tail) (use "2.prems" in auto)
    with IH show ?thesis
      using Suc by (simp add: add_ac)
  qed simp
qed simp

text \<open>What happens before the loop: the newline at the end goes.\<close>

lemma get_field_open:
  assumes "no_nul L" "L \<noteq> []" "hd L \<noteq> 32" "last L \<noteq> 10" "nl = [] \<or> nl = [10]" "0 < n" "fs \<noteq> []"
  shows "general_get_field (Some (L @ nl @ 0 # s)) key (int n) (Some fs)
    = rbind (get_field_loop key (int n) (L @ map (\<lambda>_. 0) nl @ 0 # s) (fs[0 := Some 0]) 1 0)
        (\<lambda>(bs, fs). Inr (0, Some bs, Some fs))"
proof -
  let ?b = "L @ nl @ 0 # s" and ?c = "L @ map (\<lambda>_. 0) nl @ 0 # s"
  obtain c l' where l: "L = c # l'" and c: "c \<noteq> 0" "c \<noteq> 32"
    using assms(1,2,3) by (cases L) (auto simp: cstr_simps)
  have nn: "no_nul (L @ nl)"
    using assms(1,5) by (auto simp: cstr_simps)
  have len: "c_strlen ?b 0 = Inr (length L + length nl)"
    using strlen_at [of "L @ nl" "[]" s] nn by simp
  have strip: "rbind (rd ?b (length L + length nl - 1))
      (\<lambda>c. rbind (if c = 10 then wr ?b (length L + length nl - 1) 0 else Inr ?b) f) = f ?c"
    for f :: "cbytes \<Rightarrow> 'z res"
  proof (cases "nl = []")
    case True
    obtain l x where L: "L = l @ [x]"
      using assms(2) by (cases L rule: rev_cases) simp_all
    with assms(4) True show ?thesis
      by (simp add: rd_def nth_append)
  next
    case False
    with assms(5) have "nl = [10]" by simp
    then show ?thesis by (simp add: rd_def wr_def nth_append list_update_append)
  qed
  have len2: "c_strlen ?c 0 = Inr (length L)"
    using assms(5) strlen_at [of L "[]" s] strlen_at [of L "[]" "0 # s"] assms(1) by auto
  have skip: "skip_while (\<lambda>c. c = 32) ?b 0 = Inr 0"
    using c by (subst skip_while.simps) (simp add: l)
  have c0: "rd ?b 0 = Inr c"
    by (simp add: l rd_def)
  have rest: "rbind (c_strlen ?c 0) (\<lambda>buflen.
        if buflen = 0 then Inr (-1, Some ?c, Some fs)
        else rbind (wr fs 0 (Some 0)) (\<lambda>fs.
          rbind (get_field_loop key (int n) ?c fs 1 0) (\<lambda>(bs, fs). Inr (0, Some bs, Some fs))))
      = rbind (get_field_loop key (int n) ?c (fs[0 := Some 0]) 1 0) (\<lambda>(bs, fs). Inr (0, Some bs, Some fs))"
    unfolding len2 rbind_simps using assms(2,7) by (simp add: wr_def)
  have "general_get_field (Some ?b) key (int n) (Some fs)
      = rbind (rd ?b (length L + length nl - 1)) (\<lambda>c.
          rbind (if c = 10 then wr ?b (length L + length nl - 1) 0 else Inr ?b) (\<lambda>bs.
          rbind (c_strlen bs 0) (\<lambda>buflen.
          if buflen = 0 then Inr (-1, Some bs, Some fs)
          else rbind (wr fs 0 (Some 0)) (\<lambda>fs.
            rbind (get_field_loop key (int n) bs fs 1 0) (\<lambda>(bs, fs). Inr (0, Some bs, Some fs))))))"
    unfolding general_get_field_def using assms(6) c c0 len skip by (simp cong: if_cong)
  then show ?thesis
    unfolding strip by (simp only: rest)
qed

lemma first_word:
  assumes "line_ok key rest" "field_word key w"
  shows "no_nul (w @ line_tail key rest)" "w @ line_tail key rest \<noteq> []" "hd (w @ line_tail key rest) \<noteq> 32"
  using assms line_tail_no_nul [OF assms(1)] by (auto simp: field_word_def is_blank_def cstr_simps)

lemma get_field_loop_first:
  assumes "field_word key w"
  shows "get_field_loop key n (w @ t) fs fi 0 = get_field_loop key n (w @ t) fs fi (length w)"
  using get_field_loop_word [of w key n "[]" t fs fi] assms by (simp add: field_word_def)

lemma get_field_line:
  assumes "field_word key w" "line_ok key rest" "0 < n" "n \<le> length fs"
    and "nl = [] \<or> nl = [10]" "last (w @ line_tail key rest) \<noteq> 10"
  obtains s' offs where "map (\<lambda>_. 0) nl @ 0 # s = 0 # s'"
    "general_get_field (Some (w @ line_tail key rest @ nl @ 0 # s)) key (int n) (Some fs)
      = Inr (0, Some (w @ cut_tail key (n - 1) rest @ 0 # s'), Some (map Some offs @ drop (length offs) fs))"
    "map (\<lambda>p. cstr (drop p (w @ cut_tail key (n - 1) rest @ 0 # s'))) offs = take n (w # map snd rest)"
proof -
  define s' where "s' = (if nl = [] then s else 0 # s)"
  have s': "map (\<lambda>_. 0) nl @ 0 # s = 0 # s'"
    using assms(5) by (auto simp: s'_def)
  obtain a fs' where fs: "fs = a # fs'"
    using assms(3,4) by (cases fs) auto
  let ?bs = "w @ cut_tail key (n - 1) rest @ 0 # s'"
  let ?offs = "0 # take (n - 1) (tail_offs (length w) rest)"
  have "get_field_loop key (int n) (w @ line_tail key rest @ 0 # s') (fs[0 := Some 0]) 1 0
      = Inr (?bs, put_fields (fs[0 := Some 0]) 1 (map Some (take (n - 1) (tail_offs (length w) rest))))"
    unfolding get_field_loop_first [OF assms(1)]
    by (rule get_field_loop_fields) (use assms(2,4) in auto)
  moreover have "put_fields (fs[0 := Some 0]) 1 (map Some (take (n - 1) (tail_offs (length w) rest)))
      = map Some ?offs @ drop (length ?offs) fs"
    by (simp add: fs put_fields_def)
  moreover have "general_get_field (Some ((w @ line_tail key rest) @ nl @ 0 # s)) key (int n) (Some fs)
      = rbind (get_field_loop key (int n) ((w @ line_tail key rest) @ map (\<lambda>_. 0) nl @ 0 # s)
          (fs[0 := Some 0]) 1 0) (\<lambda>(bs, fs). Inr (0, Some bs, Some fs))"
    by (rule get_field_open) (use first_word [OF assms(2,1)] assms(3-6) fs in auto)
  ultimately have "general_get_field (Some (w @ line_tail key rest @ nl @ 0 # s)) key (int n) (Some fs)
      = Inr (0, Some ?bs, Some (map Some ?offs @ drop (length ?offs) fs))"
    by (simp add: s')
  moreover have "map (\<lambda>p. cstr (drop p ?bs)) ?offs = take n (w # map snd rest)"
    using tail_fields [OF assms(2), of w "n - 1" s'] cstr_cut_tail [OF assms(2,1)] assms(3)
    by (cases n) simp_all
  ultimately show thesis
    using that s' by blast
qed

lemma line_tail_append: "line_tail key (xs @ ys) = line_tail key xs @ line_tail key ys"
  by (induction key xs rule: line_tail.induct) auto

text \<open>When the array is full at a separator, what follows does not matter.\<close>

lemma get_field_loop_enough:
  assumes "line_ok key rest" "n = fi + length rest" "n \<le> length fs"
  shows "get_field_loop key (int n) (pre @ line_tail key rest @ key # s) fs fi (length pre)
    = Inr (pre @ cut_tail key (length rest) rest @ 0 # s, put_fields fs fi (map Some (tail_offs (length pre) rest)))"
  using assms
proof (induction key rest arbitrary: pre fs fi rule: line_tail.induct)
  case (1 key)
  then have "key \<noteq> 0" by (simp add: line_ok_def)
  with 1 show ?case by (simp add: get_field_loop_full)
next
  case (2 key bl v rest)
  have key: "key \<noteq> 0" using "2.prems"(1) by (auto simp: line_ok_def)
  have "get_field_loop key (int n) (pre @ key # bl @ v @ line_tail key rest @ key # s) fs fi (length pre)
      = get_field_loop key (int n) ((pre @ 0 # bl @ v) @ line_tail key rest @ key # s)
          (fs[fi := Some (length pre + 1 + length bl)]) (fi + 1) (length (pre @ 0 # bl @ v))"
    by (rule get_field_loop_cut) (use "2.prems" key in auto)
  also have "\<dots> = Inr ((pre @ 0 # bl @ v) @ cut_tail key (length rest) rest @ 0 # s,
      put_fields (fs[fi := Some (length pre + 1 + length bl)]) (fi + 1)
        (map Some (tail_offs (length (pre @ 0 # bl @ v)) rest)))"
    by (rule "2.IH") (use "2.prems" in auto)
  finally show ?case
    using "2.prems"(2,3) by (simp add: put_fields_Cons add_ac)
qed

text \<open>
  A line that starts with blanks, in a buffer of zeros: the newline is looked for behind the string
  and stays, without harm where there are more words than the array takes.
\<close>

lemma get_field_indented:
  assumes "field_word 32 w" "line_ok 32 rest" "no_nul q" "length fs = Suc (length rest)"
    and "set z \<subseteq> {0}" "k \<le> length z"
  shows "\<exists>s. general_get_field (Some (replicate k 32 @ w @ line_tail 32 rest @ 32 # q @ 10 # 0 # z)) 32 (int (Suc (length rest))) (Some fs)
    = Inr (0, Some (replicate k 32 @ w @ cut_tail 32 (length rest) rest @ 0 # s), Some (map Some (k # tail_offs (k + length w) rest)))
    \<and> last (0 # s) = 0"
proof -
  let ?l = "replicate k 32 @ w @ line_tail 32 rest @ 32 # q"
  define b where "b = ?l @ 10 # 0 # z"
  define e where "e = length ?l"
  define b' where "b' = (if k = 0 then ?l @ 0 # 0 # z else b)"
  define s where "s = (if k = 0 then q @ 0 # 0 # z else q @ 10 # 0 # z)"
  have b': "b' = (replicate k 32 @ w) @ line_tail 32 rest @ 32 # s"
    by (simp add: b'_def s_def b_def)
  have nw: "no_nul w" "w \<noteq> []" "32 \<notin> set w" "\<not> is_blank (hd w)" using assms(1) by (auto simp: field_word_def)
  have nl: "no_nul ?l"
    using nw(1) line_tail_no_nul [OF assms(2)] assms(3) by (simp add: cstr_simps) (simp add: no_nul_def)
  have len: "c_strlen b 0 = Inr (Suc e)"
    using strlen_at [of "?l @ [10]" "[]" z] nl by (simp add: cstr_simps b_def e_def)
  obtain d u where d: "w = d # u" using nw(2) by (cases w) auto
  have d32: "d \<noteq> 32" "d \<noteq> 0" using nw d by (auto simp: no_nul_def)
  have skip: "skip_while (\<lambda>c. c = 32) b 0 = Inr k"
    using skip_while_over [of "replicate k 32" "\<lambda>c. c = 32" d "[]"] d32 by (simp add: d b_def)
  have c0: "\<exists>c. rd b 0 = Inr c \<and> c \<noteq> 0"
    using d32 by (cases k) (auto simp: d rd_def b_def)
  have nlast: "rbind (rd b (k + e))
      (\<lambda>c. rbind (if c = 10 then wr b (k + e) 0 else Inr b) f) = f b'"
    for f :: "cbytes \<Rightarrow> 'z res"
  proof (cases k)
    case 0
    then show ?thesis by (simp add: rd_def wr_def b'_def b_def e_def nth_append list_update_append)
  next
    case (Suc j)
    have "b ! (k + e) = (0 # z) ! j" using Suc by (simp add: b_def e_def nth_append)
    moreover have "(0 # z) ! j = 0"
    proof -
      have "(0 # z) ! j \<in> set (0 # z)" by (rule nth_mem) (use assms(6) Suc in simp)
      then show ?thesis using assms(5) by auto
    qed
    moreover have "k + e < length b" using assms(6) by (simp add: b_def e_def)
    ultimately show ?thesis using Suc by (simp add: rd_def b'_def)
  qed
  have len2: "\<exists>j. c_strlen b' k = Inr j \<and> j \<noteq> 0"
  proof (cases k)
    case 0
    have "c_strlen b' 0 = Inr (length ?l)" using strlen_at [of ?l "[]" "0 # z"] nl 0 by (simp add: b'_def)
    then show ?thesis using 0 by simp
  next
    case (Suc j)
    have "no_nul (w @ line_tail 32 rest @ 32 # q @ [10])" using nl by (simp add: cstr_simps)
    then have "c_strlen b' k = Inr (length (w @ line_tail 32 rest @ 32 # q @ [10]))"
      using strlen_at [of "w @ line_tail 32 rest @ 32 # q @ [10]" "replicate k 32" z] Suc by (simp add: b'_def b_def)
    then show ?thesis by simp
  qed
  have loop: "get_field_loop 32 (int (Suc (length rest))) b' (fs[0 := Some k]) 1 k
      = Inr ((replicate k 32 @ w) @ cut_tail 32 (length rest) rest @ 0 # s,
          put_fields (fs[0 := Some k]) 1 (map Some (tail_offs (length (replicate k 32 @ w)) rest)))"
  proof -
    have "get_field_loop 32 (int (Suc (length rest))) b' (fs[0 := Some k]) 1 (length (replicate k (32 :: byte)))
      = get_field_loop 32 (int (Suc (length rest))) b' (fs[0 := Some k]) 1 (length (replicate k 32 @ w))"
      unfolding b' append_assoc
      by (subst get_field_loop_word) (use nw in simp_all)
    also have "\<dots> = Inr ((replicate k 32 @ w) @ cut_tail 32 (length rest) rest @ 0 # s,
          put_fields (fs[0 := Some k]) 1 (map Some (tail_offs (length (replicate k 32 @ w)) rest)))"
      unfolding b' by (rule get_field_loop_enough) (use assms(2,4) in auto)
    finally show ?thesis by simp
  qed
  obtain a fs' where fs: "fs = a # fs'" using assms(4) by (cases fs) auto
  have "put_fields (fs[0 := Some k]) 1 (map Some (tail_offs (length (replicate k 32 @ w)) rest))
      = map Some (k # tail_offs (k + length w) rest)"
    using assms(4) by (simp add: fs put_fields_def)
  moreover have "last (0 # s) = 0"
    using assms(5) last_in_set [of "0 # z"] by (auto simp: s_def)
  moreover obtain c where "rd b 0 = Inr c" "c \<noteq> 0" using c0 by blast
  moreover obtain j where "c_strlen b' k = Inr j" "j \<noteq> 0" using len2 by blast
  moreover have "wr fs 0 (Some k) = Inr (fs[0 := Some k])" by (simp add: fs wr_def)
  ultimately have "general_get_field (Some b) 32 (int (Suc (length rest))) (Some fs)
    = Inr (0, Some ((replicate k 32 @ w) @ cut_tail 32 (length rest) rest @ 0 # s),
        Some (map Some (k # tail_offs (k + length w) rest))) \<and> last (0 # s) = 0"
    using loop by (simp add: general_get_field_def len skip nlast cong: if_cong)
  then show ?thesis by (intro exI [of _ s]) (simp add: b_def)
qed

text \<open>C20: a line of words: \<open>general_get_field\<close> stores one pointer per word, up to \<open>fieldnum\<close> of
  them, and each pointer is to exactly its word, the final newline of the line removed; the rest of
  the pointer array and the length of the buffer are as before.\<close>

lemma general_get_field_words:
  assumes "field_word key w" "line_ok key rest" "0 < n" "n \<le> length fs"
    and "nl = [] \<or> nl = [10]" "last (w @ line_tail key rest) \<noteq> 10"
  shows "\<exists>bs offs. general_get_field (Some (w @ line_tail key rest @ nl @ 0 # s)) key (int n) (Some fs)
      = Inr (0, Some bs, Some (map Some offs @ drop (length offs) fs)) \<and>
    length bs = length (w @ line_tail key rest @ nl @ 0 # s) \<and>
    map (\<lambda>p. cstr (drop p bs)) offs = take n (w # map snd rest)"
proof -
  obtain s' offs where *: "map (\<lambda>_. 0) nl @ 0 # s = 0 # s'"
    "general_get_field (Some (w @ line_tail key rest @ nl @ 0 # s)) key (int n) (Some fs)
      = Inr (0, Some (w @ cut_tail key (n - 1) rest @ 0 # s'), Some (map Some offs @ drop (length offs) fs))"
    "map (\<lambda>p. cstr (drop p (w @ cut_tail key (n - 1) rest @ 0 # s'))) offs = take n (w # map snd rest)"
    by (rule get_field_line [OF assms])
  moreover have "length (w @ cut_tail key (n - 1) rest @ 0 # s') = length (w @ line_tail key rest @ nl @ 0 # s)"
    using arg_cong [OF *(1), of length] by simp
  ultimately show ?thesis
    by blast
qed

lemma general_get_field_words_witness:
  "\<exists>bs offs. general_get_field (Some (cbytes_of ''root: x: 0'' @ [10, 0])) 58 2 (Some [None, None, None])
      = Inr (0, Some bs, Some (map Some offs @ drop (length offs) [None, None, None])) \<and>
    length bs = length (cbytes_of ''root: x: 0'' @ [10, 0]) \<and> map (\<lambda>p. cstr (drop p bs)) offs = [cbytes_of ''root'', cbytes_of ''x'']"
  using general_get_field_words [of 58 "cbytes_of ''root''" "[([32], cbytes_of ''x''), ([32], cbytes_of ''0'')]"
      2 "[None, None, None]" "[10]" "[]"]
  by (simp add: field_word_def line_ok_def cbytes_of_def is_blank_def cstr_simps)


text \<open>Behind a separator at the end of the line the loop goes on past the terminating NUL.\<close>

lemma get_field_loop_trailing:
  assumes "line_ok key rest" "\<forall>c \<in> set bl. is_blank c" "fi + length rest < n" "n \<le> length fs"
  shows "get_field_loop key (int n) (pre @ line_tail key rest @ key # bl @ [0]) fs fi (length pre)
    = Inl OutOfBounds"
  using assms
proof (induction key rest arbitrary: pre fs fi rule: line_tail.induct)
  case (1 key)
  have skip: "skip_while is_blank ((pre @ [0]) @ bl @ 0 # []) (length (pre @ [0]))
      = Inr (length (pre @ [0]) + length bl)"
    by (rule skip_while_over) (use "1.prems"(2) in auto)
  have out: "get_field_loop key (int n) bs fs' fi' (length bs) = Inl OutOfBounds" for bs fs' fi'
    by (subst get_field_loop.simps) simp
  from "1.prems" skip out [of "pre @ 0 # bl @ [0]"] show ?case
    by (subst get_field_loop.simps) (simp add: nth_append list_update_append wr_in line_ok_def add_ac)
next
  case (2 key bl' v rest)
  have "get_field_loop key (int n) (pre @ key # bl' @ v @ line_tail key rest @ key # bl @ [0]) fs fi (length pre)
      = get_field_loop key (int n) ((pre @ 0 # bl' @ v) @ line_tail key rest @ key # bl @ [0])
          (fs[fi := Some (length pre + 1 + length bl')]) (fi + 1) (length (pre @ 0 # bl' @ v))"
    by (rule get_field_loop_cut) (use "2.prems" in \<open>auto simp: line_ok_def\<close>)
  also have "\<dots> = Inl OutOfBounds"
    by (rule "2.IH") (use "2.prems" in auto)
  finally show ?case by simp
qed

text \<open>C21: \<open>general_get_field\<close> can run out of its buffer: on a line that ends in a separator while
  there is room for one more field (the scan steps over the terminator), and on a line that starts
  with two or more spaces (the newline is looked for at the old length from the new start).\<close>

lemma general_get_field_overrun:
  assumes a: "field_word key w" "line_ok key rest" "\<forall>c \<in> set bl. is_blank c" "length rest + 1 < n"
      "n \<le> length fs" "last (key # bl) \<noteq> 10"
    and b: "no_nul v" "v \<noteq> []" "hd v \<noteq> 32" "2 \<le> k"
  shows "general_get_field (Some (w @ line_tail key rest @ key # bl @ [0])) key (int n) (Some fs) = Inl OutOfBounds \<and>
    general_get_field (Some (replicate k 32 @ v @ [0])) key (int n) (Some fs) = Inl OutOfBounds"
proof
  let ?L = "w @ line_tail key rest @ key # bl"
  obtain c fs' where fs: "fs = c # fs'"
    using a(4,5) by (cases fs) auto
  have "general_get_field (Some (?L @ [] @ 0 # [])) key (int n) (Some fs)
      = rbind (get_field_loop key (int n) (?L @ map (\<lambda>_. 0) ([] :: cbytes) @ 0 # []) (fs[0 := Some 0]) 1 0)
          (\<lambda>(bs, fs). Inr (0, Some bs, Some fs))"
  proof (rule get_field_open)
    have "no_nul bl" using a(3) by (auto simp: no_nul_def)
    then show "no_nul ?L"
      using first_word(1) [OF a(2,1)] a(2) by (auto simp: cstr_simps line_ok_def)
    show "hd ?L \<noteq> 32" using a(1) by (auto simp: field_word_def is_blank_def)
    show "last ?L \<noteq> 10" using a(6) by simp
  qed (use a(4) fs in auto)
  moreover have "get_field_loop key (int n) (w @ line_tail key rest @ key # bl @ [0]) (fs[0 := Some 0]) 1 (length w)
      = Inl OutOfBounds"
    by (rule get_field_loop_trailing) (use a in auto)
  ultimately show "general_get_field (Some (w @ line_tail key rest @ key # bl @ [0])) key (int n) (Some fs)
      = Inl OutOfBounds"
    using get_field_loop_first [OF a(1)] by simp
next
  let ?b = "replicate k 32 @ v @ [0] :: cbytes"
  obtain d w' where w: "v = d # w'"
    using b(2) by (cases v) auto
  have nn: "no_nul (replicate k (32 :: byte) @ v)"
    using b(1) by (auto simp: no_nul_def)
  have len: "c_strlen ?b 0 = Inr (k + length v)"
    using strlen_at [OF nn, of "[]" "[]"] by simp
  have skip: "skip_while (\<lambda>c. c = 32) ?b 0 = Inr k"
    using skip_while_over [of "replicate k 32" "\<lambda>c. c = 32" d "[]" "w' @ [0]"] b(3) w by simp
  have c0: "rd ?b 0 = Inr 32"
    using b(4) by (cases k) (simp_all add: rd_def)
  have over: "rd ?b (k + (k + length v - 1)) = Inl OutOfBounds"
    using b(4) by (simp add: rd_def)
  show "general_get_field (Some ?b) key (int n) (Some fs) = Inl OutOfBounds"
    unfolding general_get_field_def using a(4)
    by (simp only: option.case prod.case c0 len skip over rbind_simps) simp
qed

lemma general_get_field_overrun_witness:
  "general_get_field (Some (cbytes_of ''a,b,'' @ [0])) 44 3 (Some [None, None, None]) = Inl OutOfBounds \<and>
    general_get_field (Some (replicate 2 32 @ cbytes_of ''a'' @ [0])) 44 3 (Some [None, None, None]) = Inl OutOfBounds"
  using general_get_field_overrun [of 44 "cbytes_of ''a''" "[([], cbytes_of ''b'')]" "[]" 3 "[None, None, None]"
      "cbytes_of ''a''" 2]
  by (simp add: field_word_def line_ok_def cbytes_of_def is_blank_def cstr_simps)

section \<open>The system release\<close>

text \<open>The class of a release name: its lower-case text before the first dot.\<close>

definition os_class :: "cbytes \<Rightarrow> int" where
  "os_class s =
    (let name = takeWhile (\<lambda>c. c \<noteq> 46) (map to_lower s) in
     if name = cbytes_of ''ubuntu18'' then OS_VERSION_UBUNTU18
     else if name = cbytes_of ''centos7'' then OS_VERSION_CENTOS7
     else if name = cbytes_of ''centos6'' then OS_VERSION_CENTOS6
     else -1)"

text \<open>The word of the line that holds the number: the \<open>n\<close>-th, or the one before it when that is
  no number and \<open>n\<close> is more than 2.\<close>

definition release_word :: "nat \<Rightarrow> cbytes list \<Rightarrow> cbytes" where
  "release_word n ws = (if c_atoi (ws ! (n - 1)) = 0 \<and> 2 < n then ws ! (n - 2) else ws ! (n - 1))"

lemma snprintf_buffer:
  assumes "length t < n" "no_nul t"
  shows "\<exists>b. c_snprintf (replicate n 0) 0 n t = Inr b \<and> cstr b = t"
  using snprintf_fits [OF assms(1)] assms(2) by (simp add: cstr_append_nul)

lemma words_length:
  "v \<in> snd ` set rest \<Longrightarrow> length v \<le> length (line_tail key rest)"
  by (induction key rest rule: line_tail.induct) (auto intro: trans_le_add2 le_SucI image_eqI)

lemma words_at:
  assumes "line_ok key rest" "field_word key w" "i < Suc (length rest)"
  shows "no_nul ((w # map snd rest) ! i)"
  using assms by (cases i) (auto simp: field_word_def line_ok_def dest!: nth_mem)

lemma words_two_length:
  assumes "0 < i" "i < Suc (length rest)"
  shows "length w + length ((w # map snd rest) ! i) \<le> length (w @ line_tail key rest)"
proof -
  have "(w # map snd rest) ! i \<in> snd ` set rest"
    using assms by (cases i) auto
  then show ?thesis using words_length [of _ rest key] by auto
qed

lemma os_version_con_reads:
  assumes w: "field_word 32 w" "line_ok 32 rest" "2 \<le> n" "n \<le> Suc (length rest)"
    and line: "10 \<notin> set (w @ line_tail 32 rest)" "length (w @ line_tail 32 rest) \<le> 253"
  shows "\<exists>b. general_os_version_con False (Some ((w @ line_tail 32 rest) @ 10 # more)) n (replicate 256 0) 256
      = Inr (0, b) \<and> cstr b = w @ release_word n (w # map snd rest)"
proof -
  let ?l = "w @ line_tail 32 rest" and ?ws = "w # map snd rest"
  have nn: "no_nul ?l" and ne: "?l \<noteq> []"
    using first_word [OF w(2,1)] by auto
  have fg: "c_fgets 255 (?l @ 10 # more) = Some (?l @ [10], more)"
    by (rule fgets_line) (use line in auto)
  let ?z = "replicate (254 - length ?l) (0 :: byte)"
  have cpy: "memcpy (replicate 256 0) 0 ((?l @ [10]) @ [0]) 0 (length (?l @ [10]) + 1) = Inr (w @ line_tail 32 rest @ [10] @ 0 # ?z)"
    using line(2) by (simp add: memcpy_def)
  have len: "c_strlen (w @ line_tail 32 rest @ [10] @ 0 # ?z) 0 = Inr (Suc (length ?l))"
    using strlen_at [of "?l @ [10]" "[]" ?z] nn by (simp add: cstr_simps)
  have last: "last ?l \<noteq> 10"
    using line(1) ne last_in_set by metis
  obtain b fs offs where gf:
    "general_get_field (Some (w @ line_tail 32 rest @ [10] @ 0 # ?z)) 32 (int n) (Some (replicate n None))
      = Inr (0, Some b, Some fs)"
    and fp: "\<And>i. i < n \<Longrightarrow> fs ! i = Some (offs ! i)"
    and str: "\<And>i. i < n \<Longrightarrow> cstr (drop (offs ! i) b) = ?ws ! i"
  proof -
    obtain s' offs where gf:
      "general_get_field (Some (w @ line_tail 32 rest @ [10] @ 0 # ?z)) 32 (int n) (Some (replicate n None))
        = Inr (0, Some (w @ cut_tail 32 (n - 1) rest @ 0 # s'),
            Some (map Some offs @ drop (length offs) (replicate n None)))"
      "map (\<lambda>p. cstr (drop p (w @ cut_tail 32 (n - 1) rest @ 0 # s'))) offs = take n ?ws"
      by (rule get_field_line [of 32 w rest n "replicate n None" "[10]" ?z]) (use w last in auto)
    have lo: "length offs = n"
      using arg_cong [OF gf(2), of length] w(4) by simp
    show thesis
    proof (rule that [OF gf(1)])
      show "(map Some offs @ drop (length offs) (replicate n None)) ! i = Some (offs ! i)" if "i < n" for i
        using that lo by (simp add: nth_append)
      show "cstr (drop (offs ! i) (w @ cut_tail 32 (n - 1) rest @ 0 # s')) = ?ws ! i" if "i < n" for i
        using arg_cong [OF gf(2), of "\<lambda>xs. xs ! i"] that lo by simp
    qed
  qed
  have n1: "n - 1 < n" "n - 2 < n" "0 < n"
    using w(3) by auto
  have rel: "\<exists>b. c_snprintf (replicate 256 0) 0 256 (w @ ?ws ! i) = Inr b \<and> cstr b = w @ ?ws ! i"
    if "0 < i" "i < n" for i
  proof (rule snprintf_buffer)
    show "length (w @ ?ws ! i) < 256"
      using words_two_length [of i rest w 32] that w(4) line(2) by auto
    show "no_nul (w @ ?ws ! i)"
      using words_at [OF w(2,1), of i] that w(1,4) by (auto simp: cstr_simps field_word_def)
  qed
  have open_line: "general_os_version_con False (Some (?l @ 10 # more)) n (replicate 256 0) 256 =
      rbind (if c_atoi (?ws ! (n - 1)) = 0 \<and> 2 < n
             then c_snprintf (replicate 256 0) 0 256 (?ws ! 0 @ ?ws ! (n - 2))
             else c_snprintf (replicate 256 0) 0 256 (?ws ! 0 @ ?ws ! (n - 1)))
        (\<lambda>verbuff. Inr (0, verbuff))"
    unfolding general_os_version_con_def option.case fg prod.case cpy rbind_simps len gf(1) Let_def option.sel
    using n1 by (simp add: fp str cong: if_cong)
  show ?thesis
  proof (cases "c_atoi (?ws ! (n - 1)) = 0 \<and> 2 < n")
    case True
    with rel [of "n - 2"] obtain b where "c_snprintf (replicate 256 0) 0 256 (w @ ?ws ! (n - 2)) = Inr b"
      "cstr b = w @ ?ws ! (n - 2)"
      by auto
    then show ?thesis unfolding open_line release_word_def if_P [OF True] by simp
  next
    case False
    with rel [of "n - 1"] w(3) obtain b where "c_snprintf (replicate 256 0) 0 256 (w @ ?ws ! (n - 1)) = Inr b"
      "cstr b = w @ ?ws ! (n - 1)"
      by auto
    then show ?thesis unfolding open_line release_word_def if_not_P [OF False] by simp
  qed
qed


text \<open>\<open>general_os_version\<close> reads the first line of the release file (\<open>/etc/redhat-release\<close>
  with four words, else \<open>/etc/issue\<close> with two), joins its first word and the word of the number,
  and returns the class of that name: the text before its first dot, in lower case, looked up among
  the three known systems.\<close>

lemma general_os_version_reads:
  assumes "field_word 32 w" "line_ok 32 rest" "10 \<notin> set (w @ line_tail 32 rest)"
    "length (w @ line_tail 32 rest) \<le> 253"
    and "\<exists>more. content f = Some ((w @ line_tail 32 rest) @ 10 # more)" "n \<le> Suc (length rest)"
    and "(f, n) = (if ex (cbytes_of ''/etc/redhat-release'') then (cbytes_of ''/etc/redhat-release'', 4)
      else (cbytes_of ''/etc/issue'', 2))" "ex f"
  shows "general_os_version False ex content = Inr (os_class (w @ release_word n (w # map snd rest)))"
proof -
  obtain more where c: "content f = Some ((w @ line_tail 32 rest) @ 10 # more)"
    using assms(5) by blast
  have n: "2 \<le> n"
    using assms(7) by (auto split: if_splits)
  obtain b where b: "general_os_version_con False (content f) n (replicate 256 0) 256 = Inr (0, b)"
      "cstr b = w @ release_word n (w # map snd rest)"
    using os_version_con_reads [OF assms(1,2) n assms(6,3,4)] unfolding c by blast
  have "general_os_version False ex content
      = rbind (general_os_version_con False (content f) n (replicate 256 0) 256)
          (\<lambda>(ret, v). if ret \<noteq> 0 then Inr (-1) else Inr (os_class (cstr v)))"
  proof (cases "ex (cbytes_of ''/etc/redhat-release'')")
    case True
    with assms(7) have "f = cbytes_of ''/etc/redhat-release''" "n = 4" by simp_all
    then show ?thesis
      unfolding general_os_version_def Let_def os_class_def if_P [OF True]
      by (simp only: if_distrib [of Inr])
  next
    case False
    with assms(7) have "f = cbytes_of ''/etc/issue''" "n = 2" by simp_all
    then show ?thesis
      unfolding general_os_version_def Let_def os_class_def if_not_P [OF False]
      using assms(8) by (simp only: if_distrib [of Inr] if_True)
  qed
  then show ?thesis
    by (simp add: b)
qed

lemma general_os_version_reads_witness:
  "general_os_version False (\<lambda>f. f = cbytes_of ''/etc/redhat-release'')
     (\<lambda>f. Some (cbytes_of ''CentOS release 6.5 (Final)'' @ 10 # [])) = Inr OS_VERSION_CENTOS6"
proof -
  let ?rest = "[([], cbytes_of ''release''), ([], cbytes_of ''6.5''), ([], cbytes_of ''(Final)'')]"
  have "os_class (cbytes_of ''CentOS'' @ release_word 4 (cbytes_of ''CentOS'' # map snd ?rest)) = OS_VERSION_CENTOS6"
    by code_simp
  moreover have "cbytes_of ''CentOS'' @ line_tail 32 ?rest = cbytes_of ''CentOS release 6.5 (Final)''"
    by code_simp
  moreover have "field_word 32 (cbytes_of ''CentOS'')" "line_ok 32 ?rest"
    by (simp_all add: field_word_def line_ok_def cbytes_of_def is_blank_def cstr_simps)
  ultimately show ?thesis
    using general_os_version_reads [of "cbytes_of ''CentOS''" ?rest
      "\<lambda>f. Some (cbytes_of ''CentOS release 6.5 (Final)'' @ 10 # [])" "cbytes_of ''/etc/redhat-release''" 4
      "\<lambda>f. f = cbytes_of ''/etc/redhat-release''"]
    by (simp add: cbytes_of_def)
qed

end
