(* ===== verification/Fcp_Os.thy ===== *)
theory Fcp_Os
  imports List_Head Memory Item_Stream Gen_General "HOL-Library.Signed_Division"
begin

text \<open>
  \<open>src/src/myfcp/fcp_os.c\<close>: the login records of \<open>utmp\<close> and \<open>wtmp\<close>, paired to sessions over the
  intrusive list, and the identifiers of the machine.  A \<open>wtmp\<close> file is the list of its records; the
  files of \<open>/proc\<close> and \<open>/etc\<close> are a function from path to content.  A list node is the cell
  malloc returned for it and the list head of the caller's frame is the address 0, which no
  allocation returns.  Loops that follow pointers take a fuel, and \<open>None\<close> is a loop that has not
  ended.
\<close>

section \<open>Records\<close>

definition RUN_LVL :: nat where "RUN_LVL = 1"
definition BOOT_TIME :: nat where "BOOT_TIME = 2"
definition USER_PROCESS :: nat where "USER_PROCESS = 7"
definition DEAD_PROCESS :: nat where "DEAD_PROCESS = 8"

definition MAX_USER_NAME :: nat where "MAX_USER_NAME = 128"
definition MAX_TTY_LEN :: nat where "MAX_TTY_LEN = 128"
definition MAX_HOST_NAME :: nat where "MAX_HOST_NAME = 256"

record utmp_rec =
  ut_type :: nat
  ut_pid :: int
  ut_line :: cbytes
  ut_user :: cbytes
  ut_host :: cbytes
  tv_sec :: i32
  tv_usec :: i32

record login_info =
  pid :: int
  username :: cbytes
  logintime :: int
  tty :: cbytes
  hostname :: cbytes
  logouttime :: int

record login_list =
  list_type :: nat
  info :: login_info

definition zero_info :: login_info where
  "zero_info = \<lparr>pid = 0, username = replicate MAX_USER_NAME 0, logintime = 0,
     tty = replicate MAX_TTY_LEN 0, hostname = replicate MAX_HOST_NAME 0, logouttime = 0\<rparr>"

text \<open>\<open>tv_sec + tv_usec/1000000\<close>, an \<open>int\<close> widened to \<open>time_t\<close>.\<close>

definition rec_time :: "utmp_rec \<Rightarrow> int" where
  "rec_time r = sint (tv_sec r + word_of_int (sint (tv_usec r) sdiv 1000000))"

text \<open>The string in a field of fixed size: an unterminated one is read past its end.\<close>

definition field_str :: "cbytes \<Rightarrow> cbytes res" where
  "field_str bs = (if terminated bs then Inr (cstr bs) else Inl OutOfBounds)"

section \<open>The list of logins and logouts\<close>

type_synonym os_state = "login_list mem \<times> links"

definition login_of :: "utmp_rec \<Rightarrow> login_list res" where
  "login_of r =
    (let node = \<lparr>list_type = 0, info = zero_info\<rparr> in
     rbind
       (if ut_type r = USER_PROCESS then
          rbind (field_str (ut_user r)) (\<lambda>u.
          rbind (c_snprintf (username (info node)) 0 MAX_USER_NAME u) (\<lambda>u.
          rbind (field_str (ut_host r)) (\<lambda>h.
          rbind (c_snprintf (hostname (info node)) 0 MAX_HOST_NAME h) (\<lambda>h.
            Inr ((info node)\<lparr>username := u, hostname := h\<rparr>)))))
        else Inr (info node))
       (\<lambda>i.
     rbind (field_str (ut_line r)) (\<lambda>t.
     rbind (c_snprintf (tty i) 0 MAX_TTY_LEN t) (\<lambda>t.
       Inr (node\<lparr>list_type := ut_type r,
         info := i\<lparr>tty := t, logintime := rec_time r, logouttime := -1\<rparr>\<rparr>)))))"

fun read_logins :: "(nat \<Rightarrow> bool) \<Rightarrow> utmp_rec list \<Rightarrow> os_state \<Rightarrow> os_state res" where
  "read_logins oom [] st = Inr st"
| "read_logins oom (r # rs) (m, s) =
    (if ut_type r \<noteq> USER_PROCESS \<and> ut_type r \<noteq> DEAD_PROCESS then read_logins oom rs (m, s)
     else case mem_alloc oom \<lparr>list_type = 0, info = zero_info\<rparr> m of (pNode, m) \<Rightarrow>
       if pNode = 0 then read_logins oom rs (m, s)
       else rbind (login_of r) (\<lambda>node.
            rbind (mem_put pNode node m) (\<lambda>m.
              read_logins oom rs (m, list_add_tail pNode 0 s))))"

definition init_login_list ::
    "(nat \<Rightarrow> bool) \<Rightarrow> utmp_rec list option \<Rightarrow> os_state \<Rightarrow> (int \<times> os_state) res" where
  "init_login_list oom wtmp st =
    (case wtmp of None \<Rightarrow> Inr (-1, st)
     | Some records \<Rightarrow> rbind (read_logins oom records st) (\<lambda>st. Inr (0, st)))"

text \<open>\<open>pos->next\<close>: the node must be live.\<close>

definition node_next :: "addr \<Rightarrow> os_state \<Rightarrow> addr res" where
  "node_next pos = (\<lambda>(m, s). if pos = 0 then Inr (nxt s 0) else rbind (mem_get pos m) (\<lambda>_. Inr (nxt s pos)))"

fun exit_loop :: "nat \<Rightarrow> addr \<Rightarrow> addr \<Rightarrow> os_state \<Rightarrow> os_state option res" where
  "exit_loop 0 pos next st = Inr None"
| "exit_loop (Suc fuel) pos next (m, s) =
    (if pos = 0 then Inr (Some (m, s))
     else let s = list_del pos s in
       rbind (mem_free pos m) (\<lambda>m.
       rbind (node_next next (m, s)) (\<lambda>next'. exit_loop fuel next next' (m, s))))"

definition exit_login_list :: "nat \<Rightarrow> os_state \<Rightarrow> os_state option res" where
  "exit_login_list fuel st =
    rbind (node_next 0 st) (\<lambda>pos. rbind (node_next pos st) (\<lambda>next. exit_loop fuel pos next st))"

text \<open>
  The inner loop of \<open>os_info_logout_tty\<close> for the login \<open>pNode\<close>, already taken from the list:
  \<open>True\<close> when the callback asked to stop.
\<close>

fun find_logout ::
    "nat \<Rightarrow> (login_info \<Rightarrow> 'a \<Rightarrow> int \<times> 'a) \<Rightarrow> addr \<Rightarrow> addr \<Rightarrow> addr \<Rightarrow> os_state \<Rightarrow> 'a \<Rightarrow>
      (bool \<times> 'a \<times> os_state) option res" where
  "find_logout 0 callback pNode pos next st userarg = Inr None"
| "find_logout (Suc fuel) callback pNode pos next (m, s) userarg =
    (if pos = 0 then Inr (Some (False, userarg, m, s))
     else
       rbind (mem_get pos m) (\<lambda>pNodeout.
       rbind (mem_get pNode m) (\<lambda>node.
       if list_type pNodeout = DEAD_PROCESS \<and>
          cstr (tty (info pNodeout)) = cstr (tty (info node)) \<and>
          logintime (info node) \<le> logintime (info pNodeout)
       then
         let i = (info node)\<lparr>logouttime := logintime (info pNodeout)\<rparr> in
         rbind (mem_put pNode (node\<lparr>info := i\<rparr>) m) (\<lambda>m.
           case callback i userarg of (ret, userarg) \<Rightarrow>
           if ret < 0 then Inr (Some (True, userarg, m, s))
           else
             let s = list_del pos s in
             rbind (mem_free pNode m) (\<lambda>m.
             rbind (mem_free pos m) (\<lambda>m. Inr (Some (False, userarg, m, s)))))
       else
         rbind (node_next next (m, s)) (\<lambda>next'.
           find_logout fuel callback pNode next next' (m, s) userarg))))"

fun logout_loop ::
    "nat \<Rightarrow> (login_info \<Rightarrow> 'a \<Rightarrow> int \<times> 'a) \<Rightarrow> os_state \<Rightarrow> 'a \<Rightarrow> (int \<times> 'a \<times> os_state) option res" where
  "logout_loop 0 callback st userarg = Inr None"
| "logout_loop (Suc fuel) callback (m, s) userarg =
    (case list_pop_front 0 s of
       (None, s) \<Rightarrow> obind (exit_login_list fuel (m, s)) (\<lambda>st. Inr (Some (0, userarg, st)))
     | (Some pNode, s) \<Rightarrow>
         rbind (mem_get pNode m) (\<lambda>node.
         if list_type node \<noteq> USER_PROCESS then
           rbind (mem_free pNode m) (\<lambda>m. logout_loop fuel callback (m, s) userarg)
         else
           rbind (node_next 0 (m, s)) (\<lambda>pos.
           rbind (node_next pos (m, s)) (\<lambda>next.
           obind (find_logout fuel callback pNode pos next (m, s) userarg) (\<lambda>(halt, userarg, st).
             if halt then obind (exit_login_list fuel st) (\<lambda>st. Inr (Some (0, userarg, st)))
             else logout_loop fuel callback st userarg)))))"

definition os_info_logout_tty ::
    "nat \<Rightarrow> (nat \<Rightarrow> bool) \<Rightarrow> utmp_rec list option \<Rightarrow> (login_info \<Rightarrow> 'a \<Rightarrow> int \<times> 'a) \<Rightarrow> 'a \<Rightarrow> os_state \<Rightarrow>
      (int \<times> 'a \<times> os_state) option res" where
  "os_info_logout_tty fuel oom wtmp callback userarg = (\<lambda>(m, s).
     rbind (init_login_list oom wtmp (m, init_list_head 0 s)) (\<lambda>(ret, st).
       if ret \<noteq> 0 then Inr (Some (-1, userarg, st))
       else logout_loop fuel callback st userarg))"

section \<open>Records read one by one\<close>

fun os_info_boot_loop :: "utmp_rec list \<Rightarrow> int" where
  "os_info_boot_loop [] = -1"
| "os_info_boot_loop (r # rs) =
    (if cstr (ut_user r) = cbytes_of ''reboot'' \<and> ut_type r = BOOT_TIME then rec_time r
     else os_info_boot_loop rs)"

definition os_info_boot_time :: "utmp_rec list option \<Rightarrow> int" where
  "os_info_boot_time utmp = (case utmp of None \<Rightarrow> -1 | Some rs \<Rightarrow> os_info_boot_loop rs)"

fun os_info_shutdown_loop :: "utmp_rec list \<Rightarrow> int \<Rightarrow> int" where
  "os_info_shutdown_loop [] oldtime = oldtime"
| "os_info_shutdown_loop (r # rs) oldtime =
    os_info_shutdown_loop rs
      (if cstr (ut_user r) = cbytes_of ''shutdown'' \<and> ut_type r = RUN_LVL then rec_time r else oldtime)"

definition os_info_last_shutdow_time :: "utmp_rec list option \<Rightarrow> int" where
  "os_info_last_shutdow_time wtmp = (case wtmp of None \<Rightarrow> -1 | Some rs \<Rightarrow> os_info_shutdown_loop rs (-1))"

fun running_loop :: "(login_info \<Rightarrow> 'a \<Rightarrow> int \<times> 'a) \<Rightarrow> utmp_rec list \<Rightarrow> 'a \<Rightarrow> 'a res" where
  "running_loop callback [] userarg = Inr userarg"
| "running_loop callback (r # rs) userarg =
    (if ut_type r \<noteq> USER_PROCESS then running_loop callback rs userarg
     else
       rbind (field_str (ut_user r)) (\<lambda>u.
       rbind (c_snprintf (username zero_info) 0 MAX_USER_NAME u) (\<lambda>u.
       rbind (field_str (ut_host r)) (\<lambda>h.
       rbind (c_snprintf (hostname zero_info) 0 MAX_HOST_NAME h) (\<lambda>h.
       rbind (field_str (ut_line r)) (\<lambda>t.
       rbind (c_snprintf (tty zero_info) 0 MAX_TTY_LEN t) (\<lambda>t.
         case callback (zero_info\<lparr>username := u, hostname := h, tty := t, logintime := rec_time r,
                          logouttime := -1, pid := ut_pid r\<rparr>) userarg of
           (ret, userarg) \<Rightarrow>
             if ret < 0 then Inr userarg else running_loop callback rs userarg)))))))"

definition os_info_running_tty ::
    "utmp_rec list option \<Rightarrow> (login_info \<Rightarrow> 'a \<Rightarrow> int \<times> 'a) \<Rightarrow> 'a \<Rightarrow> (int \<times> 'a) res" where
  "os_info_running_tty utmp callback userarg =
    (case utmp of None \<Rightarrow> Inr (-1, userarg)
     | Some rs \<Rightarrow> rbind (running_loop callback rs userarg) (\<lambda>userarg. Inr (0, userarg)))"

section \<open>Identifiers\<close>

text \<open>\<open>fgets\<close> into the caller's buffer: the number of bytes is an \<open>int\<close>.\<close>

definition fgets_into :: "cbytes \<Rightarrow> u32 \<Rightarrow> cbytes \<Rightarrow> cbytes option res" where
  "fgets_into buff bufsize content =
    (if sint bufsize \<le> 0 then Inr None
     else case c_fgets (nat (sint bufsize)) content of None \<Rightarrow> Inr None
     | Some (line, _) \<Rightarrow>
         rbind (memcpy buff 0 (line @ [0]) 0 (length line + 1)) (\<lambda>buff. Inr (Some buff)))"

text \<open>\<open>if(buff[strlen(buff)-1] == c) buff[strlen(buff)-1] = 0\<close>: on an empty string the index is \<open>-1\<close>.\<close>

definition cut_last :: "byte \<Rightarrow> cbytes \<Rightarrow> cbytes res" where
  "cut_last c buff =
    rbind (c_strlen buff 0) (\<lambda>n.
      if n = 0 then Inl OutOfBounds
      else rbind (rd buff (n - 1)) (\<lambda>d. if d = c then wr buff (n - 1) 0 else Inr buff))"

datatype os_info_kind = OS_INFO_UUID | OS_INFO_BOOTID

text \<open>The last component of the result is the number of streams left open.\<close>

definition os_info ::
    "(cbytes \<Rightarrow> cbytes option) \<Rightarrow> cbytes \<Rightarrow> os_info_kind \<Rightarrow> u32 \<Rightarrow> (int \<times> cbytes \<times> nat) res" where
  "os_info fs buff type buffsize =
    (let path = (case type of OS_INFO_UUID \<Rightarrow> cbytes_of ''/proc/sys/kernel/random/uuid''
                 | OS_INFO_BOOTID \<Rightarrow> cbytes_of ''/proc/sys/kernel/random/boot_id'') in
     case fs path of None \<Rightarrow> Inr (-1, buff, 0)
     | Some content \<Rightarrow>
         rbind (fgets_into buff buffsize content) (\<lambda>r.
         case r of None \<Rightarrow> Inr (-1, buff, 1)
         | Some buff \<Rightarrow> rbind (cut_last 10 buff) (\<lambda>buff. Inr (0, buff, 1))))"

definition os_info_uuid ::
    "(cbytes \<Rightarrow> cbytes option) \<Rightarrow> cbytes option \<Rightarrow> u32 \<Rightarrow> (int \<times> cbytes option \<times> nat) res" where
  "os_info_uuid fs buff bufsize =
    (case buff of None \<Rightarrow> Inr (-1, None, 0)
     | Some b \<Rightarrow> rbind (os_info fs b OS_INFO_UUID bufsize) (\<lambda>(ret, b, open_streams). Inr (ret, Some b, open_streams)))"

definition os_info_bootid ::
    "(cbytes \<Rightarrow> cbytes option) \<Rightarrow> cbytes option \<Rightarrow> u32 \<Rightarrow> (int \<times> cbytes option \<times> nat) res" where
  "os_info_bootid fs buff bufsize =
    (case buff of None \<Rightarrow> Inr (-1, None, 0)
     | Some b \<Rightarrow> rbind (os_info fs b OS_INFO_BOOTID bufsize) (\<lambda>(ret, b, open_streams). Inr (ret, Some b, open_streams)))"

definition os_info_machine_id ::
    "(cbytes \<Rightarrow> cbytes option) \<Rightarrow> cbytes option \<Rightarrow> u32 \<Rightarrow> (int \<times> cbytes option) res" where
  "os_info_machine_id fs buff sz =
    (case buff of None \<Rightarrow> Inr (-1, None)
     | Some b \<Rightarrow>
         if sz = 0 then Inr (-1, buff)
         else case fs (cbytes_of ''/etc/machine-id'') of None \<Rightarrow> Inr (-1, buff)
         | Some content \<Rightarrow>
             rbind (fgets_into b sz content) (\<lambda>r.
             case r of None \<Rightarrow> Inr (-1, buff)
             | Some b \<Rightarrow> rbind (cut_last 0 b) (\<lambda>b. Inr (0, Some b))))"

definition os_info_version ::
    "bool \<Rightarrow> (cbytes \<Rightarrow> bool) \<Rightarrow> (cbytes \<Rightarrow> cbytes option) \<Rightarrow> int res" where
  "os_info_version oom exists_file content = general_os_version oom exists_file content"

text \<open>
  \<open>os_current_user\<close>: \<open>sysconf\<close> gives the size the password entry may need and \<open>getpwuid_r\<close>, given
  that size, its return value and the name of the entry, if there is one.
\<close>

definition os_current_user ::
    "bool \<Rightarrow> u64 \<Rightarrow> (u64 \<Rightarrow> int \<times> cbytes option) \<Rightarrow> cbytes option \<Rightarrow> u32 \<Rightarrow> (int \<times> cbytes option) res" where
  "os_current_user oom sysconf getpwuid_r name buflen =
    (case name of None \<Rightarrow> Inr (-1, None)
     | Some b \<Rightarrow>
         if buflen = 0 then Inr (-1, name)
         else
           let bufsize = (if sysconf = -1 then 16384 else sysconf) in
           if oom then Inr (-1, name)
           else case getpwuid_r bufsize of
             (ret, None) \<Rightarrow> Inr (-1, name)
           | (ret, Some pw_name) \<Rightarrow>
               rbind (c_snprintf b 0 (unat buflen) pw_name) (\<lambda>b. Inr (ret, Some b)))"

section \<open>The list of logins as a sequence\<close>

text \<open>The list holds the nodes \<open>ps\<close> with the contents \<open>cs\<close>; \<open>base\<close> is everything else in memory.\<close>

definition os_rep ::
    "(ptr \<Rightarrow> login_list option) \<Rightarrow> login_list mem \<Rightarrow> links \<Rightarrow> ptr list \<Rightarrow> login_list list \<Rightarrow> bool" where
  "os_rep base m s ps cs \<longleftrightarrow> mem_ok m \<and> ring s 0 ps \<and> map (cells m) ps = map Some cs \<and>
    (\<forall>p. p \<notin> set ps \<longrightarrow> cells m p = base p) \<and> (\<forall>p \<in> set ps. base p = None)"

lemma os_rep_facts:
  assumes "os_rep base m s ps cs"
  shows "mem_ok m" "ring s 0 ps" "distinct ps" "0 \<notin> set ps" "length ps = length cs"
    "\<And>p. p \<notin> set ps \<Longrightarrow> cells m p = base p" "\<And>p. p \<in> set ps \<Longrightarrow> base p = None"
    "\<And>p. p \<in> set ps \<Longrightarrow> cells m p \<noteq> None"
  using assms map_eq_imp_length_eq [of "cells m" ps Some cs]
  by (auto simp: os_rep_def ring_def map_eq_conv dest: arg_cong [of _ _ set])
    (metis image_iff option.distinct(1) list.set_map option.exhaust)

lemma os_rep_split:
  assumes "os_rep base m s (us @ p # vs) cs"
  obtains cu c cv where "cs = cu @ c # cv" "length cu = length us" "length cv = length vs" "cells m p = Some c"
proof -
  have e: "map Some cs = map (cells m) us @ cells m p # map (cells m) vs"
    using assms by (simp add: os_rep_def)
  then obtain cu r where cu: "cs = cu @ r" "map Some cu = map (cells m) us" "map Some r = cells m p # map (cells m) vs"
    by (auto simp: map_eq_append_conv)
  then obtain c cv where "r = c # cv" "cells m p = Some c" "map Some cv = map (cells m) vs"
    by (cases r) auto
  with cu show thesis
    using that [of cu c cv] map_eq_imp_length_eq by metis
qed

lemma node_next_rep:
  assumes "os_rep base m s ps cs" "q = 0 \<or> q \<in> set ps"
  shows "node_next q (m, s) = Inr (nxt s q)"
proof (cases "q = 0")
  case False
  then obtain v where "cells m q = Some v"
    using assms(2) os_rep_facts(8) [OF assms(1), of q] by auto
  then show ?thesis
    using False mem_get_some [OF os_rep_facts(1) [OF assms(1)]] by (simp add: node_next_def)
qed (simp add: node_next_def)

text \<open>Releasing one node of the list.\<close>

lemma os_rep_remove:
  assumes "os_rep base m s (us @ p # vs) (cu @ c # cv)" "length cu = length us"
  obtains m' where "mem_free p m = Inr m'" "os_rep base m' (list_del p s) (us @ vs) (cu @ cv)"
    "cells m' = (cells m)(p := None)"
proof -
  note r = os_rep_facts [OF assms(1)]
  obtain m' where m': "mem_free p m = Inr m'" "cells m' = (cells m)(p := None)" "mem_ok m'"
    using mem_free_some [of m p] r(1,8) by (metis in_set_conv_decomp)
  have p: "p \<notin> set us" "p \<notin> set vs"
    using r(3) by auto
  have "map (cells m) us = map Some cu \<and> map (cells m) vs = map Some cv"
    using assms by (simp add: os_rep_def append_eq_append_conv)
  with p have "map (cells m') (us @ vs) = map Some (cu @ cv)"
    unfolding m'(2) by (simp add: map_fun_upd)
  moreover have "ring (list_del p s) 0 (us @ vs)"
    by (rule ring_del) (rule r(2))
  moreover have "\<forall>q. q \<notin> set (us @ vs) \<longrightarrow> cells m' q = base q"
    using r(6,7) unfolding m'(2) by auto
  ultimately have "os_rep base m' (list_del p s) (us @ vs) (cu @ cv)"
    using m'(3) r(7) by (simp add: os_rep_def)
  with m' show thesis
    using that by blast
qed


text \<open>Changes of the node that has been taken from the list.\<close>

lemma os_rep_put_other:
  assumes "os_rep base m s ps cs" "cells m p = Some l" "p \<notin> set ps"
  obtains m' where "mem_put p l' m = Inr m'" "os_rep (base(p \<mapsto> l')) m' s ps cs" "cells m' p = Some l'"
proof -
  obtain m' where m': "mem_put p l' m = Inr m'" "cells m' = (cells m)(p \<mapsto> l')" "mem_ok m'"
    using mem_put_some [OF os_rep_facts(1) [OF assms(1)] assms(2)] by metis
  have "os_rep (base(p \<mapsto> l')) m' s ps cs"
    using assms(1,3) m'(3) by (auto simp: os_rep_def m'(2) map_fun_upd)
  with m' show thesis using that by simp
qed

lemma os_rep_free_other:
  assumes "os_rep base m s ps cs" "cells m p = Some l" "p \<notin> set ps"
  obtains m' where "mem_free p m = Inr m'" "os_rep (base(p := None)) m' s ps cs"
proof -
  obtain m' where m': "mem_free p m = Inr m'" "cells m' = (cells m)(p := None)" "mem_ok m'"
    using mem_free_some [OF os_rep_facts(1) [OF assms(1)], of p] assms(2) by auto
  have "os_rep (base(p := None)) m' s ps cs"
    using assms(1,3) m'(3) by (auto simp: os_rep_def m'(2) map_fun_upd)
  with m' show thesis using that by simp
qed

lemma ring_first: "ring s h xs \<Longrightarrow> nxt s h = hd (xs @ [h])"
  by (auto simp: ring_def dest: chain_first)

lemma ring_next: "ring s h (xs @ p # ys) \<Longrightarrow> nxt s p = hd (ys @ [h])"
  using chain_at [of s h xs p ys h] by (auto simp: ring_def)

lemma exit_loop_rep:
  assumes "os_rep base m s ps cs" "length ps < fuel"
  shows "\<exists>m' s'. exit_loop fuel (nxt s 0) (nxt s (nxt s 0)) (m, s) = Inr (Some (m', s')) \<and> os_rep base m' s' [] []"
  using assms
proof (induction ps arbitrary: m s cs fuel)
  case Nil
  then obtain f where "fuel = Suc f" by (cases fuel) auto
  moreover have "nxt s 0 = 0" using ring_first [OF os_rep_facts(2) [OF Nil.prems(1)]] by simp
  moreover have "cs = []" using os_rep_facts(5) [OF Nil.prems(1)] by simp
  ultimately show ?case using Nil.prems(1) by auto
next
  case (Cons p ps)
  obtain f where f: "fuel = Suc f" "length ps < f" using Cons.prems(2) by (cases fuel) auto
  obtain c cs' where cs: "cs = c # cs'" using os_rep_facts(5) [OF Cons.prems(1)] by (cases cs) auto
  note r = os_rep_facts [OF Cons.prems(1)]
  obtain m' where m': "mem_free p m = Inr m'" "os_rep base m' (list_del p s) ps cs'"
    using os_rep_remove [of base m s "[]" p ps "[]" c cs'] Cons.prems(1) cs by auto
  let ?s = "list_del p s"
  have first: "nxt s 0 = p" and p: "p \<noteq> 0" using ring_first [OF r(2)] r(4) by auto
  have next1: "nxt s p = nxt ?s 0"
    using ring_next [of s 0 "[]" p ps] r(2) ring_first [OF os_rep_facts(2) [OF m'(2)]] by simp
  have "nxt ?s 0 = 0 \<or> nxt ?s 0 \<in> set ps"
    using ring_ends(2) [OF os_rep_facts(2) [OF m'(2)]] by auto
  then have "node_next (nxt ?s 0) (m', ?s) = Inr (nxt ?s (nxt ?s 0))"
    by (rule node_next_rep [OF m'(2)])
  then show ?case
    using Cons.IH [OF m'(2) f(2)] p by (simp add: f(1) first next1 m'(1) Let_def)
qed

lemma exit_login_list_rep:
  assumes "os_rep base m s ps cs" "length ps < fuel"
  shows "\<exists>m' s'. exit_login_list fuel (m, s) = Inr (Some (m', s')) \<and> os_rep base m' s' [] []"
proof -
  have "nxt s 0 = 0 \<or> nxt s 0 \<in> set ps"
    using ring_ends(2) [OF os_rep_facts(2) [OF assms(1)]] by auto
  then have "node_next (nxt s 0) (m, s) = Inr (nxt s (nxt s 0))" "node_next 0 (m, s) = Inr (nxt s 0)"
    by (auto intro!: node_next_rep [OF assms(1)])
  then show ?thesis
    using exit_loop_rep [OF assms] by (simp add: exit_login_list_def)
qed

section \<open>Pairing\<close>

text \<open>The logout that ends a login: the first later record of that terminal, not before it.\<close>

definition ends :: "login_list \<Rightarrow> login_list \<Rightarrow> bool" where
  "ends l r \<longleftrightarrow> list_type r = DEAD_PROCESS \<and> cstr (tty (info r)) = cstr (tty (info l)) \<and>
     logintime (info l) \<le> logintime (info r)"

fun first_logout :: "login_list \<Rightarrow> login_list list \<Rightarrow> (login_list \<times> login_list list) option" where
  "first_logout l [] = None"
| "first_logout l (r # rs) =
    (if ends l r then Some (r, rs) else map_option (\<lambda>(x, ys). (x, r # ys)) (first_logout l rs))"

lemma first_logout_length: "first_logout l rs = Some (x, ys) \<Longrightarrow> length rs = Suc (length ys)"
  by (induction rs arbitrary: ys) (auto split: if_splits)

definition session :: "login_list \<Rightarrow> login_list \<Rightarrow> login_info" where
  "session l r = (info l)\<lparr>logouttime := logintime (info r)\<rparr>"

function sessions :: "login_list list \<Rightarrow> login_info list" where
  "sessions [] = []"
| "sessions (l # ls) =
    (if list_type l \<noteq> USER_PROCESS then sessions ls
     else case first_logout l ls of None \<Rightarrow> sessions ls
     | Some (r, ls') \<Rightarrow> session l r # sessions ls')"
  by pat_completeness auto
termination
  by (relation "measure length") (auto dest: first_logout_length)

text \<open>The logins for which the file has no logout.\<close>

function open_logins :: "login_list list \<Rightarrow> login_list list" where
  "open_logins [] = []"
| "open_logins (l # ls) =
    (if list_type l \<noteq> USER_PROCESS then open_logins ls
     else case first_logout l ls of None \<Rightarrow> l # open_logins ls
     | Some (r, ls') \<Rightarrow> open_logins ls')"
  by pat_completeness auto
termination
  by (relation "measure length") (auto dest: first_logout_length)

definition told :: "(login_info \<Rightarrow> 'a \<Rightarrow> int \<times> 'a) \<Rightarrow> login_info \<Rightarrow> 'a \<Rightarrow> bool \<times> 'a" where
  "told callback i a = (case callback i a of (ret, a) \<Rightarrow> (ret < 0, a))"

lemma find_logout_rep:
  assumes "os_rep base m s (us @ vs) (cu @ cv)" "length cu = length us"
    and "cells m p = Some l" "p \<notin> set (us @ vs)" "length vs < fuel"
  defines "q \<equiv> hd (vs @ [0])"
  shows "case first_logout l cv of
      None \<Rightarrow> find_logout fuel callback p q (nxt s q) (m, s) a = Inr (Some (False, a, m, s))
    | Some (r, cv') \<Rightarrow>
        (case callback (session l r) a of (ret, a') \<Rightarrow>
          \<exists>m' s' ps'. find_logout fuel callback p q (nxt s q) (m, s) a = Inr (Some (ret < 0, a', m', s')) \<and>
            (if ret < 0 then os_rep (base(p \<mapsto> l\<lparr>info := session l r\<rparr>)) m' s' (us @ vs) (cu @ cv)
             else os_rep (base(p := None)) m' s' ps' (cu @ cv')))"
  using assms(1-5) unfolding q_def
proof (induction vs arbitrary: us cu cv fuel)
  case Nil
  then obtain f where f: "fuel = Suc f" by (cases fuel) auto
  have "cv = []" using os_rep_facts(5) [OF Nil.prems(1)] Nil.prems(2) by simp
  then show ?case by (simp add: f)
next
  case (Cons v vs)
  obtain f where f: "fuel = Suc f" "length vs < f" using Cons.prems(5) by (cases fuel) auto
  obtain r cv' where cv: "cv = r # cv'" "cells m v = Some r"
    using os_rep_split [OF Cons.prems(1)] Cons.prems(2) by (metis append_eq_append_conv)
  note R = os_rep_facts [OF Cons.prems(1)]
  have v: "v \<noteq> 0" "v \<in> set (us @ v # vs)"
    using R(4) by auto
  have get: "mem_get v m = Inr r" "mem_get p m = Inr l"
    using mem_get_some [OF R(1)] cv(2) Cons.prems(3) by auto
  show ?case
  proof (cases "ends l r")
    case True
    obtain ret a' where cb: "callback (session l r) a = (ret, a')" by fastforce
    obtain m1 where m1: "mem_put p (l\<lparr>info := session l r\<rparr>) m = Inr m1"
        "os_rep (base(p \<mapsto> l\<lparr>info := session l r\<rparr>)) m1 s (us @ v # vs) (cu @ cv)"
        "cells m1 p = Some (l\<lparr>info := session l r\<rparr>)"
      by (rule os_rep_put_other [OF Cons.prems(1,3,4)])
    obtain m2 where m2: "mem_free p m1 = Inr m2" "os_rep (base(p := None)) m2 s (us @ v # vs) (cu @ cv)"
      by (rule os_rep_free_other [OF m1(2,3) Cons.prems(4)]) (simp add: that)
    obtain m3 where m3: "mem_free v m2 = Inr m3" "os_rep (base(p := None)) m3 (list_del v s) (us @ vs) (cu @ cv')"
      using os_rep_remove [OF m2(2) [unfolded cv(1)] Cons.prems(2)] by metis
    have step: "find_logout fuel callback p v (nxt s v) (m, s) a =
        (if ret < 0 then Inr (Some (True, a', m1, s)) else Inr (Some (False, a', m3, list_del v s)))"
      using True cb m1(1) m2(1) m3(1) v(1) get unfolding f(1) session_def
      by (simp add: ends_def Let_def)
    show ?thesis
      using True cb m1(2) m3(2) step by (auto simp: cv(1))
  next
    case False
    have q: "nxt s v = hd (vs @ [0])"
      using ring_next [of s 0 us v vs] R(2) by simp
    have "nxt s v = 0 \<or> nxt s v \<in> set (us @ v # vs)"
      unfolding q by (cases vs) auto
    then have nx: "node_next (nxt s v) (m, s) = Inr (nxt s (nxt s v))"
      by (rule node_next_rep [OF Cons.prems(1)])
    have step: "find_logout fuel callback p v (nxt s v) (m, s) a =
        find_logout f callback p (hd (vs @ [0])) (nxt s (hd (vs @ [0]))) (m, s) a"
      using False nx v(1) get unfolding f(1) q by (auto simp: ends_def)
    have IH: "case first_logout l cv' of
      None \<Rightarrow> find_logout f callback p (hd (vs @ [0])) (nxt s (hd (vs @ [0]))) (m, s) a = Inr (Some (False, a, m, s))
    | Some (r', cv'') \<Rightarrow>
        (case callback (session l r') a of (ret, a') \<Rightarrow>
          \<exists>m' s' ps'. find_logout f callback p (hd (vs @ [0])) (nxt s (hd (vs @ [0]))) (m, s) a
              = Inr (Some (ret < 0, a', m', s')) \<and>
            (if ret < 0 then os_rep (base(p \<mapsto> l\<lparr>info := session l r'\<rparr>)) m' s' ((us @ [v]) @ vs) ((cu @ [r]) @ cv')
             else os_rep (base(p := None)) m' s' ps' ((cu @ [r]) @ cv'')))"
      by (rule Cons.IH) (use Cons.prems cv f in auto)
    have hd1: "hd ((v # vs) @ [0]) = v" by simp
    show ?thesis
      using IH False unfolding hd1 step cv(1)
      by (cases "first_logout l cv'") (auto split: prod.splits, blast)
  qed
qed


lemma os_rep_pop:
  assumes "os_rep base m s (p # ps) (l # ls)"
  shows "list_pop_front 0 s = (Some p, list_del p s)" "os_rep (base(p \<mapsto> l)) m (list_del p s) ps ls"
    "mem_get p m = Inr l" "cells m p = Some l" "p \<notin> set ps" "base p = None"
proof -
  note R = os_rep_facts [OF assms]
  show pop: "list_pop_front 0 s = (Some p, list_del p s)"
    using ring_pop_front_Cons(1) [OF R(2)] .
  show c: "cells m p = Some l" and b: "base p = None" and n: "p \<notin> set ps"
    using assms R(3) by (auto simp: os_rep_def)
  show "mem_get p m = Inr l"
    by (rule mem_get_some [OF R(1) c])
  show "os_rep (base(p \<mapsto> l)) m (list_del p s) ps ls"
    using assms c n ring_pop_front_Cons(2) [OF R(2)] by (auto simp: os_rep_def)
qed

text \<open>What a run leaves behind: \<open>k\<close> cells beside \<open>base\<close>.\<close>

definition leaves :: "(ptr \<Rightarrow> login_list option) \<Rightarrow> login_list mem \<Rightarrow> nat \<Rightarrow> bool" where
  "leaves base m k \<longleftrightarrow> mem_ok m \<and> base \<subseteq>\<^sub>m cells m \<and> finite (dom (cells m) - dom base) \<and>
     card (dom (cells m) - dom base) = k"

lemma leaves_none: "os_rep base m s [] [] \<Longrightarrow> leaves base m 0"
  by (simp add: os_rep_def leaves_def fun_eq_iff [symmetric])

lemma leaves_Suc:
  assumes "leaves (base(p \<mapsto> l)) m k" "base p = None"
  shows "leaves base m (Suc k)"
proof -
  have p: "p \<in> dom (cells m)"
    using assms(1) unfolding leaves_def map_le_def by (metis domI domIff fun_upd_same)
  have "dom (cells m) - dom base = insert p (dom (cells m) - dom (base(p \<mapsto> l)))"
    using assms(2) p by auto
  moreover have "base \<subseteq>\<^sub>m cells m"
    unfolding map_le_def
  proof
    fix x assume "x \<in> dom base"
    then show "base x = cells m x"
      using assms by (cases "x = p") (auto simp: leaves_def map_le_def dest: bspec [of _ _ x])
  qed
  moreover have "finite (dom (cells m) - dom (base(p \<mapsto> l)))" "card (dom (cells m) - dom (base(p \<mapsto> l))) = k"
      "p \<notin> dom (cells m) - dom (base(p \<mapsto> l))" "mem_ok m"
    using assms(1) by (simp_all add: leaves_def)
  ultimately show ?thesis
    unfolding leaves_def by (metis card_insert_disjoint finite_insert)
qed

lemma logout_loop_rep:
  assumes "os_rep base m s ps cs" "length ps + 1 < fuel"
  shows "\<exists>m' s' k. logout_loop fuel callback (m, s) a =
      Inr (Some (0, visit (told callback) (sessions cs) a, m', s')) \<and> leaves base m' k \<and>
      k \<le> Suc (length (open_logins cs)) \<and>
      ((\<forall>i a. 0 \<le> fst (callback i a)) \<longrightarrow> k = length (open_logins cs))"
  using assms
proof (induction cs arbitrary: base m s ps fuel a rule: sessions.induct)
  case 1
  then obtain f where f: "fuel = Suc f" "0 < f" by (cases fuel) auto
  have ps: "ps = []" using os_rep_facts(5) [OF "1.prems"(1)] by simp
  with "1.prems" have rep: "os_rep base m s [] []" by simp
  obtain m' s' where "exit_login_list f (m, s) = Inr (Some (m', s'))" "os_rep base m' s' [] []"
    using exit_login_list_rep [OF rep, of f] f(2) by auto
  then show ?case
    using ring_pop_front_Nil [OF os_rep_facts(2) [OF rep]] leaves_none by (auto simp: f(1))
next
  case (2 l ls)
  obtain p ps' where ps: "ps = p # ps'" using os_rep_facts(5) [OF "2.prems"(1)] by (cases ps) auto
  obtain f where f: "fuel = Suc f" "length ps' + 1 < f" using "2.prems"(2) ps by (cases fuel) auto
  note pop = os_rep_pop [OF "2.prems"(1) [unfolded ps]]
  let ?s = "list_del p s"
  show ?case
  proof (cases "list_type l = USER_PROCESS")
    case False
    obtain m1 where m1: "mem_free p m = Inr m1" "os_rep (base(p := None)) m1 ?s ps' ls"
      by (rule os_rep_free_other [OF pop(2,4,5)]) (simp add: that)
    have "base(p := None) = base" using pop(6) by auto
    with m1 have "os_rep base m1 ?s ps' ls" by simp
    from "2.IH"(1) [OF False this f(2)] show ?thesis
      using False by (simp add: f(1) pop(1,3) m1(1))
  next
    case True
    have q: "nxt ?s 0 = hd (ps' @ [0])" by (rule ring_first [OF os_rep_facts(2) [OF pop(2)]])
    have "nxt ?s 0 = 0 \<or> nxt ?s 0 \<in> set ps'" unfolding q by (cases ps') auto
    then have nx: "node_next (nxt ?s 0) (m, ?s) = Inr (nxt ?s (nxt ?s 0))" "node_next 0 (m, ?s) = Inr (nxt ?s 0)"
      by (auto intro!: node_next_rep [OF pop(2)])
    have step: "logout_loop fuel callback (m, s) a =
        obind (find_logout f callback p (nxt ?s 0) (nxt ?s (nxt ?s 0)) (m, ?s) a) (\<lambda>(halt, a, st).
          if halt then obind (exit_login_list f st) (\<lambda>st. Inr (Some (0, a, st)))
          else logout_loop f callback st a)"
      using True by (simp add: f(1) pop(1,3) nx)
    note find = find_logout_rep [of "base(p \<mapsto> l)" m ?s "[]" ps' "[]" ls p l f callback a]
    show ?thesis
    proof (cases "first_logout l ls")
      case None
      have fl: "find_logout f callback p (nxt ?s 0) (nxt ?s (nxt ?s 0)) (m, ?s) a = Inr (Some (False, a, m, ?s))"
        using find pop(2,4,5) f(2) None q by simp
      obtain m' s' k where IH: "logout_loop f callback (m, ?s) a =
          Inr (Some (0, visit (told callback) (sessions ls) a, m', s'))" "leaves (base(p \<mapsto> l)) m' k"
          "k \<le> Suc (length (open_logins ls))"
          "(\<forall>i a. 0 \<le> fst (callback i a)) \<longrightarrow> k = length (open_logins ls)"
        using "2.IH"(2) [OF _ None pop(2) f(2), of a] True by blast
      have "leaves base m' (Suc k)" by (rule leaves_Suc [OF IH(2) pop(6)])
      then show ?thesis
        using IH True None unfolding step fl by auto
    next
      case (Some x)
      obtain r ls' where x: "x = (r, ls')" by fastforce
      obtain ret a' where cb: "callback (session l r) a = (ret, a')" by fastforce
      obtain m1 s1 ps1 where fl: "find_logout f callback p (nxt ?s 0) (nxt ?s (nxt ?s 0)) (m, ?s) a
            = Inr (Some (ret < 0, a', m1, s1))"
          "if ret < 0 then os_rep ((base(p \<mapsto> l))(p \<mapsto> l\<lparr>info := session l r\<rparr>)) m1 s1 ps' ls
           else os_rep ((base(p \<mapsto> l))(p := None)) m1 s1 ps1 ls'"
        using find pop(2,4,5) f(2) Some x q cb by (auto cong: if_cong)
      show ?thesis
      proof (cases "ret < 0")
        case True
        with fl(2) have rep: "os_rep (base(p \<mapsto> l\<lparr>info := session l r\<rparr>)) m1 s1 ps' ls" by simp
        obtain m2 s2 where m2: "exit_login_list f (m1, s1) = Inr (Some (m2, s2))"
            "os_rep (base(p \<mapsto> l\<lparr>info := session l r\<rparr>)) m2 s2 [] []"
          using exit_login_list_rep [OF rep, of f] f(2) by auto
        have "leaves base m2 (Suc 0)"
          by (rule leaves_Suc [OF leaves_none [OF m2(2)] pop(6)])
        moreover have "\<not> (\<forall>i a. 0 \<le> fst (callback i a))"
          using cb True by (metis fst_conv not_le)
        ultimately show ?thesis
          using True Some x cb m2(1) \<open>list_type l = USER_PROCESS\<close> unfolding step fl(1)
          by (auto simp: told_def)
      next
        case False
        have "(base(p \<mapsto> l))(p := None) = base" using pop(6) by auto
        with fl(2) False have rep: "os_rep base m1 s1 ps1 ls'" by simp
        have "length ps1 + 1 < f"
          using os_rep_facts(5) [OF rep] os_rep_facts(5) [OF pop(2)] first_logout_length [OF Some [unfolded x]] f(2)
          by simp
        from "2.IH"(3) [OF _ Some x [symmetric] rep this, of a'] show ?thesis
          using False Some x cb \<open>list_type l = USER_PROCESS\<close> unfolding step fl(1)
          by (simp add: told_def)
      qed
    qed
  qed
qed


section \<open>Reading the file\<close>

definition padded :: "nat \<Rightarrow> cbytes \<Rightarrow> cbytes" where
  "padded n s = s @ replicate (n - length s) 0"

definition login_cell :: "utmp_rec \<Rightarrow> login_list" where
  "login_cell r = \<lparr>list_type = ut_type r, info =
    \<lparr>pid = 0,
     username = padded MAX_USER_NAME (if ut_type r = USER_PROCESS then cstr (ut_user r) else []),
     logintime = rec_time r,
     tty = padded MAX_TTY_LEN (cstr (ut_line r)),
     hostname = padded MAX_HOST_NAME (if ut_type r = USER_PROCESS then cstr (ut_host r) else []),
     logouttime = -1\<rparr>\<rparr>"

definition rec_ok :: "utmp_rec \<Rightarrow> bool" where
  "rec_ok r \<longleftrightarrow> terminated (ut_line r) \<and> length (ut_line r) = 32 \<and> terminated (ut_user r) \<and>
     length (ut_user r) = 32 \<and> terminated (ut_host r) \<and> length (ut_host r) = 256"

fun kept :: "(nat \<Rightarrow> bool) \<Rightarrow> nat \<Rightarrow> utmp_rec list \<Rightarrow> utmp_rec list" where
  "kept oom t [] = []"
| "kept oom t (r # rs) =
    (if ut_type r \<noteq> USER_PROCESS \<and> ut_type r \<noteq> DEAD_PROCESS then kept oom t rs
     else if oom t then kept oom (Suc t) rs else r # kept oom (Suc t) rs)"

lemma kept_length: "length (kept oom t rs) \<le> length rs"
  by (induction oom t rs rule: kept.induct) auto

lemma kept_all: "(\<And>t. \<not> oom t) \<Longrightarrow>
    kept oom t rs = [r \<leftarrow> rs. ut_type r = USER_PROCESS \<or> ut_type r = DEAD_PROCESS]"
  by (induction rs arbitrary: t) auto

lemma cstr_shorter: "terminated bs \<Longrightarrow> length (cstr bs) < length bs"
  by (metis terminated_split length_append length_Cons less_add_Suc1 add_Suc_right)

lemma snprintf_padded:
  "length t < n \<Longrightarrow> c_snprintf (replicate n 0) 0 n t = Inr (padded n t)"
  by (simp add: snprintf_fits padded_def replicate_Suc [symmetric] Suc_diff_Suc del: replicate_Suc)

lemma login_of_ok:
  assumes "rec_ok r"
  shows "login_of r = Inr (login_cell r)"
proof -
  have len: "length (cstr (ut_line r)) < MAX_TTY_LEN" "length (cstr (ut_user r)) < MAX_USER_NAME"
      "length (cstr (ut_host r)) < MAX_HOST_NAME"
    using assms cstr_shorter [of "ut_line r"] cstr_shorter [of "ut_user r"] cstr_shorter [of "ut_host r"]
    by (auto simp: rec_ok_def MAX_TTY_LEN_def MAX_USER_NAME_def MAX_HOST_NAME_def)
  show ?thesis
    using assms snprintf_padded [OF len(1)] snprintf_padded [OF len(2)] snprintf_padded [OF len(3)]
    by (simp add: login_of_def rec_ok_def field_str_def zero_info_def login_cell_def) (simp add: padded_def)
qed

lemma read_logins_rep:
  assumes "os_rep base m s ps cs" "\<forall>r \<in> set rs. rec_ok r"
  shows "\<exists>m' s' ps'. read_logins oom rs (m, s) = Inr (m', s') \<and>
    os_rep base m' s' ps' (cs @ map login_cell (kept oom (allocs m) rs))"
  using assms
proof (induction rs arbitrary: m s ps cs)
  case (Cons r rs)
  note R = os_rep_facts [OF Cons.prems(1)]
  show ?case
  proof (cases "ut_type r \<noteq> USER_PROCESS \<and> ut_type r \<noteq> DEAD_PROCESS")
    case True
    then show ?thesis using Cons by auto
  next
    case False
    let ?n = "\<lparr>list_type = 0, info = zero_info\<rparr>"
    show ?thesis
    proof (cases "oom (allocs m)")
      case True
      obtain m1 where m1: "mem_alloc oom ?n m = (0, m1)" "cells m1 = cells m" "allocs m1 = Suc (allocs m)" "mem_ok m1"
        using mem_alloc_none [of m oom, OF R(1) True] by metis
      have "os_rep base m1 s ps cs"
        using Cons.prems(1) m1 by (simp add: os_rep_def)
      from Cons.IH [OF this] show ?thesis
        using False True Cons.prems(2) m1 by auto
    next
      case ok: False
      obtain p m1 where m1: "mem_alloc oom ?n m = (p, m1)" "0 < p" "cells m p = None"
          "cells m1 = (cells m)(p \<mapsto> ?n)" "allocs m1 = Suc (allocs m)" "mem_ok m1"
        using mem_alloc_some [OF R(1), of oom ?n] ok by metis
      obtain m2 where m2: "mem_put p (login_cell r) m1 = Inr m2" "cells m2 = (cells m1)(p \<mapsto> login_cell r)"
          "allocs m2 = allocs m1" "mem_ok m2"
        using mem_put_some [OF m1(6), of p] m1(4) by (metis fun_upd_same)
      have p: "p \<notin> set ps" using R(8) m1(3) by blast
      have c: "cells m2 = (cells m)(p \<mapsto> login_cell r)" using m1(4) m2(2) by simp
      have "base p = None" using R(6) [OF p] m1(3) by simp
      then have "os_rep base m2 (list_add_tail p 0 s) (ps @ [p]) (cs @ [login_cell r])"
        using Cons.prems(1) p m1(2) m2(4) ring_add_tail [OF R(2), of p]
        by (auto simp: os_rep_def c map_fun_upd)
      from Cons.IH [OF this] show ?thesis
        using False ok Cons.prems(2) m1 m2 login_of_ok [of r] by auto
    qed
  qed
qed auto

lemma logout_tty_run:
  fixes oom :: "nat \<Rightarrow> bool"
  assumes "mem_ok m" "\<forall>r \<in> set recs. rec_ok r" "length recs + 1 < fuel"
  defines "cs \<equiv> map login_cell (kept oom (allocs m) recs)"
  shows "\<exists>m' s' k. os_info_logout_tty fuel oom (Some recs) callback a (m, s) =
      Inr (Some (0, visit (told callback) (sessions cs) a, m', s')) \<and> leaves (cells m) m' k \<and>
      k \<le> Suc (length (open_logins cs)) \<and>
      ((\<forall>i a. 0 \<le> fst (callback i a)) \<longrightarrow> k = length (open_logins cs))"
proof -
  have "os_rep (cells m) m (init_list_head 0 s) [] []"
    using assms(1) ring_init by (simp add: os_rep_def)
  from read_logins_rep [OF this assms(2), of oom] obtain m1 s1 ps where
    r: "read_logins oom recs (m, init_list_head 0 s) = Inr (m1, s1)" "os_rep (cells m) m1 s1 ps cs"
    unfolding cs_def by auto
  have "length ps + 1 < fuel"
    using os_rep_facts(5) [OF r(2)] kept_length [of oom "allocs m" recs] assms(3) by (simp add: cs_def)
  from logout_loop_rep [OF r(2) this, of callback a] show ?thesis
    by (simp add: os_info_logout_tty_def init_login_list_def r(1))
qed

text \<open>C22: \<open>os_info_logout_tty\<close> refines the pairing of logins with logouts: on a \<open>wtmp\<close> file it
  returns 0, whatever allocations fail, having called back once for each session in the order of the
  logins, where a session is a login and the first later logout of the same terminal that no earlier
  login has taken, until the callback returns a negative value; as many loop steps as the file has
  records, and two more, are enough.\<close>

theorem os_info_logout_tty_sessions:
  assumes "mem_ok m" "\<forall>r \<in> set recs. rec_ok r" "length recs + 1 < fuel"
  shows "\<exists>st. os_info_logout_tty fuel oom (Some recs) callback a (m, s) =
    Inr (Some (0, visit (told callback) (sessions (map login_cell (kept oom (allocs m) recs))) a, st))"
  using logout_tty_run [OF assms, of oom callback a s] by blast

text \<open>C23: \<open>os_info_logout_tty\<close> leaks: a node for every login that has no logout in the file (the
  sessions still open), and never more than one beyond these when the callback stops it.\<close>

theorem os_info_logout_tty_leak:
  assumes "mem_ok m" "\<forall>r \<in> set recs. rec_ok r" "length recs + 1 < fuel"
  shows "\<exists>a' m' s' k. os_info_logout_tty fuel oom (Some recs) callback a (m, s) = Inr (Some (0, a', m', s')) \<and>
    leaves (cells m) m' k \<and>
    k \<le> Suc (length (open_logins (map login_cell (kept oom (allocs m) recs)))) \<and>
    ((\<forall>i a. 0 \<le> fst (callback i a)) \<longrightarrow>
      k = length (open_logins (map login_cell (kept oom (allocs m) recs))))"
  using logout_tty_run [OF assms, of oom callback a s] by blast

definition sample_rec :: "nat \<Rightarrow> string \<Rightarrow> i32 \<Rightarrow> utmp_rec" where
  "sample_rec type line sec = \<lparr>ut_type = type, ut_pid = 1, ut_line = padded 32 (cbytes_of line),
     ut_user = padded 32 (cbytes_of ''root''), ut_host = replicate 256 0, tv_sec = sec, tv_usec = 0\<rparr>"

definition sample_wtmp :: "utmp_rec list" where
  "sample_wtmp = [sample_rec USER_PROCESS ''tty1'' 5, sample_rec USER_PROCESS ''tty2'' 6,
     sample_rec DEAD_PROCESS ''tty1'' 9]"

lemma sample_wtmp_ok: "\<forall>r \<in> set sample_wtmp. rec_ok r"
  by (simp add: sample_wtmp_def sample_rec_def rec_ok_def padded_def terminated_def cbytes_of_def)

lemma os_info_logout_tty_sessions_witness:
  "\<exists>st. os_info_logout_tty 5 (\<lambda>_. False) (Some sample_wtmp) (\<lambda>i a. (0, a @ [(logintime i, logouttime i)])) []
      (\<lparr>cells = Map.empty, allocs = 0\<rparr>, \<lparr>prv = id, nxt = id\<rparr>) = Inr (Some (0, [(5, 9)], st))"
proof -
  let ?cb = "\<lambda>i a. (0 :: int, a @ [(logintime i, logouttime i)])"
  have "visit (told ?cb) (sessions (map login_cell (kept (\<lambda>_. False) 0 sample_wtmp))) [] = [(5, 9)]"
    by code_simp
  then show ?thesis
    using os_info_logout_tty_sessions [OF _ sample_wtmp_ok, of "\<lparr>cells = Map.empty, allocs = 0\<rparr>" 5
      "\<lambda>_. False" ?cb "[]" "\<lparr>prv = id, nxt = id\<rparr>"]
    by (simp add: mem_ok_def sample_wtmp_def)
qed

lemma os_info_logout_tty_leak_witness:
  "\<exists>m' s'. os_info_logout_tty 5 (\<lambda>_. False) (Some sample_wtmp) (\<lambda>i a. (0, a)) ()
      (\<lparr>cells = Map.empty, allocs = 0\<rparr>, \<lparr>prv = id, nxt = id\<rparr>) = Inr (Some (0, (), m', s')) \<and>
    leaves Map.empty m' 1"
proof -
  have "length (open_logins (map login_cell (kept (\<lambda>_. False) 0 sample_wtmp))) = 1"
    by code_simp
  then show ?thesis
    using os_info_logout_tty_leak [OF _ sample_wtmp_ok, of "\<lparr>cells = Map.empty, allocs = 0\<rparr>" 5
      "\<lambda>_. False" "\<lambda>i a. (0, a)" "()" "\<lparr>prv = id, nxt = id\<rparr>"]
    by (simp add: mem_ok_def sample_wtmp_def)
qed

section \<open>Records read one by one\<close>

lemma boot_loop_first:
  "os_info_boot_loop rs =
    (case filter (\<lambda>r. cstr (ut_user r) = cbytes_of ''reboot'' \<and> ut_type r = BOOT_TIME) rs of
       [] \<Rightarrow> -1 | r # _ \<Rightarrow> rec_time r)"
  by (induction rs) auto

lemma shutdown_loop_last:
  "os_info_shutdown_loop rs t =
    last (t # map rec_time (filter (\<lambda>r. cstr (ut_user r) = cbytes_of ''shutdown'' \<and> ut_type r = RUN_LVL) rs))"
  by (induction rs arbitrary: t) auto

definition running_info :: "utmp_rec \<Rightarrow> login_info" where
  "running_info r = (info (login_cell r))\<lparr>pid := ut_pid r\<rparr>"

lemma running_loop_visits:
  assumes "\<forall>r \<in> set rs. rec_ok r"
  shows "running_loop callback rs a =
    Inr (visit (told callback) (map running_info (filter (\<lambda>r. ut_type r = USER_PROCESS) rs)) a)"
  using assms
proof (induction rs arbitrary: a)
  case (Cons r rs)
  show ?case
  proof (cases "ut_type r = USER_PROCESS")
    case True
    have ok: "rec_ok r" using Cons.prems by simp
    have len: "length (cstr (ut_line r)) < MAX_TTY_LEN" "length (cstr (ut_user r)) < MAX_USER_NAME"
        "length (cstr (ut_host r)) < MAX_HOST_NAME"
      using ok cstr_shorter [of "ut_line r"] cstr_shorter [of "ut_user r"] cstr_shorter [of "ut_host r"]
      by (auto simp: rec_ok_def MAX_TTY_LEN_def MAX_USER_NAME_def MAX_HOST_NAME_def)
    have info: "zero_info\<lparr>username := padded MAX_USER_NAME (cstr (ut_user r)),
        hostname := padded MAX_HOST_NAME (cstr (ut_host r)), tty := padded MAX_TTY_LEN (cstr (ut_line r)),
        logintime := rec_time r, logouttime := -1, pid := ut_pid r\<rparr> = running_info r"
      using True by (simp add: running_info_def login_cell_def zero_info_def)
    have z: "username zero_info = replicate MAX_USER_NAME 0" "hostname zero_info = replicate MAX_HOST_NAME 0"
        "tty zero_info = replicate MAX_TTY_LEN 0"
      by (simp_all add: zero_info_def)
    obtain ret a' where cb: "callback (running_info r) a = (ret, a')" by fastforce
    have "running_loop callback (r # rs) a = (if ret < 0 then Inr a' else running_loop callback rs a')"
      using True ok cb snprintf_padded [OF len(1)] snprintf_padded [OF len(2)] snprintf_padded [OF len(3)]
      by (simp add: field_str_def rec_ok_def z info)
    then show ?thesis
      using True cb Cons.IH [of a'] Cons.prems by (simp add: told_def)
  qed (use Cons in auto)
qed simp

section \<open>Identifiers\<close>

lemma sint_small:
  assumes "unat (n :: u32) < 2 ^ 31"
  shows "sint n = int (unat n)"
proof -
  have "uint n < 2 ^ 31"
    using assms by (metis nat_less_numeral_power_cancel_iff unat_eq_nat_uint)
  then have "sint n = uint n"
    using signed_take_bit_int_eq_self [of 31 "uint n"] uint_ge_0 [of n]
    by (simp only: sint_uint len_of_finite_2_def) (simp del: uint_ge_0)
  then show ?thesis by (rule trans [OF _ uint_nat])
qed

lemma fgets_into_line:
  assumes "10 \<notin> set l" "length l + 1 < unat n" "unat n \<le> length buff" "unat n < 2 ^ 31"
  shows "fgets_into buff n (l @ 10 # tl0) = Inr (Some (l @ 10 # 0 # drop (length l + 2) buff))"
proof -
  have n: "sint n = int (unat n)"
    by (rule sint_small [OF assms(4)])
  have pos: "\<not> int (unat n) \<le> 0"
    using assms(2) by linarith
  have "c_fgets (unat n) (l @ 10 # tl0) = Some (l @ [10], tl0)"
    using assms(1,2) by (intro fgets_line) auto
  then show ?thesis
    using assms(2,3) pos unfolding fgets_into_def n nat_int by (simp del: of_nat_unat add: memcpy_def)
qed

lemma cut_last_line:
  assumes "no_nul (l @ [d])"
  shows "cut_last c ((l @ [d]) @ 0 # r) = Inr (l @ (if d = c then 0 else d) # 0 # r)"
  using strlen_at [OF assms, of "[]" r]
  by (simp add: cut_last_def rd_def wr_def nth_append list_update_append)

text \<open>Reading an identifier that stands on a line of its own: \<open>os_info_uuid\<close> and
  \<open>os_info_bootid\<close> return it without the newline but leave their stream open, while
  \<open>os_info_machine_id\<close>, whose test compares with NUL, returns it with the newline.\<close>

theorem os_info_identifiers:
  assumes "no_nul l" "10 \<notin> set l" "length l + 1 < unat n" "unat n \<le> length buff" "unat n < 2 ^ 31"
    and "fs (cbytes_of ''/proc/sys/kernel/random/uuid'') = Some (l @ 10 # tl0)"
    and "fs (cbytes_of ''/proc/sys/kernel/random/boot_id'') = Some (l @ 10 # tl0)"
    and "fs (cbytes_of ''/etc/machine-id'') = Some (l @ 10 # tl0)"
  shows "os_info_uuid fs (Some buff) n = Inr (0, Some (l @ 0 # 0 # drop (length l + 2) buff), 1) \<and>
    os_info_bootid fs (Some buff) n = Inr (0, Some (l @ 0 # 0 # drop (length l + 2) buff), 1) \<and>
    os_info_machine_id fs (Some buff) n = Inr (0, Some (l @ 10 # 0 # drop (length l + 2) buff))"
proof -
  note g = fgets_into_line [OF assms(2-5)]
  have nn: "no_nul (l @ [10])" using assms(1) by (simp add: cstr_simps)
  have n: "n \<noteq> 0" using assms(3) by auto
  have cut: "cut_last 10 (l @ 10 # 0 # r) = Inr (l @ 0 # 0 # r)"
      "cut_last 0 (l @ 10 # 0 # r) = Inr (l @ 10 # 0 # r)" for r
    using cut_last_line [OF nn] by simp_all
  show ?thesis
    using n by (simp add: os_info_uuid_def os_info_bootid_def os_info_machine_id_def os_info_def assms(6-8) g cut)
qed

lemma os_info_identifiers_witness:
  "let fs = (\<lambda>_. Some (cbytes_of ''ab12'' @ [10])) in
    os_info_uuid fs (Some (replicate 34 0)) 34 = Inr (0, Some (cbytes_of ''ab12'' @ replicate 30 0), 1) \<and>
    os_info_machine_id fs (Some (replicate 34 0)) 34 = Inr (0, Some (cbytes_of ''ab12'' @ 10 # replicate 29 0))"
proof -
  have "no_nul (cbytes_of ''ab12'')" "10 \<notin> set (cbytes_of ''ab12'')" "length (cbytes_of ''ab12'') = 4"
    by (simp_all add: cbytes_of_def cstr_simps)
  moreover have "(0::byte) # 0 # replicate 28 0 = replicate 30 0" "(0::byte) # replicate 28 0 = replicate 29 0"
    by (simp_all add: eval_nat_numeral)
  ultimately show ?thesis
    using os_info_identifiers [of "cbytes_of ''ab12''" 34 "replicate 34 0" "\<lambda>_. Some (cbytes_of ''ab12'' @ [10])" "[]"]
    by (simp add: Let_def)
qed

text \<open>An empty identifier is an access before the buffer.\<close>

lemma os_info_empty:
  assumes "0 < length buff" "content \<noteq> []"
  shows "os_info (\<lambda>_. Some content) buff type 1 = Inl OutOfBounds"
proof -
  have "fgets_into buff 1 content = Inr (Some (0 # drop 1 buff))"
    using assms by (simp add: fgets_into_def c_fgets_def memcpy_def Let_def Suc_le_eq)
  moreover have "cut_last 10 (0 # drop 1 buff) = Inl OutOfBounds"
    using strlen_at [of "[]" "[]" "drop 1 buff"] by (simp add: cut_last_def cstr_simps)
  ultimately show ?thesis by (simp add: os_info_def)
qed

end
