(* ===== verification/Fcp_Signal.thy ===== *)
theory Fcp_Signal
  imports Prelude
begin

text \<open>
  The signal utilities of \<open>src/src/myfcp/fcp_signal.c\<close>.  The state is the process's (the
  disposition of each signal and the blocked set) together with the file's two static
  variables, \<open>g_oldsig\<close> and \<open>g_promasksig\<close>.  Which signals \<open>sigaction\<close> and \<open>sigaddset\<close>
  accept is the kernel's and the C library's (\<open>SIGKILL\<close> and \<open>SIGSTOP\<close> cannot be caught,
  glibc reserves two): the two predicates of a record \<open>sig_os\<close>.  The blocked set keeps its
  history, because a signal that is unblocked for a moment is delivered in that moment.
\<close>

section \<open>Model\<close>

definition NSIG :: int where "NSIG = 65"

datatype 'h sig_handler = SIG_DFL | SIG_IGN | Handler 'h

record 'h sigaction =
  sa_handler :: "'h sig_handler"
  sa_restart :: bool
  sa_mask :: "int set"

record 'h signal_save =
  sv_inited :: bool
  oldsig :: "'h sigaction"

record signal_promask =
  pm_inited :: bool
  promasksig :: "int set"

record sig_os =
  can_catch :: "int \<Rightarrow> bool"
  can_add :: "int \<Rightarrow> bool"
  can_block :: "int \<Rightarrow> bool"

record 'h sig_state =
  disposition :: "int \<Rightarrow> 'h sigaction"
  blocked :: "int set"
  history :: "int set list"
  g_oldsig :: "int \<Rightarrow> 'h signal_save"
  g_promasksig :: signal_promask

text \<open>\<open>sigaction(sig, act, oldact)\<close>: the old disposition and the new state, or a failure.\<close>

definition os_sigaction ::
    "sig_os \<Rightarrow> int \<Rightarrow> 'h sigaction \<Rightarrow> 'h sig_state \<Rightarrow> ('h sigaction \<times> 'h sig_state) option" where
  "os_sigaction os sig act s =
    (if can_catch os sig
     then Some (disposition s sig, s\<lparr>disposition := (disposition s)(sig := act)\<rparr>)
     else None)"

text \<open>\<open>sigprocmask\<close> with \<open>SIG_BLOCK\<close> and \<open>SIG_UNBLOCK\<close>; the kernel ignores the signals that
  cannot be blocked.\<close>

definition os_block :: "sig_os \<Rightarrow> int set \<Rightarrow> 'h sig_state \<Rightarrow> 'h sig_state" where
  "os_block os S s =
    (let b = blocked s \<union> {i \<in> S. can_block os i} in s\<lparr>blocked := b, history := b # history s\<rparr>)"

definition os_unblock :: "int set \<Rightarrow> 'h sig_state \<Rightarrow> 'h sig_state" where
  "os_unblock S s = (let b = blocked s - S in s\<lparr>blocked := b, history := b # history s\<rparr>)"

fun ignore_loop :: "sig_os \<Rightarrow> int list \<Rightarrow> 'h sig_state \<Rightarrow> 'h sig_state" where
  "ignore_loop os [] s = s"
| "ignore_loop os (i # is) s =
    (case os_sigaction os i \<lparr>sa_handler = SIG_IGN, sa_restart = False, sa_mask = {}\<rparr> s of
       None \<Rightarrow> ignore_loop os is s
     | Some (_, s) \<Rightarrow> ignore_loop os is s)"

definition sigutil_ignore_all_sig :: "sig_os \<Rightarrow> 'h sig_state \<Rightarrow> int \<times> 'h sig_state" where
  "sigutil_ignore_all_sig os s = (0, ignore_loop os [1..NSIG - 1] s)"

text \<open>\<open>sigfillset\<close>: all the signals \<open>sigaddset\<close> accepts.\<close>

definition os_fillset :: "sig_os \<Rightarrow> int set" where
  "os_fillset os = {i \<in> {1..NSIG - 1}. can_add os i}"

text \<open>The handler may also be one of the constants; \<open>NULL\<close> is \<open>SIG_DFL\<close>.\<close>

definition sigutil_sig_add :: "sig_os \<Rightarrow> int \<Rightarrow> 'h sig_handler \<Rightarrow> 'h sig_state \<Rightarrow> int \<times> 'h sig_state" where
  "sigutil_sig_add os sig handler s =
    (if sig < 1 \<or> sig \<ge> NSIG then (-1, s)
     else
       let sa = \<lparr>sa_handler = handler, sa_restart = True, sa_mask = os_fillset os\<rparr>
       in case os_sigaction os sig sa s of
            None \<Rightarrow> (-1, s)
          | Some (old, s) \<Rightarrow>
              (0, s\<lparr>g_oldsig := (g_oldsig s)(sig := \<lparr>sv_inited = True, oldsig = old\<rparr>)\<rparr>))"

definition sigutil_sig_del :: "sig_os \<Rightarrow> int \<Rightarrow> 'h sig_state \<Rightarrow> int \<times> 'h sig_state" where
  "sigutil_sig_del os sig s =
    (if sig < 1 \<or> sig \<ge> NSIG then (-1, s)
     else if \<not> sv_inited (g_oldsig s sig) then (0, s)
     else case os_sigaction os sig (oldsig (g_oldsig s sig)) s of
            None \<Rightarrow> (-1, s)
          | Some (_, s) \<Rightarrow>
              (0, s\<lparr>g_oldsig := (g_oldsig s)(sig := (g_oldsig s sig)\<lparr>sv_inited := False\<rparr>)\<rparr>))"

fun delall_loop :: "sig_os \<Rightarrow> int list \<Rightarrow> 'h sig_state \<Rightarrow> 'h sig_state" where
  "delall_loop os [] s = s"
| "delall_loop os (i # is) s = delall_loop os is (snd (sigutil_sig_del os i s))"

definition sigutil_sig_delall :: "sig_os \<Rightarrow> 'h sig_state \<Rightarrow> int \<times> 'h sig_state" where
  "sigutil_sig_delall os s = (0, delall_loop os [1..NSIG - 1] s)"

definition sigutil_block_sig :: "sig_os \<Rightarrow> int \<Rightarrow> 'h sig_state \<Rightarrow> int \<times> 'h sig_state" where
  "sigutil_block_sig os signum s =
    (if signum < 1 \<or> signum \<ge> NSIG then (-1, s)
     else
       let s = (if \<not> pm_inited (g_promasksig s)
                then s\<lparr>g_promasksig := \<lparr>pm_inited = True, promasksig = {}\<rparr>\<rparr> else s)
       in if signum \<in> promasksig (g_promasksig s) then (0, s)
          else if \<not> can_add os signum then (-1, s)
          else
            let s = s\<lparr>g_promasksig := (g_promasksig s)
                        \<lparr>promasksig := insert signum (promasksig (g_promasksig s))\<rparr>\<rparr>
            in (0, os_block os (promasksig (g_promasksig s)) s))"

definition sigutil_unblock_sig :: "sig_os \<Rightarrow> int \<Rightarrow> 'h sig_state \<Rightarrow> int \<times> 'h sig_state" where
  "sigutil_unblock_sig os signum s =
    (if signum < 1 \<or> signum \<ge> NSIG then (-1, s)
     else if \<not> pm_inited (g_promasksig s) then (-1, s)
     else if signum \<notin> promasksig (g_promasksig s) then (0, s)
     else
       let s = os_unblock (promasksig (g_promasksig s)) s;
           (ret, s) = (if can_add os signum
                       then (0, s\<lparr>g_promasksig := (g_promasksig s)
                                    \<lparr>promasksig := promasksig (g_promasksig s) - {signum}\<rparr>\<rparr>)
                       else (-1, s))
       in (ret, os_block os (promasksig (g_promasksig s)) s))"

section \<open>Handlers\<close>

text \<open>The handlers the file has replaced and can restore.\<close>

definition original :: "'h sig_state \<Rightarrow> int \<Rightarrow> 'h sigaction" where
  "original s i = (if sv_inited (g_oldsig s i) then oldsig (g_oldsig s i) else disposition s i)"

lemma sig_del_original: "original (snd (sigutil_sig_del os sig s)) = original s"
  by (auto simp: sigutil_sig_del_def os_sigaction_def original_def fun_eq_iff)

lemma sig_del_inited:
  "sv_inited (g_oldsig (snd (sigutil_sig_del os sig s)) i) \<longleftrightarrow>
    sv_inited (g_oldsig s i) \<and> (i = sig \<and> 1 \<le> sig \<and> sig < NSIG \<longrightarrow> \<not> can_catch os sig)"
  by (auto simp: sigutil_sig_del_def os_sigaction_def)

lemma sig_add_inited:
  "sv_inited (g_oldsig (snd (sigutil_sig_add os sig h s)) i) \<longleftrightarrow>
    sv_inited (g_oldsig s i) \<or> i = sig \<and> 1 \<le> sig \<and> sig < NSIG \<and> can_catch os sig"
  by (auto simp: sigutil_sig_add_def os_sigaction_def Let_def)

lemma delall_original: "original (delall_loop os is s) = original s"
  by (induction "is" arbitrary: s) (simp_all add: sig_del_original)

lemma delall_inited:
  "sv_inited (g_oldsig (delall_loop os is s) i) \<longleftrightarrow>
    sv_inited (g_oldsig s i) \<and> (i \<in> set is \<and> 1 \<le> i \<and> i < NSIG \<longrightarrow> \<not> can_catch os i)"
  by (induction "is" arbitrary: s) (auto simp: sig_del_inited)

text \<open>A call for \<open>sig\<close> can succeed.\<close>

definition catchable :: "sig_os \<Rightarrow> int \<Rightarrow> bool" where
  "catchable os sig \<longleftrightarrow> 1 \<le> sig \<and> sig < NSIG \<and> can_catch os sig"

definition add_all :: "sig_os \<Rightarrow> (int \<times> 'h sig_handler) list \<Rightarrow> 'h sig_state \<Rightarrow> 'h sig_state" where
  "add_all os hs s = fold (\<lambda>(sig, h) s. snd (sigutil_sig_add os sig h s)) hs s"

text \<open>What the calls of a list have installed for a signal, one after the other.\<close>

definition installed :: "sig_os \<Rightarrow> (int \<times> 'h sig_handler) list \<Rightarrow> int \<Rightarrow> 'h sigaction list" where
  "installed os hs i =
    [\<lparr>sa_handler = h, sa_restart = True, sa_mask = os_fillset os\<rparr>. (sig, h) \<leftarrow> hs, sig = i \<and> catchable os i]"

lemma sig_add_at:
  "disposition (snd (sigutil_sig_add os sig h s)) i =
    (if i = sig \<and> catchable os sig then \<lparr>sa_handler = h, sa_restart = True, sa_mask = os_fillset os\<rparr> else disposition s i)"
  "g_oldsig (snd (sigutil_sig_add os sig h s)) i =
    (if i = sig \<and> catchable os sig then \<lparr>sv_inited = True, oldsig = disposition s i\<rparr> else g_oldsig s i)"
  by (auto simp: sigutil_sig_add_def os_sigaction_def catchable_def Let_def)

lemma add_all_at:
  "disposition (add_all os hs s) i = last (disposition s i # installed os hs i) \<and>
   g_oldsig (add_all os hs s) i =
     (if installed os hs i = [] then g_oldsig s i
      else \<lparr>sv_inited = True, oldsig = last (disposition s i # butlast (installed os hs i))\<rparr>)"
proof (induction hs rule: rev_induct)
  case (snoc p hs)
  obtain sig h where p: "p = (sig, h)" by fastforce
  have "add_all os (hs @ [p]) s = snd (sigutil_sig_add os sig h (add_all os hs s))"
    by (simp add: add_all_def p)
  then show ?case
    using snoc by (simp add: sig_add_at p installed_def butlast_append)
qed (simp add: add_all_def installed_def)

lemma installed_none: "\<not> catchable os i \<Longrightarrow> installed os hs i = []"
  by (auto simp: installed_def)

lemma installed_once:
  assumes "distinct (map fst hs)"
  shows "butlast (installed os hs i) = []"
  using assms
proof (induction hs)
  case (Cons p hs)
  obtain sig h where p: "p = (sig, h)" by fastforce
  have "installed os hs sig = []" using Cons.prems p by (force simp: installed_def)
  then show ?case using Cons p by (auto simp: installed_def)
qed (simp add: installed_def)

text \<open>Deleting all handlers puts back what the last call for each signal had replaced.\<close>

lemma add_all_delall:
  fixes s :: "'h sig_state" and hs :: "(int \<times> 'h sig_handler) list" and os :: sig_os
  assumes "\<forall>i. \<not> sv_inited (g_oldsig s i)"
  defines "t \<equiv> snd (sigutil_sig_delall os (add_all os hs s))"
  shows "disposition t i = last (disposition s i # butlast (installed os hs i)) \<and> \<not> sv_inited (g_oldsig t i)"
proof -
  have c: "sv_inited (g_oldsig (add_all os hs s) i) \<Longrightarrow> 1 \<le> i \<and> i < NSIG \<and> can_catch os i"
    using add_all_at [of os hs s i] installed_none [of os i hs] assms(1) by (auto simp: catchable_def split: if_splits)
  then have clear: "\<not> sv_inited (g_oldsig t i)"
    by (auto simp: t_def sigutil_sig_delall_def delall_inited)
  have "original t i = original (add_all os hs s) i"
    by (simp add: t_def sigutil_sig_delall_def delall_original)
  with clear show ?thesis
    using add_all_at [of os hs s i] assms(1) by (simp add: original_def split: if_splits)
qed

section \<open>The blocked set\<close>

text \<open>What the file believes to be blocked is blocked, as far as the kernel blocks it.\<close>

definition mask_ok :: "sig_os \<Rightarrow> 'h sig_state \<Rightarrow> bool" where
  "mask_ok os s \<longleftrightarrow>
    (pm_inited (g_promasksig s) \<longrightarrow>
      (\<forall>i \<in> promasksig (g_promasksig s). can_add os i \<and> 1 \<le> i \<and> i < NSIG \<and> (can_block os i \<longrightarrow> i \<in> blocked s)))"

lemma block_ok: "mask_ok os s \<Longrightarrow> mask_ok os (snd (sigutil_block_sig os i s))"
  by (auto simp: mask_ok_def sigutil_block_sig_def os_block_def Let_def)

lemma unblock_ok: "mask_ok os s \<Longrightarrow> mask_ok os (snd (sigutil_unblock_sig os i s))"
  by (auto simp: mask_ok_def sigutil_unblock_sig_def os_block_def os_unblock_def Let_def)

lemma unblock_exact:
  assumes "mask_ok os s" and "pm_inited (g_promasksig s)" and "i \<in> promasksig (g_promasksig s)"
  shows "fst (sigutil_unblock_sig os i s) = 0 \<and>
    blocked (snd (sigutil_unblock_sig os i s)) = blocked s - {i} - {j \<in> promasksig (g_promasksig s). \<not> can_block os j}"
proof -
  have "1 \<le> i" "i < NSIG" "can_add os i" using assms by (auto simp: mask_ok_def)
  then show ?thesis
    using assms by (auto simp: mask_ok_def sigutil_unblock_sig_def os_block_def os_unblock_def Let_def)
qed

section \<open>Reachable states\<close>

text \<open>The calls of the exported functions.\<close>

datatype 'h sig_call =
    Ignore_all | Add int "'h sig_handler" | Del int | Delall | Block int | Unblock int

fun sig_exec :: "sig_os \<Rightarrow> 'h sig_call \<Rightarrow> 'h sig_state \<Rightarrow> 'h sig_state" where
  "sig_exec os Ignore_all s = snd (sigutil_ignore_all_sig os s)"
| "sig_exec os (Add sig h) s = snd (sigutil_sig_add os sig h s)"
| "sig_exec os (Del sig) s = snd (sigutil_sig_del os sig s)"
| "sig_exec os Delall s = snd (sigutil_sig_delall os s)"
| "sig_exec os (Block sig) s = snd (sigutil_block_sig os sig s)"
| "sig_exec os (Unblock sig) s = snd (sigutil_unblock_sig os sig s)"

text \<open>A state with the calls that have led to it.\<close>

inductive sig_reach :: "sig_os \<Rightarrow> 'h sig_state \<Rightarrow> 'h sig_call list \<Rightarrow> 'h sig_state \<Rightarrow> bool" for os s0 where
  start: "sig_reach os s0 [] s0"
| step: "sig_reach os s0 cs s \<Longrightarrow> sig_reach os s0 (cs @ [c]) (sig_exec os c s)"

text \<open>What the calls mean, told without the variables of the file: the signals that have been handled and
  not given back, and the signals to be blocked.\<close>

fun handled_by :: "sig_os \<Rightarrow> 'h sig_call \<Rightarrow> int set \<Rightarrow> int set" where
  "handled_by os (Add sig h) H = (if catchable os sig then insert sig H else H)"
| "handled_by os (Del sig) H = H - {sig}"
| "handled_by os Delall H = {}"
| "handled_by os _ H = H"

definition blockable :: "sig_os \<Rightarrow> int \<Rightarrow> bool" where
  "blockable os sig \<longleftrightarrow> 1 \<le> sig \<and> sig < NSIG \<and> can_add os sig"

fun asked_by :: "sig_os \<Rightarrow> 'h sig_call \<Rightarrow> int set \<Rightarrow> int set" where
  "asked_by os (Block sig) P = (if blockable os sig then insert sig P else P)"
| "asked_by os (Unblock sig) P = P - {sig}"
| "asked_by os _ P = P"

definition handled :: "sig_os \<Rightarrow> 'h sig_call list \<Rightarrow> int set" where
  "handled os cs = fold (handled_by os) cs {}"

definition asked :: "sig_os \<Rightarrow> 'h sig_call list \<Rightarrow> int set" where
  "asked os cs = fold (asked_by os) cs {}"

text \<open>The signals the file has on record as blocked.\<close>

definition recorded :: "'h sig_state \<Rightarrow> int set" where
  "recorded s = (if pm_inited (g_promasksig s) then promasksig (g_promasksig s) else {})"

definition sig_inv :: "sig_os \<Rightarrow> 'h sig_call list \<Rightarrow> 'h sig_state \<Rightarrow> bool" where
  "sig_inv os cs s \<longleftrightarrow> {i. sv_inited (g_oldsig s i)} = handled os cs \<and> recorded s = asked os cs \<and>
    handled os cs \<subseteq> {i. catchable os i} \<and> mask_ok os s"

lemma ignore_loop_frame:
  "g_oldsig (ignore_loop os is s) = g_oldsig s \<and> g_promasksig (ignore_loop os is s) = g_promasksig s \<and>
    blocked (ignore_loop os is s) = blocked s"
  by (induction "is" arbitrary: s) (auto simp: os_sigaction_def)

lemma ignore_loop_disposition:
  "disposition (ignore_loop os is s) i =
    (if i \<in> set is \<and> can_catch os i then \<lparr>sa_handler = SIG_IGN, sa_restart = False, sa_mask = {}\<rparr>
     else disposition s i)"
  by (induction "is" arbitrary: s) (auto simp: os_sigaction_def)

lemma add_del_frame:
  "g_promasksig (snd (sigutil_sig_add os sig h s)) = g_promasksig s \<and> blocked (snd (sigutil_sig_add os sig h s)) = blocked s"
  "g_promasksig (snd (sigutil_sig_del os sig s)) = g_promasksig s \<and> blocked (snd (sigutil_sig_del os sig s)) = blocked s"
  by (auto simp: sigutil_sig_add_def sigutil_sig_del_def os_sigaction_def Let_def)

lemma delall_frame:
  "g_promasksig (delall_loop os is s) = g_promasksig s \<and> blocked (delall_loop os is s) = blocked s"
  by (induction "is" arbitrary: s) (auto simp: add_del_frame)

lemma mask_frame:
  "g_oldsig (snd (sigutil_block_sig os i s)) = g_oldsig s"
  "g_oldsig (snd (sigutil_unblock_sig os i s)) = g_oldsig s"
  by (auto simp: sigutil_block_sig_def sigutil_unblock_sig_def os_block_def os_unblock_def Let_def)

lemma mask_kernel:
  assumes "\<forall>i \<in> blocked s. can_block os i"
  shows "\<forall>i \<in> blocked (snd (sigutil_block_sig os k s)). can_block os i"
  using assms by (auto simp: sigutil_block_sig_def os_block_def Let_def)

lemma handled_snoc: "handled os (cs @ [c]) = handled_by os c (handled os cs)"
  by (simp add: handled_def)

lemma asked_snoc: "asked os (cs @ [c]) = asked_by os c (asked os cs)"
  by (simp add: asked_def)

text \<open>The saved flags follow the calls.\<close>

lemma saved_exec:
  assumes "{i. sv_inited (g_oldsig s i)} \<subseteq> {i. catchable os i}"
  shows "{i. sv_inited (g_oldsig (sig_exec os c s) i)} = handled_by os c {i. sv_inited (g_oldsig s i)}"
  using assms
proof (cases c)
  case (Add sig h)
  then show ?thesis by (auto simp: sig_add_inited catchable_def)
next
  case (Del sig)
  then show ?thesis using assms by (auto simp: sig_del_inited catchable_def)
next
  case Delall
  then show ?thesis using assms by (auto simp: sigutil_sig_delall_def delall_inited catchable_def)
qed (simp_all add: sigutil_ignore_all_sig_def ignore_loop_frame mask_frame)

lemma handled_catchable: "H \<subseteq> {i. catchable os i} \<Longrightarrow> handled_by os c H \<subseteq> {i. catchable os i}"
  by (cases c) auto

text \<open>So does the record of the blocked signals.\<close>

lemma block_recorded: "recorded (snd (sigutil_block_sig os sig s)) = (if blockable os sig then insert sig (recorded s) else recorded s)"
  if "mask_ok os s"
  using that by (auto simp: recorded_def blockable_def mask_ok_def sigutil_block_sig_def os_block_def Let_def)

lemma unblock_recorded: "recorded (snd (sigutil_unblock_sig os sig s)) = recorded s - {sig}" if "mask_ok os s"
  using that by (auto simp: recorded_def mask_ok_def sigutil_unblock_sig_def os_block_def os_unblock_def Let_def)

lemma recorded_exec: "mask_ok os s \<Longrightarrow> recorded (sig_exec os c s) = asked_by os c (recorded s)"
proof (cases c)
  case (Block sig)
  then show "mask_ok os s \<Longrightarrow> ?thesis" by (simp add: block_recorded)
next
  case (Unblock sig)
  then show "mask_ok os s \<Longrightarrow> ?thesis" by (simp add: unblock_recorded)
qed (simp_all add: recorded_def sigutil_ignore_all_sig_def sigutil_sig_delall_def ignore_loop_frame add_del_frame delall_frame)

lemma mask_exec: "mask_ok os s \<Longrightarrow> mask_ok os (sig_exec os c s)"
proof (cases c)
  case (Block sig)
  then show "mask_ok os s \<Longrightarrow> ?thesis" by (simp add: block_ok)
next
  case (Unblock sig)
  then show "mask_ok os s \<Longrightarrow> ?thesis" by (simp add: unblock_ok)
qed (simp_all add: mask_ok_def sigutil_ignore_all_sig_def sigutil_sig_delall_def ignore_loop_frame add_del_frame delall_frame)

lemma sig_inv_exec: "sig_inv os cs s \<Longrightarrow> sig_inv os (cs @ [c]) (sig_exec os c s)"
  by (simp add: sig_inv_def handled_snoc asked_snoc saved_exec recorded_exec mask_exec handled_catchable)

definition sig_init :: "'h sig_state \<Rightarrow> bool" where
  "sig_init s \<longleftrightarrow> (\<forall>i. \<not> sv_inited (g_oldsig s i)) \<and> \<not> pm_inited (g_promasksig s)"

lemma init_inv: "sig_init s \<Longrightarrow> sig_inv os [] s"
  by (simp add: sig_init_def sig_inv_def mask_ok_def handled_def asked_def recorded_def)

lemma sig_reach_inv: "sig_reach os s0 cs s \<Longrightarrow> sig_init s0 \<Longrightarrow> sig_inv os cs s"
  by (induction rule: sig_reach.induct) (auto intro: sig_inv_exec init_inv)

section \<open>Properties\<close>

text \<open>C14: after any calls of the exported functions from the program's start, a disposition is saved for
  exactly the signals that \<open>sigutil_sig_add\<close> has set and that have not been deleted since; the signals on
  record as blocked are exactly those \<open>sigutil_block_sig\<close> has accepted and that have not been unblocked
  since; and each of them is blocked, except those that the kernel never blocks.\<close>

theorem sigutil_reachable_ok:
  assumes "sig_reach os s0 cs s" and "sig_init s0"
  shows "{i. sv_inited (g_oldsig s i)} = handled os cs \<and> recorded s = asked os cs \<and>
    (\<forall>i \<in> asked os cs. can_block os i \<longrightarrow> i \<in> blocked s)"
  using sig_reach_inv [OF assms] by (auto simp: sig_inv_def mask_ok_def recorded_def split: if_splits)

definition linux_sigs :: sig_os where
  "linux_sigs = \<lparr>can_catch = (\<lambda>i. i \<notin> {9, 19, 32, 33}), can_add = (\<lambda>i. i \<notin> {32, 33}),
     can_block = (\<lambda>i. i \<notin> {9, 19})\<rparr>"

definition start_sigs :: "nat sig_state" where
  "start_sigs = \<lparr>disposition = (\<lambda>_. \<lparr>sa_handler = SIG_DFL, sa_restart = False, sa_mask = {}\<rparr>),
     blocked = {}, history = [],
     g_oldsig = (\<lambda>_. \<lparr>sv_inited = False, oldsig = \<lparr>sa_handler = SIG_DFL, sa_restart = False, sa_mask = {}\<rparr>\<rparr>),
     g_promasksig = \<lparr>pm_inited = False, promasksig = {}\<rparr>\<rparr>"

theorem sigutil_reachable_ok_witness:
  "\<exists>s. sig_reach linux_sigs start_sigs [Block 15, Add 2 (Handler 7), Block 9, Add 64 SIG_IGN, Del 2] s \<and>
    {i. sv_inited (g_oldsig s i)} = {64} \<and> recorded s = {9, 15} \<and> 15 \<in> blocked s"
proof -
  let ?cs = "[Block 15, Add 2 (Handler 7), Block 9, Add 64 SIG_IGN, Del 2] :: nat sig_call list"
  have run: "sig_reach linux_sigs start_sigs ([] @ [Block 15] @ [Add 2 (Handler 7)] @ [Block 9] @ [Add 64 SIG_IGN] @ [Del 2])
      (sig_exec linux_sigs (Del 2) (sig_exec linux_sigs (Add 64 SIG_IGN) (sig_exec linux_sigs (Block 9)
        (sig_exec linux_sigs (Add 2 (Handler 7)) (sig_exec linux_sigs (Block 15) start_sigs)))))"
    unfolding append_assoc [symmetric] by (intro sig_reach.intros)
  have h: "handled linux_sigs ?cs = {64}" "asked linux_sigs ?cs = {9, 15}"
    by (auto simp: handled_def asked_def catchable_def blockable_def linux_sigs_def NSIG_def)
  have "sig_init start_sigs" by (simp add: sig_init_def start_sigs_def)
  from sigutil_reachable_ok [OF run this] run h show ?thesis
    by (auto simp: linux_sigs_def)
qed

text \<open>C15: \<open>sigutil_sig_delall\<close> undoes \<open>sigutil_sig_add\<close>: after handlers have been set in any order and
  for any signals, also ones that cannot be caught or are out of range, each disposition becomes the one
  that the last call for the signal replaced, and no saved one is left.  When no signal has been set twice
  these are the dispositions from before all of it; otherwise the handler of the last call but one stays.\<close>

theorem sigutil_delall_restores:
  assumes "\<forall>i. \<not> sv_inited (g_oldsig s i)"
  shows "(\<forall>i. disposition (snd (sigutil_sig_delall os (add_all os hs s))) i =
      last (disposition s i # butlast (installed os hs i))) \<and>
    (distinct (map fst hs) \<longrightarrow> disposition (snd (sigutil_sig_delall os (add_all os hs s))) = disposition s) \<and>
    (\<forall>i. \<not> sv_inited (g_oldsig (snd (sigutil_sig_delall os (add_all os hs s))) i))"
  using add_all_delall [OF assms, of os hs] installed_once [of hs os] by auto

theorem sigutil_delall_restores_witness:
  "disposition (snd (sigutil_sig_delall linux_sigs (add_all linux_sigs [(2, Handler 1), (9, Handler 2), (15, SIG_DFL)] start_sigs))) =
      disposition start_sigs \<and>
    sa_handler (disposition (snd (sigutil_sig_delall linux_sigs (add_all linux_sigs [(2, Handler 1), (2, Handler 5)] start_sigs))) 2) =
      Handler (1 :: nat)"
proof -
  have "\<forall>i. \<not> sv_inited (g_oldsig start_sigs i)" by (simp add: start_sigs_def)
  note r = sigutil_delall_restores [OF this, of linux_sigs]
  show ?thesis
    using r [of "[(2, Handler 1), (9, Handler 2), (15, SIG_DFL)]"] r [of "[(2, Handler 1), (2, Handler 5)]"]
    by (simp add: installed_def catchable_def linux_sigs_def NSIG_def)
qed

text \<open>Setting a handler twice for one signal loses the original disposition: deleting then
  restores the first handler, which stays installed for ever.\<close>

theorem sigutil_add_twice:
  assumes "1 \<le> sig" and "sig < NSIG" and "can_catch os sig"
  shows "let t = snd (sigutil_sig_del os sig (snd (sigutil_sig_add os sig (Handler h2)
                   (snd (sigutil_sig_add os sig (Handler h1) s)))))
    in sa_handler (disposition t sig) = Handler h1 \<and> \<not> sv_inited (g_oldsig t sig)"
  using assms by (simp add: sigutil_sig_add_def sigutil_sig_del_def os_sigaction_def Let_def)

theorem sigutil_add_twice_witness:
  "let t = snd (sigutil_sig_del linux_sigs 2 (snd (sigutil_sig_add linux_sigs 2 (Handler 6)
                   (snd (sigutil_sig_add linux_sigs 2 (Handler 5) start_sigs)))))
    in sa_handler (disposition t 2) = Handler 5 \<and> \<not> sv_inited (g_oldsig t 2)"
  by (rule sigutil_add_twice) (simp_all add: NSIG_def linux_sigs_def)

text \<open>C16: \<open>sigutil_unblock_sig\<close> of a signal the file has blocked ends with exactly that signal
  unblocked; but for a moment every signal the file has blocked is open, and a pending one is
  delivered then.\<close>

theorem sigutil_unblock_window:
  assumes "mask_ok os s" and "pm_inited (g_promasksig s)" and "i \<in> promasksig (g_promasksig s)"
    and "\<forall>j \<in> blocked s. can_block os j"
  shows "\<exists>t. sigutil_unblock_sig os i s = (0, t) \<and> blocked t = blocked s - {i} \<and>
    (\<exists>b. history t = blocked t # b # history s \<and> b \<inter> promasksig (g_promasksig s) = {})"
proof -
  let ?P = "promasksig (g_promasksig s)"
  have i: "1 \<le> i" "i < NSIG" "can_add os i" using assms(1-3) unfolding mask_ok_def by blast+
  define t where "t = snd (sigutil_unblock_sig os i s)"
  have t: "sigutil_unblock_sig os i s = (0, t)"
      "blocked t = blocked s - ?P \<union> {j \<in> ?P - {i}. can_block os j}"
      "history t = blocked t # (blocked s - ?P) # history s"
    using i assms(2,3) by (simp_all add: t_def sigutil_unblock_sig_def os_block_def os_unblock_def Let_def)
  have "blocked t = blocked s - {i}"
    unfolding t(2) using assms unfolding mask_ok_def by blast
  with t(1,3) show ?thesis by blast
qed

theorem sigutil_unblock_window_witness:
  "let s = snd (sigutil_block_sig linux_sigs 15 (snd (sigutil_block_sig linux_sigs 2 start_sigs)))
    in \<exists>t. sigutil_unblock_sig linux_sigs 2 s = (0, t) \<and> blocked t = blocked s - {2} \<and>
      (\<exists>b. history t = blocked t # b # history s \<and> b \<inter> promasksig (g_promasksig s) = {})"
  unfolding Let_def
proof (rule sigutil_unblock_window)
  let ?t = "snd (sigutil_block_sig linux_sigs 2 start_sigs)"
  have "mask_ok linux_sigs start_sigs" by (simp add: mask_ok_def start_sigs_def)
  then show "mask_ok linux_sigs (snd (sigutil_block_sig linux_sigs 15 ?t))"
    by (intro block_ok)
  have add: "can_add linux_sigs 15" by (simp add: linux_sigs_def)
  have t: "g_promasksig ?t = \<lparr>pm_inited = True, promasksig = {2}\<rparr>"
    by (simp add: sigutil_block_sig_def start_sigs_def linux_sigs_def NSIG_def Let_def os_block_def)
  show "pm_inited (g_promasksig (snd (sigutil_block_sig linux_sigs 15 ?t)))"
    "2 \<in> promasksig (g_promasksig (snd (sigutil_block_sig linux_sigs 15 ?t)))"
    using add by (simp_all add: sigutil_block_sig_def [of _ 15] t NSIG_def Let_def os_block_def)
  have "\<forall>i \<in> blocked start_sigs. can_block linux_sigs i" by (simp add: start_sigs_def)
  then show "\<forall>j \<in> blocked (snd (sigutil_block_sig linux_sigs 15 ?t)). can_block linux_sigs j"
    by (intro mask_kernel)
qed

end
