(* ===== verification/Kernel_Fds.thy ===== *)
theory Kernel_Fds
  imports Prelude
begin

text \<open>
  The file descriptors of the process, for the parts of the library that open, configure and close
  them.  \<open>fds\<close> is the table of open descriptors; the outcome of the \<open>n\<close>-th system call is the
  number \<open>ans n\<close>: negative when the call fails, and for a call that makes a descriptor the number
  the kernel would give it, which fails too when that descriptor is in use.
\<close>

section \<open>Model\<close>

record fd_entry =
  status_flags :: u32
  fd_flags :: u32
  sock_opts :: "int list"

record kern =
  fds :: "int \<Rightarrow> fd_entry option"
  turn :: nat

type_synonym answers = "nat \<Rightarrow> int"

definition O_NONBLOCK :: u32 where "O_NONBLOCK = 0x800"
definition O_CLOEXEC :: u32 where "O_CLOEXEC = 0x80000"
definition FD_CLOEXEC :: u32 where "FD_CLOEXEC = 1"

definition tick :: "kern \<Rightarrow> kern" where
  "tick k = k\<lparr>turn := Suc (turn k)\<rparr>"

text \<open>\<open>open\<close>, \<open>socket\<close>, \<open>accept\<close>: a new descriptor.\<close>

definition k_new :: "u32 \<Rightarrow> u32 \<Rightarrow> answers \<Rightarrow> kern \<Rightarrow> int \<times> kern" where
  "k_new st fdf ans k =
    (let fd = ans (turn k) in
     if fd < 0 \<or> fds k fd \<noteq> None then (-1, tick k)
     else (fd, (tick k)\<lparr>fds := (fds k)(fd \<mapsto> \<lparr>status_flags = st, fd_flags = fdf, sock_opts = []\<rparr>)\<rparr>))"

text \<open>A call on an open descriptor, with its effect on the entry.\<close>

definition k_on :: "(fd_entry \<Rightarrow> fd_entry) \<Rightarrow> int \<Rightarrow> answers \<Rightarrow> kern \<Rightarrow> int \<times> kern" where
  "k_on f fd ans k =
    (case fds k fd of None \<Rightarrow> (-1, tick k)
     | Some e \<Rightarrow> if ans (turn k) < 0 then (-1, tick k) else (0, (tick k)\<lparr>fds := (fds k)(fd \<mapsto> f e)\<rparr>))"

text \<open>\<open>fcntl(fd, F_GETFL)\<close> and \<open>fcntl(fd, F_GETFD)\<close>: \<open>None\<close> is a negative result.\<close>

definition k_get :: "(fd_entry \<Rightarrow> u32) \<Rightarrow> int \<Rightarrow> answers \<Rightarrow> kern \<Rightarrow> u32 option \<times> kern" where
  "k_get sel fd ans k =
    (case fds k fd of None \<Rightarrow> (None, tick k)
     | Some e \<Rightarrow> if ans (turn k) < 0 then (None, tick k) else (Some (sel e), tick k))"

definition k_close :: "int \<Rightarrow> kern \<Rightarrow> kern" where
  "k_close fd k = (tick k)\<lparr>fds := (fds k)(fd := None)\<rparr>"

section \<open>Laws\<close>

named_theorems kern_simps

lemma tick_fds [kern_simps]: "fds (tick k) = fds k"
  by (simp add: tick_def)

lemma k_new_cases:
  obtains (fails) "k_new st fdf ans k = (-1, tick k)"
  | (opens) fd where "k_new st fdf ans k = (fd, (tick k)\<lparr>fds := (fds k)(fd \<mapsto>
      \<lparr>status_flags = st, fd_flags = fdf, sock_opts = []\<rparr>)\<rparr>)" "0 \<le> fd" "fds k fd = None" "fd = ans (turn k)"
  by (cases "ans (turn k) < 0 \<or> fds k (ans (turn k)) \<noteq> None") (auto simp: k_new_def Let_def)

lemma k_on_cases:
  assumes "fds k fd = Some e"
  obtains (fails) "k_on f fd ans k = (-1, tick k)" "ans (turn k) < 0"
  | (works) "k_on f fd ans k = (0, (tick k)\<lparr>fds := (fds k)(fd \<mapsto> f e)\<rparr>)" "0 \<le> ans (turn k)"
  using assms by (cases "ans (turn k) < 0") (auto simp: k_on_def)

lemma k_get_cases:
  assumes "fds k fd = Some e"
  obtains (fails) "k_get sel fd ans k = (None, tick k)" | (works) "k_get sel fd ans k = (Some (sel e), tick k)"
  using assms by (cases "ans (turn k) < 0") (auto simp: k_get_def)

lemma k_close_fds [kern_simps]: "fds (k_close fd k) = (fds k)(fd := None)"
  by (simp add: k_close_def)

end
