(* ===== verification/Fcp_Socket.thy ===== *)
theory Fcp_Socket
  imports Kernel_Fds
begin

text \<open>
  \<open>src/src/myfcp/fcp_socket.c\<close> over the descriptor table: the flags of a socket, the two ways to
  connect, and \<open>netutil_socket_accept\<close> with its callbacks.  An operation that can fault returns a
  \<open>res\<close>; what is printed on an error is left out.
\<close>

section \<open>Model\<close>

definition SO_REUSEADDR :: int where "SO_REUSEADDR = 2"
definition SO_REUSEPORT :: int where "SO_REUSEPORT = 15"

definition netutil_socket_nonblocking :: "int \<Rightarrow> answers \<Rightarrow> kern \<Rightarrow> int \<times> kern" where
  "netutil_socket_nonblocking sockfd ans k =
    (case k_get status_flags sockfd ans k of
       (None, k) \<Rightarrow> (-1, k)
     | (Some flag, k) \<Rightarrow>
         if flag AND O_NONBLOCK = 0 then
           (case k_on (\<lambda>e. e\<lparr>status_flags := flag OR O_NONBLOCK\<rparr>) sockfd ans k of (ret, k) \<Rightarrow>
              if ret < 0 then (-1, k) else (0, k))
         else (0, k))"

definition netutil_socket_reuse_addr :: "int \<Rightarrow> answers \<Rightarrow> kern \<Rightarrow> int \<times> kern" where
  "netutil_socket_reuse_addr sockfd ans k = k_on (\<lambda>e. e\<lparr>sock_opts := SO_REUSEADDR # sock_opts e\<rparr>) sockfd ans k"

text \<open>\<open>has_reuseport\<close>: the system defines \<open>SO_REUSEPORT\<close>.\<close>

definition netutil_socket_reuse_port :: "bool \<Rightarrow> int \<Rightarrow> answers \<Rightarrow> kern \<Rightarrow> int \<times> kern" where
  "netutil_socket_reuse_port has_reuseport sockfd ans k =
    (if has_reuseport then k_on (\<lambda>e. e\<lparr>sock_opts := SO_REUSEPORT # sock_opts e\<rparr>) sockfd ans k
     else (-1, k))"

definition netutil_socket_closeonexec :: "int \<Rightarrow> answers \<Rightarrow> kern \<Rightarrow> int \<times> kern" where
  "netutil_socket_closeonexec sockfd ans k =
    (case k_get fd_flags sockfd ans k of
       (None, k) \<Rightarrow> (-1, k)
     | (Some flag, k) \<Rightarrow>
         if flag AND FD_CLOEXEC = 0 then
           (case k_on (\<lambda>e. e\<lparr>fd_flags := flag OR FD_CLOEXEC\<rparr>) sockfd ans k of (ret, k) \<Rightarrow>
              if ret < 0 then (-1, k) else (0, k))
         else (0, k))"

text \<open>
  \<open>connect\<close> on a non-blocking socket answers with a negative number while the connection is in
  progress, as for a failure.
\<close>

definition netutil_socket_nonblock_connect :: "answers \<Rightarrow> kern \<Rightarrow> int \<times> kern" where
  "netutil_socket_nonblock_connect ans k =
    (case k_new 0 0 ans k of (sockfd, k) \<Rightarrow>
       if sockfd < 0 then (-1, k)
       else
         case (case netutil_socket_nonblocking sockfd ans k of (r, k) \<Rightarrow>
                 if r < 0 then (-1, k)
                 else case k_on id sockfd ans k of (r, k) \<Rightarrow> if r < 0 then (-1, k) else (sockfd, k)) of
           (ret, k) \<Rightarrow> if ret = -1 then (ret, k_close sockfd k) else (ret, k))"

definition netutil_socket_block_connect :: "answers \<Rightarrow> kern \<Rightarrow> int \<times> kern" where
  "netutil_socket_block_connect ans k =
    (case k_new 0 0 ans k of (sockfd, k) \<Rightarrow>
       if sockfd < 0 then (-1, k)
       else
         case (case k_on id sockfd ans k of (r, k) \<Rightarrow> if r < 0 then (-1, k) else (sockfd, k)) of
           (ret, k) \<Rightarrow> if ret = -1 then (ret, k_close sockfd k) else (ret, k))"

text \<open>\<open>socketpair\<close> makes both descriptors or none.\<close>

definition k_socketpair :: "answers \<Rightarrow> kern \<Rightarrow> (int \<times> int) option \<times> kern" where
  "k_socketpair ans k =
    (case k_new 0 0 ans k of (a, k1) \<Rightarrow>
       if a < 0 then (None, k1)
       else case k_new 0 0 ans k1 of (b, k2) \<Rightarrow>
         if b < 0 then (None, k_close a k2) else (Some (a, b), k2))"

definition netutil_socket_unix_pair :: "answers \<Rightarrow> kern \<Rightarrow> int \<times> (int \<times> int) option \<times> kern" where
  "netutil_socket_unix_pair ans k =
    (case k_socketpair ans k of (None, k) \<Rightarrow> (-1, None, k) | (Some pair, k) \<Rightarrow> (0, Some pair, k))"

text \<open>
  \<open>netutil_socket_accept\<close>.  \<open>peer\<close> is the address of the client; the kernel stores as much of it as
  \<open>cliaddrlen\<close> allows into \<open>cliaddr\<close>, a \<open>struct sockaddr\<close> of 16 bytes.  The callbacks work on the
  descriptors and on the data of the caller.
\<close>

definition SOCKADDR_SIZE :: nat where "SOCKADDR_SIZE = 16"

definition open_listen ::
    "answers \<Rightarrow> (int \<Rightarrow> kern \<times> 'a \<Rightarrow> int \<times> kern \<times> 'a) option \<Rightarrow> kern \<times> 'a \<Rightarrow> (int \<times> kern \<times> 'a) res" where
  "open_listen ans listensock_callback = (\<lambda>(k, a).
    case k_new 0 0 ans k of (sockfd, k) \<Rightarrow>
      if sockfd \<le> 0 then Inr (-1, k, a)
      else
        rbind
          (case listensock_callback of
             None \<Rightarrow> Inl NullDeref
           | Some _ \<Rightarrow> Inr (k, a)) (\<lambda>(k, a).
        case k_on id sockfd ans k of (r, k) \<Rightarrow>
          if r \<noteq> 0 then Inr (-1, k_close sockfd k, a)
          else case k_on id sockfd ans k of (r, k) \<Rightarrow>
            if r \<noteq> 0 then Inr (-1, k_close sockfd k, a)
            else Inr (sockfd, k, a)))"

definition netutil_socket_accept ::
    "answers \<Rightarrow> cbytes \<Rightarrow> int \<Rightarrow> nat \<Rightarrow> (int \<Rightarrow> kern \<times> 'a \<Rightarrow> int \<times> kern \<times> 'a) option \<Rightarrow>
      (int \<Rightarrow> cbytes \<Rightarrow> nat \<Rightarrow> kern \<times> 'a \<Rightarrow> int \<times> kern \<times> 'a) option \<Rightarrow> kern \<times> 'a \<Rightarrow> (int \<times> kern \<times> 'a) res" where
  "netutil_socket_accept ans peer sockfd addrlen listensock_callback accept_callback = (\<lambda>(k, a).
    rbind (if sockfd < 0 then open_listen ans listensock_callback (k, a) else Inr (sockfd, k, a))
      (\<lambda>(sockfd, k, a).
       if sockfd < 0 then Inr (-1, k, a)
       else
         case (if fds k sockfd = None then (-1, tick k) else k_new 0 0 ans k) of (newfd, k) \<Rightarrow>
         rbind (if newfd < 0 then Inr (replicate SOCKADDR_SIZE 0)
                else memcpy (replicate SOCKADDR_SIZE 0) 0 peer 0 (min addrlen (length peer))) (\<lambda>cliaddr.
         case accept_callback of
           None \<Rightarrow> Inr (sockfd, k, a)
         | Some cb \<Rightarrow>
             if newfd > 0 then
               case cb newfd cliaddr (length peer) (k, a) of (_, k, a) \<Rightarrow> Inr (sockfd, k, a)
             else Inr (sockfd, k, a))))"

section \<open>Properties\<close>

lemma nonblocking_sets:
  assumes "fds k fd = Some e"
  shows "\<exists>k'. netutil_socket_nonblocking fd ans k = (0, k') \<and>
      fds k' = (fds k)(fd \<mapsto> e\<lparr>status_flags := status_flags e OR O_NONBLOCK\<rparr>) \<or>
    netutil_socket_nonblocking fd ans k = (-1, k') \<and> fds k' = fds k"
  using assms
proof (cases rule: k_get_cases [where sel = status_flags and ans = ans])
  case fails
  then show ?thesis by (simp add: netutil_socket_nonblocking_def kern_simps)
next
  case works
  show ?thesis
  proof (cases "status_flags e AND O_NONBLOCK = 0")
    case True
    have "fds (tick k) fd = Some e" using assms by (simp add: kern_simps)
    then show ?thesis
      by (cases rule: k_on_cases [of "tick k" fd e "\<lambda>e'. e'\<lparr>status_flags := status_flags e OR O_NONBLOCK\<rparr>" ans])
        (auto simp: netutil_socket_nonblocking_def works True kern_simps)
  next
    case False
    have "status_flags e OR O_NONBLOCK = status_flags e"
    proof (rule bit_word_eqI)
      fix n assume "n < LENGTH(32)"
      have p: "O_NONBLOCK = push_bit 11 1" by (simp add: O_NONBLOCK_def)
      have b: "bit O_NONBLOCK m \<longleftrightarrow> m = 11" for m
        by (simp only: p bit_push_bit_iff) (auto simp: bit_1_iff)
      have "bit (status_flags e) 11"
      proof (rule ccontr)
        assume "\<not> bit (status_flags e) 11"
        then have "status_flags e AND O_NONBLOCK = 0"
          by (intro bit_word_eqI) (auto simp: bit_and_iff b)
        with False show False by simp
      qed
      then show "bit (status_flags e OR O_NONBLOCK) n = bit (status_flags e) n"
        by (auto simp: bit_or_iff b)
    qed
    then show ?thesis
      using assms by (auto simp: netutil_socket_nonblocking_def works False kern_simps)
  qed
qed


lemma closeonexec_sets:
  assumes "fds k fd = Some e"
  shows "\<exists>k'. netutil_socket_closeonexec fd ans k = (0, k') \<and>
      (\<exists>fl. fl AND FD_CLOEXEC \<noteq> 0 \<and> fds k' = (fds k)(fd \<mapsto> e\<lparr>fd_flags := fl\<rparr>)) \<or>
    netutil_socket_closeonexec fd ans k = (-1, k') \<and> fds k' = fds k"
  using assms
proof (cases rule: k_get_cases [where sel = fd_flags and ans = ans])
  case fails
  then show ?thesis by (simp add: netutil_socket_closeonexec_def kern_simps)
next
  case works
  show ?thesis
  proof (cases "fd_flags e AND FD_CLOEXEC = 0")
    case True
    have bit: "(fd_flags e OR FD_CLOEXEC) AND FD_CLOEXEC \<noteq> 0"
      by (simp add: FD_CLOEXEC_def bit.conj_disj_distrib2)
    then have ex: "\<exists>fl. fl AND FD_CLOEXEC \<noteq> 0 \<and>
        (fds k)(fd \<mapsto> e\<lparr>fd_flags := fd_flags e OR FD_CLOEXEC\<rparr>) = (fds k)(fd \<mapsto> e\<lparr>fd_flags := fl\<rparr>)"
      by blast
    have "fds (tick k) fd = Some e" using assms by (simp add: kern_simps)
    then show ?thesis
      using ex
      by (cases rule: k_on_cases [of "tick k" fd e "\<lambda>e'. e'\<lparr>fd_flags := fd_flags e OR FD_CLOEXEC\<rparr>" ans])
        (auto simp: netutil_socket_closeonexec_def works True kern_simps)
  next
    case False
    have "fds k = (fds k)(fd \<mapsto> e\<lparr>fd_flags := fd_flags e\<rparr>)" using assms by auto
    then show ?thesis
      using False by (auto simp: netutil_socket_closeonexec_def works kern_simps)
  qed
qed

lemma block_connect_effect:
  "case netutil_socket_block_connect ans k of (ret, k') \<Rightarrow>
      ret = -1 \<and> fds k' = fds k \<or>
      0 \<le> ret \<and> fds k ret = None \<and> (\<exists>e. fds k' = (fds k)(ret \<mapsto> e) \<and> status_flags e AND O_NONBLOCK = 0)"
proof (cases rule: k_new_cases [of 0 0 ans k])
  case fails
  then show ?thesis by (simp add: netutil_socket_block_connect_def kern_simps)
next
  case (opens fd)
  let ?k = "(tick k)\<lparr>fds := (fds k)(fd \<mapsto> \<lparr>status_flags = 0, fd_flags = 0, sock_opts = []\<rparr>)\<rparr>"
  show ?thesis
    by (cases rule: k_on_cases [of ?k fd "\<lparr>status_flags = 0, fd_flags = 0, sock_opts = []\<rparr>" id ans])
      (use opens in \<open>auto simp: netutil_socket_block_connect_def kern_simps fun_upd_idem\<close>)
qed

lemma nonblock_connect_effect:
  "case netutil_socket_nonblock_connect ans k of (ret, k') \<Rightarrow>
      ret = -1 \<and> fds k' = fds k \<or>
      0 \<le> ret \<and> fds k ret = None \<and> (\<exists>e. fds k' = (fds k)(ret \<mapsto> e) \<and> status_flags e AND O_NONBLOCK \<noteq> 0)"
proof (cases rule: k_new_cases [of 0 0 ans k])
  case fails
  then show ?thesis by (simp add: netutil_socket_nonblock_connect_def kern_simps)
next
  case (opens fd)
  let ?e = "\<lparr>status_flags = 0, fd_flags = 0, sock_opts = []\<rparr>"
  let ?k = "(tick k)\<lparr>fds := (fds k)(fd \<mapsto> ?e)\<rparr>"
  have "fds ?k fd = Some ?e" by simp
  from nonblocking_sets [OF this, of ans] obtain k1 where
    "netutil_socket_nonblocking fd ans ?k = (-1, k1) \<and> fds k1 = fds ?k \<or>
     netutil_socket_nonblocking fd ans ?k = (0, k1) \<and> fds k1 = (fds ?k)(fd \<mapsto> ?e\<lparr>status_flags := 0 OR O_NONBLOCK\<rparr>)"
    by auto
  then show ?thesis
  proof
    assume "netutil_socket_nonblocking fd ans ?k = (-1, k1) \<and> fds k1 = fds ?k"
    then show ?thesis
      using opens by (auto simp: netutil_socket_nonblock_connect_def kern_simps fun_upd_idem)
  next
    assume nb: "netutil_socket_nonblocking fd ans ?k = (0, k1) \<and>
        fds k1 = (fds ?k)(fd \<mapsto> ?e\<lparr>status_flags := 0 OR O_NONBLOCK\<rparr>)"
    then have "fds k1 fd = Some (?e\<lparr>status_flags := 0 OR O_NONBLOCK\<rparr>)" by simp
    then show ?thesis
      by (cases rule: k_on_cases [of k1 fd "?e\<lparr>status_flags := 0 OR O_NONBLOCK\<rparr>" id ans])
        (use opens nb in \<open>auto simp: netutil_socket_nonblock_connect_def kern_simps fun_upd_idem O_NONBLOCK_def\<close>)
  qed
qed

lemma nonblock_connect_error:
  "ans (turn k + 3) < 0 \<Longrightarrow> fst (netutil_socket_nonblock_connect ans k) = -1"
  by (auto simp: netutil_socket_nonblock_connect_def netutil_socket_nonblocking_def k_new_def k_get_def k_on_def
      tick_def Let_def eval_nat_numeral split: prod.splits option.splits if_splits)

text \<open>C31: a connecting operation leaks no descriptor: it returns \<open>-1\<close> with the descriptor table as
  it was, or one new descriptor and no other change; the descriptor is non-blocking exactly with
  \<open>netutil_socket_nonblock_connect\<close>, which also gives up, closing the socket, on a connection that is
  still in progress (a negative answer to \<open>connect\<close>).\<close>

lemma netutil_connect_no_leak:
  shows "(case netutil_socket_block_connect ans k of (ret, k') \<Rightarrow>
      ret = -1 \<and> fds k' = fds k \<or>
      0 \<le> ret \<and> fds k ret = None \<and> (\<exists>e. fds k' = (fds k)(ret \<mapsto> e) \<and> status_flags e AND O_NONBLOCK = 0)) \<and>
    (case netutil_socket_nonblock_connect ans k of (ret, k') \<Rightarrow>
      ret = -1 \<and> fds k' = fds k \<or>
      0 \<le> ret \<and> fds k ret = None \<and> (\<exists>e. fds k' = (fds k)(ret \<mapsto> e) \<and> status_flags e AND O_NONBLOCK \<noteq> 0)) \<and>
    (ans (turn k + 3) < 0 \<longrightarrow> fst (netutil_socket_nonblock_connect ans k) = -1)"
  by (intro conjI impI block_connect_effect nonblock_connect_effect nonblock_connect_error)

lemma netutil_connect_no_leak_witness:
  "fst (netutil_socket_nonblock_connect (\<lambda>n. if n = 3 then -1 else 4) \<lparr>fds = Map.empty, turn = 0\<rparr>) = -1"
  using netutil_connect_no_leak [where ans = "\<lambda>n. if n = 3 then -1 else 4" and k = "\<lparr>fds = Map.empty, turn = 0\<rparr>"] by simp

text \<open>\<open>netutil_socket_accept\<close> mishandles its arguments: asked to make the listening socket it
  calls through the null pointer when there is no callback for it, and never calls one that is
  there; and the address of a client that is longer than a \<open>struct sockaddr\<close> (IPv6, or a path) is
  written past \<open>cliaddr\<close> when the caller's length allows it.\<close>

lemma netutil_socket_accept_faults:
  assumes "fds k listening \<noteq> None" "0 \<le> listening" "0 \<le> ans (turn k)" "fds k (ans (turn k)) = None"
  shows "(0 < ans (turn k) \<longrightarrow> sockfd < 0 \<longrightarrow>
      netutil_socket_accept ans peer sockfd addrlen None acb (k, a) = Inl NullDeref) \<and>
    netutil_socket_accept ans peer sockfd addrlen (Some cb) acb (k, a) =
      netutil_socket_accept ans peer sockfd addrlen (Some cb') acb (k, a) \<and>
    (SOCKADDR_SIZE < min addrlen (length peer) \<longrightarrow>
      netutil_socket_accept ans peer listening addrlen lcb acb (k, a) = Inl OutOfBounds)"
  using assms
  by (auto simp: netutil_socket_accept_def open_listen_def k_new_def Let_def memcpy_def SOCKADDR_SIZE_def
      split: prod.splits)

lemma netutil_socket_accept_faults_witness:
  "netutil_socket_accept (\<lambda>n. 5 + int n) (replicate 28 0) (-1) 28 None None
      (\<lparr>fds = [3 \<mapsto> \<lparr>status_flags = 0, fd_flags = 0, sock_opts = []\<rparr>], turn = 0\<rparr>, ()) = Inl NullDeref \<and>
   netutil_socket_accept (\<lambda>n. 5 + int n) (replicate 28 0) 3 28 None None
      (\<lparr>fds = [3 \<mapsto> \<lparr>status_flags = 0, fd_flags = 0, sock_opts = []\<rparr>], turn = 0\<rparr>, ()) = Inl OutOfBounds"
  using netutil_socket_accept_faults [of "\<lparr>fds = [3 \<mapsto> \<lparr>status_flags = 0, fd_flags = 0, sock_opts = []\<rparr>], turn = 0\<rparr>"
      3 "\<lambda>n. 5 + int n" "-1" "replicate 28 0" 28 None "()" "\<lambda>_ s. (0, s)" "\<lambda>_ s. (0, s)" None]
  by (simp add: SOCKADDR_SIZE_def)

end
