(* ===== verification/Gen_Dir.thy ===== *)
theory Gen_Dir
  imports Memory Item_Stream Libc
begin

text \<open>
  The directory iterator of \<open>src/src/myfcp/general.c\<close> (\<open>general_foreach_dir_entry\<close>,
  \<open>general_foreach_regfile_entry\<close>) and its client \<open>general_find_proc_pid\<close>, the walk over the
  processes.  What \<open>opendir\<close> and \<open>readdir\<close> return is the argument \<open>fs\<close>: the entries of a
  directory, in the order \<open>readdir\<close> delivers them, or nothing when it cannot be opened.
\<close>

section \<open>Model\<close>

type_synonym dirent = "cbytes \<times> nat"
type_synonym dir_contents = "cbytes \<Rightarrow> dirent list option"

definition DT_DIR :: nat where "DT_DIR = 4"
definition DT_REG :: nat where "DT_REG = 8"

text \<open>Characters, an open \<open>DIR\<close> with the entries not yet read, or a
  \<open>struct general_inode_entry\<close> with its \<open>bufsize\<close>, \<open>fullpath\<close>, \<open>dirpath\<close> and \<open>dir\<close>.\<close>

datatype dir_cell = Text cbytes | Dir_Stream "dirent list" | Inode_Entry nat ptr ptr ptr

definition get_text :: "ptr \<Rightarrow> dir_cell mem \<Rightarrow> cbytes res" where
  "get_text p m = rbind (mem_get p m) (\<lambda>c. case c of Text bs \<Rightarrow> Inr bs | _ \<Rightarrow> Inl OutOfBounds)"

definition get_dir :: "ptr \<Rightarrow> dir_cell mem \<Rightarrow> dirent list res" where
  "get_dir p m = rbind (mem_get p m) (\<lambda>c. case c of Dir_Stream es \<Rightarrow> Inr es | _ \<Rightarrow> Inl OutOfBounds)"

definition get_inode :: "ptr \<Rightarrow> dir_cell mem \<Rightarrow> (nat \<times> ptr \<times> ptr \<times> ptr) res" where
  "get_inode p m = rbind (mem_get p m)
     (\<lambda>c. case c of Inode_Entry n f d h \<Rightarrow> Inr (n, f, d, h) | _ \<Rightarrow> Inl OutOfBounds)"

definition opendir :: "(nat \<Rightarrow> bool) \<Rightarrow> dir_contents \<Rightarrow> cbytes \<Rightarrow> dir_cell mem \<Rightarrow> ptr \<times> dir_cell mem" where
  "opendir oom fs path m =
    (case fs path of None \<Rightarrow> (0, m) | Some es \<Rightarrow> mem_alloc oom (Dir_Stream es) m)"

text \<open>The \<open>readdir\<close> loop: the next entry of the wanted type, other than \<open>.\<close> and \<open>..\<close>.\<close>

fun next_entry :: "nat \<Rightarrow> dirent list \<Rightarrow> (cbytes \<times> dirent list) option" where
  "next_entry type [] = None"
| "next_entry type ((d_name, d_type) # es) =
    (if d_name = [46] \<or> d_name = [46, 46] \<or> d_type \<noteq> type then next_entry type es
     else Some (d_name, es))"

text \<open>\<open>stopread:\<close> releases everything and resets the entry.\<close>

definition inode_stop :: "ptr \<Rightarrow> one_item \<Rightarrow> dir_cell mem \<Rightarrow> (int \<times> one_item \<times> dir_cell mem) res" where
  "inode_stop pNode entry m =
    rbind (get_inode pNode m) (\<lambda>(bufsize, fullpath, dirpath, dir).
    rbind (if fullpath \<noteq> 0 then
             rbind (mem_free fullpath m) (\<lambda>m. mem_put pNode (Inode_Entry bufsize 0 dirpath dir) m)
           else Inr m) (\<lambda>m.
    rbind (mem_free dirpath m) (\<lambda>m.
    rbind (if dir = 0 then Inl NullDeref else mem_free dir m) (\<lambda>m.
    rbind (mem_free pNode m) (\<lambda>m.
      Inr (-1, entry\<lparr>data_of := 0, this_of := 0, flag := 0\<rparr>, m))))))"

definition inode_next ::
    "(nat \<Rightarrow> bool) \<Rightarrow> nat \<Rightarrow> ptr \<Rightarrow> one_item \<Rightarrow> dir_cell mem \<Rightarrow> (int \<times> one_item \<times> dir_cell mem) res"
  where
  "inode_next oom type pNode entry m =
    rbind (get_inode pNode m) (\<lambda>(bufsize, fullpath, dirpath, dir).
    rbind (get_dir dir m) (\<lambda>es.
    case next_entry type es of
      None \<Rightarrow> rbind (mem_put dir (Dir_Stream []) m) (\<lambda>m. inode_stop pNode entry m)
    | Some (d_name, es) \<Rightarrow>
        rbind (mem_put dir (Dir_Stream es) m) (\<lambda>m.
        rbind (get_text dirpath m) (\<lambda>path.
        rbind (c_strlen path 0) (\<lambda>len.
          let bufsize = len + length d_name + 10;
              (fullpath, m) = mem_alloc oom (Text (replicate bufsize 0)) m
          in rbind (mem_put pNode (Inode_Entry bufsize fullpath dirpath dir) m) (\<lambda>m.
             if fullpath = 0 then inode_stop pNode entry m
             else
               rbind (if len = 0 then Inl OutOfBounds else rd path (len - 1)) (\<lambda>c.
               rbind (c_snprintf (replicate bufsize 0) 0 bufsize
                        (if c = slash then cstr path @ d_name else cstr path @ [slash] @ d_name)) (\<lambda>txt.
               rbind (mem_put fullpath (Text txt) m) (\<lambda>m.
                 Inr (0, entry\<lparr>data_of := fullpath\<rparr>, m))))))))))"

definition general_foreach_inode_entry ::
    "(nat \<Rightarrow> bool) \<Rightarrow> dir_contents \<Rightarrow> cbytes option \<Rightarrow> one_item option \<Rightarrow> nat \<Rightarrow> dir_cell mem \<Rightarrow>
      (int \<times> one_item option \<times> dir_cell mem) res" where
  "general_foreach_inode_entry oom fs dirpath entry type m =
    (case (entry, dirpath) of (Some entry, Some dirpath) \<Rightarrow>
       rbind
         (if flag entry = LOOP_TYPE_START then
            let (pNode, m) = mem_alloc oom (Inode_Entry 0 0 0 0) m in
            if pNode = 0 then Inr (-1, entry, m)
            else
              let (path, m) = mem_alloc oom (Text (cstr dirpath @ replicate 10 0)) m in
              if path = 0 then rbind (mem_free pNode m) (\<lambda>m. Inr (-1, entry, m))
              else
                let (dir, m) = opendir oom fs (cstr dirpath) m in
                if dir = 0 then
                  rbind (mem_free path m) (\<lambda>m. rbind (mem_free pNode m) (\<lambda>m. Inr (-1, entry, m)))
                else
                  rbind (mem_put pNode (Inode_Entry 0 0 path dir) m) (\<lambda>m.
                    inode_next oom type pNode (entry\<lparr>flag := LOOP_TYPE_CON, this_of := pNode\<rparr>) m)
          else if flag entry = LOOP_TYPE_CON then
            rbind (get_inode (this_of entry) m) (\<lambda>(bufsize, fullpath, dirpath, dir).
              if fullpath \<noteq> 0 then
                rbind (mem_free fullpath m) (\<lambda>m.
                rbind (mem_put (this_of entry) (Inode_Entry 0 0 dirpath dir) m) (\<lambda>m.
                  inode_next oom type (this_of entry) (entry\<lparr>data_of := 0\<rparr>) m))
              else inode_next oom type (this_of entry) entry m)
          else if flag entry = LOOP_TYPE_STOP then inode_stop (this_of entry) entry m
          else Inr (-1, entry, m))
         (\<lambda>(ret, entry, m). Inr (ret, Some entry, m))
     | _ \<Rightarrow> Inr (-1, entry, m))"

definition general_foreach_dir_entry ::
    "(nat \<Rightarrow> bool) \<Rightarrow> dir_contents \<Rightarrow> cbytes option \<Rightarrow> one_item option \<Rightarrow> dir_cell mem \<Rightarrow>
      (int \<times> one_item option \<times> dir_cell mem) res" where
  "general_foreach_dir_entry oom fs path entry m = general_foreach_inode_entry oom fs path entry DT_DIR m"

definition general_foreach_regfile_entry ::
    "(nat \<Rightarrow> bool) \<Rightarrow> dir_contents \<Rightarrow> cbytes option \<Rightarrow> one_item option \<Rightarrow> dir_cell mem \<Rightarrow>
      (int \<times> one_item option \<times> dir_cell mem) res" where
  "general_foreach_regfile_entry oom fs path entry m = general_foreach_inode_entry oom fs path entry DT_REG m"

text \<open>
  \<open>general_find_proc_pid\<close>: the callback gets the path and the caller's data, and stops the walk
  with a value other than 0.  \<open>fuel\<close> bounds the calls of the iterator.
\<close>

type_synonym dir_state = "one_item option \<times> dir_cell mem"

definition dir_stop :: "dir_state \<Rightarrow> dir_state" where
  "dir_stop = (\<lambda>(e, m). (map_option (\<lambda>e. e\<lparr>flag := LOOP_TYPE_STOP\<rparr>) e, m))"

definition find_proc_body ::
    "(cbytes \<Rightarrow> 'a \<Rightarrow> int \<times> 'a) \<Rightarrow> dir_state \<Rightarrow> 'a \<Rightarrow> (bool \<times> 'a) res" where
  "find_proc_body callback = (\<lambda>(ent, m) userarg.
     case ent of None \<Rightarrow> Inl NullDeref
     | Some ent \<Rightarrow>
         rbind (get_text (data_of ent) m) (\<lambda>bs.
           let path = cstr bs in
           case c_strrchr path slash of None \<Rightarrow> Inr (False, userarg)
           | Some k \<Rightarrow>
               if c_atoi (drop (k + 1) path) = 0 then Inr (False, userarg)
               else case callback path userarg of (ret, userarg) \<Rightarrow> Inr (ret \<noteq> 0, userarg)))"

definition PROC_DIR :: cbytes where
  "PROC_DIR = cbytes_of ''/proc'' @ [0]"

definition general_find_proc_pid ::
    "nat \<Rightarrow> (nat \<Rightarrow> bool) \<Rightarrow> dir_contents \<Rightarrow> (cbytes \<Rightarrow> 'a \<Rightarrow> int \<times> 'a) \<Rightarrow> 'a \<Rightarrow> dir_cell mem \<Rightarrow>
      (int \<times> 'a \<times> dir_cell mem) option res" where
  "general_find_proc_pid fuel oom fs callback userarg m =
    rbind (foreach_loop fuel (\<lambda>(e, m). general_foreach_dir_entry oom fs (Some PROC_DIR) e m)
             dir_stop (find_proc_body callback) (Some zero_item, m) userarg)
      (\<lambda>r. Inr (map_option (\<lambda>((e, m), userarg). (0, userarg, m)) r))"

section \<open>The entries of a directory\<close>

definition join_path :: "cbytes \<Rightarrow> cbytes \<Rightarrow> cbytes" where
  "join_path dir name = (if dir \<noteq> [] \<and> last dir = slash then dir @ name else dir @ [slash] @ name)"

fun names_of :: "nat \<Rightarrow> dirent list \<Rightarrow> cbytes list" where
  "names_of type [] = []"
| "names_of type ((n, t) # es) =
    (if n \<noteq> [46] \<and> n \<noteq> [46, 46] \<and> t = type then n # names_of type es else names_of type es)"

lemma next_entry_None: "next_entry type es = None \<longleftrightarrow> names_of type es = []"
  by (induction type es rule: names_of.induct) auto

lemma next_entry_Some:
  "next_entry type es = Some (n, es') \<Longrightarrow> names_of type es = n # names_of type es'"
  by (induction type es rule: names_of.induct) (auto split: if_splits)

definition dir_rep ::
    "(ptr \<Rightarrow> dir_cell option) \<Rightarrow> cbytes \<Rightarrow> dirent list \<Rightarrow> ptr \<Rightarrow> ptr \<Rightarrow> ptr \<Rightarrow> ptr \<Rightarrow> dir_cell mem \<Rightarrow> bool"
  where
  "dir_rep base path es node fp dp dh m \<longleftrightarrow> mem_ok m \<and> no_nul path \<and> path \<noteq> [] \<and>
    (\<forall>e \<in> set es. no_nul (fst e)) \<and> 0 < node \<and> 0 < dp \<and> 0 < dh \<and>
    node \<noteq> dp \<and> node \<noteq> dh \<and> dp \<noteq> dh \<and> fp \<noteq> node \<and> fp \<noteq> dp \<and> fp \<noteq> dh \<and>
    (\<exists>bs. cells m node = Some (Inode_Entry bs fp dp dh)) \<and>
    cells m dp = Some (Text (path @ replicate 10 0)) \<and> cells m dh = Some (Dir_Stream es) \<and>
    (fp \<noteq> 0 \<longrightarrow> cells m fp \<noteq> None) \<and>
    (cells m)(node := None, dp := None, dh := None, fp := None) = base"

lemma dir_rep_base:
  assumes "dir_rep base path es node fp dp dh m"
  shows "base = (cells m)(node := None, dp := None, dh := None, fp := None)" and "cells m 0 = None"
    and "0 < node" "0 < dp" "0 < dh" "node \<noteq> dp" "node \<noteq> dh" "dp \<noteq> dh" "fp \<noteq> node" "fp \<noteq> dp" "fp \<noteq> dh"
  using assms mem_ok_null by (auto simp: dir_rep_def)

lemma dir_rep_gets:
  assumes "dir_rep base path es node fp dp dh m"
  obtains bs where "get_inode node m = Inr (bs, fp, dp, dh)" "get_dir dh m = Inr es"
    "get_text dp m = Inr (path @ replicate 10 0)"
  using assms by (auto simp: dir_rep_def get_inode_def get_dir_def get_text_def mem_get_some)

lemma inode_stop_rep:
  assumes "dir_rep base path es node fp dp dh m"
  shows "\<exists>m'. inode_stop node e m = Inr (-1, e\<lparr>data_of := 0, this_of := 0, flag := 0\<rparr>, m') \<and>
    cells m' = base \<and> mem_ok m'"
proof -
  note r = assms [unfolded dir_rep_def] and b = dir_rep_base [OF assms]
  obtain bs where g: "get_inode node m = Inr (bs, fp, dp, dh)" using dir_rep_gets [OF assms] by metis
  have "\<exists>m1. (if fp \<noteq> 0 then rbind (mem_free fp m) (\<lambda>m. mem_put node (Inode_Entry bs 0 dp dh) m) else Inr m) = Inr m1 \<and>
      mem_ok m1 \<and> cells m1 dp \<noteq> None \<and> cells m1 dh \<noteq> None \<and> cells m1 node \<noteq> None \<and>
      (cells m1)(dp := None, dh := None, node := None) = base"
  proof (cases "fp = 0")
    case True
    have "(cells m)(dp := None, dh := None, node := None) = base"
      unfolding b(1) True using b(2-) by (intro ext) simp
    then show ?thesis using True r by auto
  next
    case False
    obtain m0 where m0: "mem_free fp m = Inr m0" "cells m0 = (cells m)(fp := None)" "mem_ok m0"
      using mem_free_some [of m fp] r by metis
    have "cells m0 node = cells m node" using m0(2) r by simp
    then obtain m1 where m1: "mem_put node (Inode_Entry bs 0 dp dh) m0 = Inr m1"
        "cells m1 = (cells m0)(node \<mapsto> Inode_Entry bs 0 dp dh)" "mem_ok m1"
      using mem_put_some [OF m0(3), of node] r by metis
    have "(cells m1)(dp := None, dh := None, node := None) = base"
      unfolding m1(2) m0(2) unfolding b(1) using b(2-) by (intro ext) simp
    then show ?thesis using False m0 m1 r by simp
  qed
  then obtain m1 where m1: "(if fp \<noteq> 0 then rbind (mem_free fp m) (\<lambda>m. mem_put node (Inode_Entry bs 0 dp dh) m) else Inr m) = Inr m1"
      "mem_ok m1" "cells m1 dp \<noteq> None" "cells m1 dh \<noteq> None" "cells m1 node \<noteq> None"
      "(cells m1)(dp := None, dh := None, node := None) = base" by blast
  obtain m2 where m2: "mem_free dp m1 = Inr m2" "cells m2 = (cells m1)(dp := None)" "mem_ok m2"
    using mem_free_some [OF m1(2)] m1(3) by metis
  obtain m3 where m3: "mem_free dh m2 = Inr m3" "cells m3 = (cells m2)(dh := None)" "mem_ok m3"
    using mem_free_some [OF m2(3), of dh] m1(4) m2(2) r by (metis fun_upd_other)
  have "cells m3 node \<noteq> None" using m1(5) m2(2) m3(2) r by simp
  then obtain m4 where m4: "mem_free node m3 = Inr m4" "cells m4 = (cells m3)(node := None)" "mem_ok m4"
    using mem_free_some [OF m3(3)] by metis
  have "cells m4 = base" unfolding m4(2) m3(2) m2(2) by (rule m1(6))
  moreover have n: "dh \<noteq> 0" using r by simp
  ultimately show ?thesis
    using m4(3)
    unfolding inode_stop_def g rbind_simps prod.case m1(1) m2(1) if_not_P [OF n] m3(1) m4(1) by simp
qed

lemma dir_drop_full:
  assumes "dir_rep base path es node fp dp dh m" and "fp \<noteq> 0"
  shows "\<exists>m'. rbind (mem_free fp m) (\<lambda>m. mem_put node (Inode_Entry 0 0 dp dh) m) = Inr m' \<and>
    dir_rep base path es node 0 dp dh m' \<and> allocs m' = allocs m"
proof -
  note r = assms(1) [unfolded dir_rep_def] and b = dir_rep_base [OF assms(1)]
  obtain m0 where m0: "mem_free fp m = Inr m0" "cells m0 = (cells m)(fp := None)" "mem_ok m0" "allocs m0 = allocs m"
    using mem_free_some [of m fp] r by metis
  have "cells m0 node = cells m node" using m0(2) r by simp
  then obtain m1 where m1: "mem_put node (Inode_Entry 0 0 dp dh) m0 = Inr m1"
      "cells m1 = (cells m0)(node \<mapsto> Inode_Entry 0 0 dp dh)" "mem_ok m1" "allocs m1 = allocs m0"
    using mem_put_some [OF m0(3), of node] r by metis
  have "(cells m1)(node := None, dp := None, dh := None, 0 := None) = base"
    unfolding m1(2) m0(2) unfolding b(1) using b(2-) by (intro ext) simp
  moreover have "cells m1 node = Some (Inode_Entry 0 0 dp dh)" "cells m1 dp = cells m dp" "cells m1 dh = cells m dh"
    using m1(2) m0(2) r by simp_all
  ultimately have "dir_rep base path es node 0 dp dh m1"
    unfolding dir_rep_def using r m1(3) by simp
  then show ?thesis using m0(1,4) m1(1,4) by simp
qed

lemma dir_advance:
  assumes "dir_rep base path es node fp dp dh m" and "set es' \<subseteq> set es"
  shows "\<exists>m'. mem_put dh (Dir_Stream es') m = Inr m' \<and> dir_rep base path es' node fp dp dh m' \<and>
    allocs m' = allocs m"
proof -
  note r = assms(1) [unfolded dir_rep_def] and b = dir_rep_base [OF assms(1)]
  obtain m1 where m1: "mem_put dh (Dir_Stream es') m = Inr m1"
      "cells m1 = (cells m)(dh \<mapsto> Dir_Stream es')" "mem_ok m1" "allocs m1 = allocs m"
    using mem_put_some [of m dh] r by metis
  have "(cells m1)(node := None, dp := None, dh := None, fp := None) = base"
    unfolding m1(2) unfolding b(1) using b(2-) by (intro ext) simp
  then have "dir_rep base path es' node fp dp dh m1"
    unfolding dir_rep_def using r m1(2,3) assms(2) by auto
  then show ?thesis using m1(1,4) by simp
qed

lemma dir_set_full:
  assumes rep: "dir_rep base path es node 0 dp dh m"
    and m1: "mem_ok m1" "cells m p = None" "0 < p" "cells m1 = (cells m)(p \<mapsto> v)"
  shows "\<exists>m'. mem_put node (Inode_Entry n p dp dh) m1 = Inr m' \<and> dir_rep base path es node p dp dh m' \<and>
    cells m' p = Some v \<and> allocs m' = allocs m1"
proof -
  note r = rep [unfolded dir_rep_def] and b = dir_rep_base [OF rep]
  have ne: "p \<noteq> node" "p \<noteq> dp" "p \<noteq> dh" using r m1(2) by auto
  obtain m2 where m2: "mem_put node (Inode_Entry n p dp dh) m1 = Inr m2"
      "cells m2 = (cells m1)(node \<mapsto> Inode_Entry n p dp dh)" "mem_ok m2" "allocs m2 = allocs m1"
    using mem_put_some [OF m1(1), of node] m1(4) ne r by (metis fun_upd_other)
  have "(cells m2)(node := None, dp := None, dh := None, p := None) = base"
    unfolding m2(2) m1(4) unfolding b(1) using b(2-) m1(2) by (intro ext) simp
  then have "dir_rep base path es node p dp dh m2"
    unfolding dir_rep_def using r m2(2,3) m1 ne by auto
  then show ?thesis using m2 m1(4) ne by simp
qed

lemma dir_put_full:
  assumes rep: "dir_rep base path es node p dp dh m" and "p \<noteq> 0"
  shows "\<exists>m'. mem_put p v m = Inr m' \<and> dir_rep base path es node p dp dh m' \<and>
    cells m' p = Some v \<and> allocs m' = allocs m"
proof -
  note r = rep [unfolded dir_rep_def] and b = dir_rep_base [OF rep]
  obtain m2 where m2: "mem_put p v m = Inr m2" "cells m2 = (cells m)(p \<mapsto> v)" "mem_ok m2" "allocs m2 = allocs m"
    using mem_put_some [of m p] r assms(2) by (metis option.exhaust)
  have "(cells m2)(node := None, dp := None, dh := None, p := None) = base"
    unfolding m2(2) unfolding b(1) using b(2-) by (intro ext) simp
  then have "dir_rep base path es node p dp dh m2"
    unfolding dir_rep_def using r m2(2,3) by auto
  then show ?thesis using m2 by simp
qed

lemma next_entry_set: "next_entry type es = Some (n, es') \<Longrightarrow> set es' \<subseteq> set es \<and> n \<in> fst ` set es"
  by (induction type es rule: names_of.induct) (auto split: if_splits)

lemma no_nul_join: "no_nul path \<Longrightarrow> no_nul n \<Longrightarrow> no_nul (join_path path n)"
  by (auto simp: join_path_def no_nul_def)

lemma dir_next_step:
  assumes rep: "dir_rep base path es node 0 dp dh m"
  shows "case names_of type es of
      [] \<Rightarrow> \<exists>m'. inode_next oom type node e m = Inr (-1, e\<lparr>data_of := 0, this_of := 0, flag := 0\<rparr>, m') \<and>
        cells m' = base \<and> mem_ok m'
    | n # ns \<Rightarrow>
        if oom (allocs m)
        then \<exists>m'. inode_next oom type node e m = Inr (-1, e\<lparr>data_of := 0, this_of := 0, flag := 0\<rparr>, m') \<and>
          cells m' = base \<and> mem_ok m'
        else \<exists>m' es' p bs. inode_next oom type node e m = Inr (0, e\<lparr>data_of := p\<rparr>, m') \<and>
          dir_rep base path es' node p dp dh m' \<and> names_of type es' = ns \<and> p \<noteq> 0 \<and>
          cells m' p = Some (Text bs) \<and> cstr bs = join_path path n \<and> terminated bs \<and> allocs m' = Suc (allocs m)"
proof -
  obtain bs0 where g: "get_inode node m = Inr (bs0, 0, dp, dh)" "get_dir dh m = Inr es"
    by (rule dir_rep_gets [OF rep])
  show ?thesis
  proof (cases "next_entry type es")
    case None
    obtain m1 where "mem_put dh (Dir_Stream []) m = Inr m1" "dir_rep base path [] node 0 dp dh m1"
      using dir_advance [OF rep, of "[]"] by auto
    with inode_stop_rep [of base path "[]" node 0 dp dh m1 e] g None next_entry_None [of type es]
    show ?thesis by (simp add: inode_next_def)
  next
    case (Some r)
    then obtain n es' where n: "next_entry type es = Some (n, es')" by (cases r) auto
    have names: "names_of type es = n # names_of type es'" by (rule next_entry_Some [OF n])
    have nn: "no_nul n" using next_entry_set [OF n] rep by (force simp: dir_rep_def)
    have np: "no_nul path" "path \<noteq> []" using rep by (auto simp: dir_rep_def)
    obtain m1 where m1: "mem_put dh (Dir_Stream es') m = Inr m1" "dir_rep base path es' node 0 dp dh m1"
        "allocs m1 = allocs m"
      using dir_advance [OF rep, of es'] next_entry_set [OF n] by auto
    have gt: "get_text dp m1 = Inr (path @ replicate 10 0)"
      using dir_rep_gets [OF m1(2)] by metis
    have z: "replicate 10 (0 :: byte) = 0 # replicate 9 0" by (simp add: numeral_eq_Suc)
    have len: "c_strlen (path @ replicate 10 0) 0 = Inr (length path)"
      using strlen_at [OF np(1), of "[]" "replicate 9 0"] by (simp only: z append_Nil list.size)
    have last: "rd (path @ replicate 10 0) (length path - 1) = Inr (last path)"
      using np(2) by (simp add: rd_def nth_append last_conv_nth)
    have cs: "cstr (path @ replicate 10 0) = path" by (simp only: z cstr_append_nul np(1))
    let ?b = "length path + length n + 10"
    let ?t = "if last path = slash then path @ n else path @ [slash] @ n"
    have join: "?t = join_path path n" using np(2) by (simp add: join_path_def)
    have sp: "c_snprintf (replicate ?b 0) 0 ?b ?t = Inr (?t @ 0 # replicate (?b - Suc (length ?t)) 0)"
      by (rule snprintf_fits) simp
    let ?a = "mem_alloc oom (Text (replicate ?b 0)) m1"
    have e: "inode_next oom type node e m = (let (fullpath, m) = ?a in
          rbind (mem_put node (Inode_Entry ?b fullpath dp dh) m) (\<lambda>m.
             if fullpath = 0 then inode_stop node e m
             else
               rbind (mem_put fullpath (Text (?t @ 0 # replicate (?b - Suc (length ?t)) 0)) m) (\<lambda>m.
                 Inr (0, e\<lparr>data_of := fullpath\<rparr>, m))))"
      unfolding inode_next_def g rbind_simps prod.case n option.case m1(1) gt len Let_def
        if_not_P [OF np(2) [folded length_0_conv]] last cs sp by (rule refl)
    show ?thesis
    proof (cases "oom (allocs m)")
      case True
      then have o: "oom (allocs m1)" using m1(3) by simp
      obtain m2 where m2: "?a = (0, m2)" "cells m2 = cells m1" "mem_ok m2"
        using mem_alloc_none [of m1 oom "Text (replicate ?b 0)"] o m1(2) unfolding dir_rep_def by metis
      note r = m1(2) [unfolded dir_rep_def]
      obtain m3 where m3: "mem_put node (Inode_Entry ?b 0 dp dh) m2 = Inr m3"
          "cells m3 = (cells m2)(node \<mapsto> Inode_Entry ?b 0 dp dh)" "mem_ok m3"
        using mem_put_some [OF m2(3), of node] m2(2) r by metis
      have "dir_rep base path es' node 0 dp dh m3"
        unfolding dir_rep_def using r m3(2,3) m2(2) by simp
      from inode_stop_rep [OF this] show ?thesis using True names by (simp add: e m2(1) m3(1))
    next
      case False
      then have o: "\<not> oom (allocs m1)" using m1(3) by simp
      obtain p m2 where m2: "?a = (p, m2)" "0 < p" "cells m1 p = None"
          "cells m2 = (cells m1)(p \<mapsto> Text (replicate ?b 0))" "allocs m2 = Suc (allocs m1)" "mem_ok m2"
        using mem_alloc_some [of m1 oom "Text (replicate ?b 0)"] o m1(2) unfolding dir_rep_def by metis
      obtain m3 where m3: "mem_put node (Inode_Entry ?b p dp dh) m2 = Inr m3"
          "dir_rep base path es' node p dp dh m3" "allocs m3 = allocs m2"
        using dir_set_full [OF m1(2) m2(6,3,2,4), of ?b] by blast
      obtain m4 where m4: "mem_put p (Text (?t @ 0 # replicate (?b - Suc (length ?t)) 0)) m3 = Inr m4"
          "dir_rep base path es' node p dp dh m4" "allocs m4 = allocs m3"
          "cells m4 p = Some (Text (?t @ 0 # replicate (?b - Suc (length ?t)) 0))"
        using dir_put_full [OF m3(2)] m2(2) by blast
      have "inode_next oom type node e m = Inr (0, e\<lparr>data_of := p\<rparr>, m4)"
        unfolding e m2(1) Let_def prod.case m3(1) rbind_simps m4(1) using m2(2) by simp
      moreover have "cstr (?t @ 0 # replicate (?b - Suc (length ?t)) 0) = join_path path n"
        unfolding join by (rule cstr_append_nul [OF no_nul_join [OF np(1) nn]])
      moreover have "terminated (?t @ 0 # replicate (?b - Suc (length ?t)) 0)" by (simp add: terminated_def)
      moreover have "allocs m4 = Suc (allocs m)" using m4(3) m3(3) m2(5) m1(3) by simp
      ultimately show ?thesis using m4(2,4) m2(2) names False by (simp only: list.case if_False) blast
    qed
  qed
qed

section \<open>The directory entries as an item stream\<close>

definition dir_fails :: "(nat \<Rightarrow> bool) \<Rightarrow> dir_contents \<Rightarrow> cbytes \<Rightarrow> nat \<Rightarrow> bool" where
  "dir_fails oom fs path t \<longleftrightarrow> oom t \<or> oom (t + 1) \<or> oom (t + 2) \<or> fs path = None"

definition dir_items :: "(nat \<Rightarrow> bool) \<Rightarrow> dir_contents \<Rightarrow> cbytes \<Rightarrow> nat \<Rightarrow> nat \<Rightarrow> cbytes list" where
  "dir_items oom fs path type t =
    (if dir_fails oom fs path t then []
     else map (join_path path) (delivered oom (t + 3) (names_of type (the (fs path)))))"

definition dir_end :: "(ptr \<Rightarrow> dir_cell option) \<Rightarrow> dir_state \<Rightarrow> bool" where
  "dir_end base st \<longleftrightarrow> (\<exists>m. st = (Some zero_item, m) \<and> cells m = base \<and> mem_ok m)"

definition good_path :: "dir_contents \<Rightarrow> cbytes \<Rightarrow> bool" where
  "good_path fs path \<longleftrightarrow> no_nul path \<and> path \<noteq> [] \<and> (\<forall>es. fs path = Some es \<longrightarrow> (\<forall>e \<in> set es. no_nul (fst e)))"

definition dir_ready ::
    "(nat \<Rightarrow> bool) \<Rightarrow> dir_contents \<Rightarrow> cbytes \<Rightarrow> nat \<Rightarrow> (ptr \<Rightarrow> dir_cell option) \<Rightarrow> dir_state \<Rightarrow> cbytes list \<Rightarrow> bool"
  where
  "dir_ready oom fs path type base st xs \<longleftrightarrow> good_path fs path \<and>
    (\<exists>m. st = (Some zero_item, m) \<and> cells m = base \<and> mem_ok m \<and> xs = dir_items oom fs path type (allocs m))"

definition dir_at ::
    "(nat \<Rightarrow> bool) \<Rightarrow> cbytes \<Rightarrow> nat \<Rightarrow> (ptr \<Rightarrow> dir_cell option) \<Rightarrow> dir_state \<Rightarrow> cbytes \<Rightarrow> cbytes list \<Rightarrow> bool"
  where
  "dir_at oom path type base st x xs \<longleftrightarrow>
    (\<exists>e m es dp dh bs. st = (Some e, m) \<and> dir_rep base path es (this_of e) (data_of e) dp dh m \<and>
      flag e = LOOP_TYPE_CON \<and> data_of e \<noteq> 0 \<and> cells m (data_of e) = Some (Text bs) \<and> cstr bs = x \<and> terminated bs \<and>
      xs = map (join_path path) (delivered oom (allocs m) (names_of type es)))"

lemma dir_next_call:
  assumes "dir_rep base path es node 0 dp dh m" and "this_of e = node" "flag e = LOOP_TYPE_CON"
  shows "case map (join_path path) (delivered oom (allocs m) (names_of type es)) of
      [] \<Rightarrow> \<exists>st. rbind (inode_next oom type node e m) (\<lambda>(ret, e, m). Inr (ret, Some e, m)) = Inr (-1, st) \<and>
          dir_end base st
    | x # xs \<Rightarrow> \<exists>st. rbind (inode_next oom type node e m) (\<lambda>(ret, e, m). Inr (ret, Some e, m)) = Inr (0, st) \<and>
          dir_at oom path type base st x xs"
proof -
  have z: "e\<lparr>data_of := 0, this_of := 0, flag := 0\<rparr> = zero_item" by (simp add: zero_item_def)
  show ?thesis
  proof (cases "names_of type es")
    case Nil
    with dir_next_step [OF assms(1), where type = type and oom = oom and e = e] show ?thesis unfolding z by (auto simp: dir_end_def)
  next
    case (Cons n ns)
    show ?thesis
    proof (cases "oom (allocs m)")
      case True
      with Cons dir_next_step [OF assms(1), where type = type and oom = oom and e = e] show ?thesis
        unfolding z by (auto simp: dir_end_def)
    next
      case False
      with Cons dir_next_step [OF assms(1), where type = type and oom = oom and e = e] obtain m' es' p bs where
        r: "inode_next oom type node e m = Inr (0, e\<lparr>data_of := p\<rparr>, m')" "dir_rep base path es' node p dp dh m'"
          "names_of type es' = ns" "p \<noteq> 0" "cells m' p = Some (Text bs)" "cstr bs = join_path path n" "terminated bs"
          "allocs m' = Suc (allocs m)"
        by auto
      have "dir_at oom path type base (Some (e\<lparr>data_of := p\<rparr>), m') (join_path path n)
          (map (join_path path) (delivered oom (Suc (allocs m)) ns))"
        unfolding dir_at_def using r assms(2,3) by auto
      then show ?thesis using Cons False r(1) by simp
    qed
  qed
qed

lemma dir_continue:
  assumes "dir_rep base path es (this_of e) (data_of e) dp dh m" and "flag e = LOOP_TYPE_CON" and "data_of e \<noteq> 0"
  shows "\<exists>m'. general_foreach_inode_entry oom fs (Some dirpath) (Some e) type m =
      rbind (inode_next oom type (this_of e) (e\<lparr>data_of := 0\<rparr>) m') (\<lambda>(ret, e, m). Inr (ret, Some e, m)) \<and>
    dir_rep base path es (this_of e) 0 dp dh m' \<and> allocs m' = allocs m"
proof -
  obtain bs where g: "get_inode (this_of e) m = Inr (bs, data_of e, dp, dh)"
    using dir_rep_gets [OF assms(1)] by metis
  obtain m1 where m1: "rbind (mem_free (data_of e) m) (\<lambda>m. mem_put (this_of e) (Inode_Entry 0 0 dp dh) m) = Inr m1"
      "dir_rep base path es (this_of e) 0 dp dh m1" "allocs m1 = allocs m"
    using dir_drop_full [OF assms(1,3)] by blast
  then obtain m0 where "mem_free (data_of e) m = Inr m0" "mem_put (this_of e) (Inode_Entry 0 0 dp dh) m0 = Inr m1"
    by (auto simp: rbind_eq_Inr)
  then show ?thesis
    using g m1(2,3) assms(2,3)
    by (intro exI [of _ m1]) (simp add: general_foreach_inode_entry_def loop_types)
qed

lemma dir_start_open:
  assumes p: "good_path fs path" and m: "cells m = base" "mem_ok m"
    and ok: "\<not> dir_fails oom fs path (allocs m)"
  shows "\<exists>node dp dh m'. general_foreach_inode_entry oom fs (Some (path @ 0 # r)) (Some zero_item) type m =
      rbind (inode_next oom type node (zero_item\<lparr>flag := LOOP_TYPE_CON, this_of := node\<rparr>) m')
        (\<lambda>(ret, e, m). Inr (ret, Some e, m)) \<and>
    dir_rep base path (the (fs path)) node 0 dp dh m' \<and> allocs m' = allocs m + 3"
proof -
  obtain es where es: "fs path = Some es" and o: "\<not> oom (allocs m)" "\<not> oom (allocs m + 1)" "\<not> oom (allocs m + 2)"
    using ok by (auto simp: dir_fails_def)
  have np: "no_nul path" "path \<noteq> []" "\<forall>e \<in> set es. no_nul (fst e)" using p es by (auto simp: good_path_def)
  have cs: "cstr (path @ 0 # r) = path" by (rule cstr_append_nul [OF np(1)])
  obtain n m1 where m1: "mem_alloc oom (Inode_Entry 0 0 0 0) m = (n, m1)" "0 < n" "cells m n = None"
      "cells m1 = (cells m)(n \<mapsto> Inode_Entry 0 0 0 0)" "allocs m1 = Suc (allocs m)" "mem_ok m1"
    using mem_alloc_some [of m oom "Inode_Entry 0 0 0 0", OF m(2) o(1)] by metis
  obtain dp m2 where m2: "mem_alloc oom (Text (path @ replicate 10 0)) m1 = (dp, m2)" "0 < dp" "cells m1 dp = None"
      "cells m2 = (cells m1)(dp \<mapsto> Text (path @ replicate 10 0))" "allocs m2 = Suc (allocs m1)" "mem_ok m2"
    using mem_alloc_some [of m1 oom "Text (path @ replicate 10 0)", OF m1(6)] o(2) m1(5) by (metis Suc_eq_plus1)
  have "\<not> oom (allocs m2)" using o(3) m2(5) m1(5) by (simp add: numeral_2_eq_2)
  then obtain dh m3 where m3: "mem_alloc oom (Dir_Stream es) m2 = (dh, m3)" "0 < dh" "cells m2 dh = None"
      "cells m3 = (cells m2)(dh \<mapsto> Dir_Stream es)" "allocs m3 = Suc (allocs m2)" "mem_ok m3"
    using mem_alloc_some [of m2 oom "Dir_Stream es", OF m2(6)] by metis
  have ne: "n \<noteq> dp" "n \<noteq> dh" "dp \<noteq> dh" using m1(4) m2(3,4) m3(3) by (auto split: if_splits)
  have "cells m3 n = Some (Inode_Entry 0 0 0 0)" using m3(4) m2(4) m1(4) ne by simp
  from mem_put_some [OF m3(6) this, of "Inode_Entry 0 0 dp dh"] obtain m4 where
    m4: "mem_put n (Inode_Entry 0 0 dp dh) m3 = Inr m4"
      "cells m4 = (cells m3)(n \<mapsto> Inode_Entry 0 0 dp dh)" "allocs m4 = allocs m3" "mem_ok m4" by metis
  have fresh: "cells m dp = None" "cells m dh = None"
    using m2(3) m3(3) m1(4) m2(4) ne by (auto split: if_splits)
  have "(cells m4)(n := None, dp := None, dh := None, 0 := None) = base"
    unfolding m(1) [symmetric] m1(4) m2(4) m3(4) m4(2)
    using m1(3) fresh ne mem_ok_null [OF m(2)] by (intro ext) simp
  then have "dir_rep base path es n 0 dp dh m4"
    unfolding dir_rep_def using np m4(2,4) m3(2,4) m2(2,4) m1(2) ne by simp
  moreover have "general_foreach_inode_entry oom fs (Some (path @ 0 # r)) (Some zero_item) type m =
      rbind (inode_next oom type n (zero_item\<lparr>flag := LOOP_TYPE_CON, this_of := n\<rparr>) m4)
        (\<lambda>(ret, e, m). Inr (ret, Some e, m))"
    using m1(1,2) m2(1,2) m3(1,2) m4(1) es
    by (simp add: general_foreach_inode_entry_def zero_item_def loop_types cs opendir_def)
  moreover have "allocs m4 = allocs m + 3" using m4(3) m3(5) m2(5) m1(5) by simp
  moreover have "the (fs path) = es" using es by simp
  ultimately show ?thesis by metis
qed

lemma dir_start_fail:
  assumes p: "good_path fs path" and m: "cells m = base" "mem_ok m"
    and bad: "dir_fails oom fs path (allocs m)"
  shows "\<exists>st. general_foreach_inode_entry oom fs (Some (path @ 0 # r)) (Some zero_item) type m = Inr (-1, st) \<and>
    dir_end base st"
proof -
  have cs: "cstr (path @ 0 # r) = path" using p by (auto simp: good_path_def intro: cstr_append_nul)
  note defs = general_foreach_inode_entry_def loop_types cs
  have f: "flag zero_item = 0" by (simp add: zero_item_def)
  show ?thesis
  proof (cases "oom (allocs m)")
    case True
    obtain m1 where "mem_alloc oom (Inode_Entry 0 0 0 0) m = (0, m1)" "cells m1 = cells m" "mem_ok m1"
      using mem_alloc_none [of m oom "Inode_Entry 0 0 0 0", OF m(2) True] by metis
    then show ?thesis using m(1) by (simp add: defs f dir_end_def)
  next
    case o1: False
    obtain n m1 where m1: "mem_alloc oom (Inode_Entry 0 0 0 0) m = (n, m1)" "0 < n" "cells m n = None"
        "cells m1 = (cells m)(n \<mapsto> Inode_Entry 0 0 0 0)" "allocs m1 = Suc (allocs m)" "mem_ok m1"
      using mem_alloc_some [of m oom "Inode_Entry 0 0 0 0", OF m(2) o1] by metis
    show ?thesis
    proof (cases "oom (allocs m1)")
      case True
      obtain m2 where m2: "mem_alloc oom (Text (path @ replicate 10 0)) m1 = (0, m2)" "cells m2 = cells m1" "mem_ok m2"
        using mem_alloc_none [of m1 oom "Text (path @ replicate 10 0)", OF m1(6) True] by metis
      obtain m3 where m3: "mem_free n m2 = Inr m3" "cells m3 = (cells m2)(n := None)" "mem_ok m3"
        using mem_free_some [OF m2(3), of n] m2(2) m1(4) by (metis fun_upd_same option.distinct(1))
      have "cells m3 = base" using m3(2) m2(2) m1(3,4) m(1) by (simp add: fun_upd_idem)
      then show ?thesis using m1(1,2) m2(1) m3(1,3) by (simp add: defs f dir_end_def)
    next
      case o2: False
      obtain dp m2 where m2: "mem_alloc oom (Text (path @ replicate 10 0)) m1 = (dp, m2)" "0 < dp" "cells m1 dp = None"
          "cells m2 = (cells m1)(dp \<mapsto> Text (path @ replicate 10 0))" "allocs m2 = Suc (allocs m1)" "mem_ok m2"
        using mem_alloc_some [of m1 oom "Text (path @ replicate 10 0)", OF m1(6) o2] by metis
      have "fs path = None \<or> oom (allocs m2)"
        using bad o1 o2 m1(5) m2(5) by (auto simp: dir_fails_def)
      then obtain m3 where m3: "opendir oom fs path m2 = (0, m3)" "cells m3 = cells m2" "mem_ok m3"
        using mem_alloc_none [of m2 oom _, OF m2(6)] m2(6) by (cases "fs path") (auto simp: opendir_def)
      have ne: "n \<noteq> dp" using m1(4) m2(3) by auto
      obtain m4 where m4: "mem_free dp m3 = Inr m4" "cells m4 = (cells m3)(dp := None)" "mem_ok m4"
        using mem_free_some [OF m3(3), of dp] m3(2) m2(4) by (metis fun_upd_same option.distinct(1))
      have "cells m4 n \<noteq> None" using m4(2) m3(2) m2(4) m1(4) ne by simp
      then obtain m5 where m5: "mem_free n m4 = Inr m5" "cells m5 = (cells m4)(n := None)" "mem_ok m5"
        using mem_free_some [OF m4(3)] by metis
      have "cells m5 = base" unfolding m5(2) m4(2) m3(2) m2(4) m1(4) m(1) [symmetric]
        using m1(3) m2(3) m1(4) ne by (intro ext) (auto split: if_splits)
      then show ?thesis using m1(1,2) m2(1,2) m3(1) m4(1) m5(1,3) by (simp add: defs f dir_end_def)
    qed
  qed
qed

interpretation dir_stream: item_stream
  "\<lambda>(e, m). general_foreach_inode_entry oom fs (Some (path @ 0 # r)) e type m" dir_stop
  "dir_ready oom fs path type base" "dir_at oom path type base" "dir_end base"
  for oom fs path r type base
proof unfold_locales
  let ?step = "\<lambda>(e, m). general_foreach_inode_entry oom fs (Some (path @ 0 # r)) e type m"
  have start: "case xs of [] \<Rightarrow> \<exists>t. ?step st = Inr (-1, t) \<and> dir_end base t
      | x # xs \<Rightarrow> \<exists>t. ?step st = Inr (0, t) \<and> dir_at oom path type base t x xs"
    if "dir_ready oom fs path type base st xs" for st xs
  proof -
    from that obtain m where f: "good_path fs path" "st = (Some zero_item, m)" "cells m = base" "mem_ok m"
        "xs = dir_items oom fs path type (allocs m)"
      unfolding dir_ready_def by blast
    show ?thesis
    proof (cases "dir_fails oom fs path (allocs m)")
      case True
      with dir_start_fail [OF f(1,3,4) True, of r type] f(2,5) show ?thesis by (simp add: dir_items_def)
    next
      case False
      obtain node dp dh m' where n: "general_foreach_inode_entry oom fs (Some (path @ 0 # r)) (Some zero_item) type m =
          rbind (inode_next oom type node (zero_item\<lparr>flag := LOOP_TYPE_CON, this_of := node\<rparr>) m')
            (\<lambda>(ret, e, m). Inr (ret, Some e, m))"
        "dir_rep base path (the (fs path)) node 0 dp dh m'" "allocs m' = allocs m + 3"
        using dir_start_open [OF f(1,3,4) False, of r type] by blast
      from dir_next_call [OF n(2), of "zero_item\<lparr>flag := LOOP_TYPE_CON, this_of := node\<rparr>" oom type] n(1,3) f(2,5) False
      show ?thesis by (auto simp: dir_items_def split: list.splits)
    qed
  qed
  show "\<exists>t. ?step st = Inr (0, t) \<and> dir_at oom path type base t x xs"
    if "dir_ready oom fs path type base st (x # xs)" for st x xs
    using start [OF that] by simp
  show "\<exists>t ret. ?step st = Inr (ret, t) \<and> ret \<noteq> 0 \<and> dir_end base t"
    if "dir_ready oom fs path type base st []" for st
    using start [OF that] by force
  have next_call: "case xs of [] \<Rightarrow> \<exists>t. ?step st = Inr (-1, t) \<and> dir_end base t
      | x # xs \<Rightarrow> \<exists>t. ?step st = Inr (0, t) \<and> dir_at oom path type base t x xs"
    if at: "dir_at oom path type base st y xs" for st y xs
  proof -
    from at obtain e m es dp dh where f: "st = (Some e, m)" "dir_rep base path es (this_of e) (data_of e) dp dh m"
        "flag e = LOOP_TYPE_CON" "data_of e \<noteq> 0" "xs = map (join_path path) (delivered oom (allocs m) (names_of type es))"
      unfolding dir_at_def by blast
    obtain m' where c: "general_foreach_inode_entry oom fs (Some (path @ 0 # r)) (Some e) type m =
        rbind (inode_next oom type (this_of e) (e\<lparr>data_of := 0\<rparr>) m') (\<lambda>(ret, e, m). Inr (ret, Some e, m))"
        "dir_rep base path es (this_of e) 0 dp dh m'" "allocs m' = allocs m"
      using dir_continue [OF f(2-4)] by blast
    from dir_next_call [OF c(2), of "e\<lparr>data_of := 0\<rparr>" oom type] c(1,3) f(1,3,5)
    show ?thesis by (auto split: list.splits)
  qed
  show "\<exists>t. ?step st = Inr (0, t) \<and> dir_at oom path type base t x xs"
    if "dir_at oom path type base st y (x # xs)" for st y x xs
    using next_call [OF that] by simp
  show "\<exists>t ret. ?step st = Inr (ret, t) \<and> ret \<noteq> 0 \<and> dir_end base t"
    if "dir_at oom path type base st y []" for st y
    using next_call [OF that] by force
  show "\<exists>t ret. ?step (dir_stop st) = Inr (ret, t) \<and> ret \<noteq> 0 \<and> dir_end base t"
    if at: "dir_at oom path type base st y xs" for st y xs
  proof -
    from at obtain e m es dp dh where f: "st = (Some e, m)" "dir_rep base path es (this_of e) (data_of e) dp dh m"
      unfolding dir_at_def by blast
    have "e\<lparr>flag := LOOP_TYPE_STOP, data_of := 0, this_of := 0, flag := 0\<rparr> = zero_item" by (simp add: zero_item_def)
    with inode_stop_rep [OF f(2), of "e\<lparr>flag := LOOP_TYPE_STOP\<rparr>"] f(1) show ?thesis
      by (auto simp: dir_stop_def general_foreach_inode_entry_def loop_types dir_end_def)
  qed
qed

section \<open>The loops over a directory\<close>

definition keep_path :: "dir_state \<Rightarrow> cbytes list \<Rightarrow> (bool \<times> cbytes list) res" where
  "keep_path = (\<lambda>(e, m) acc. case e of None \<Rightarrow> Inl NullDeref
     | Some e \<Rightarrow> rbind (get_text (data_of e) m) (\<lambda>bs. Inr (False, acc @ [cstr bs])))"

lemma text_at:
  assumes "dir_at oom path type base st x xs"
  obtains e m bs where "st = (Some e, m)" "get_text (data_of e) m = Inr bs" "cstr bs = x" "terminated bs"
proof -
  from assms obtain e m es dp dh bs where "st = (Some e, m)" "dir_rep base path es (this_of e) (data_of e) dp dh m"
      "cells m (data_of e) = Some (Text bs)" "cstr bs = x" "terminated bs"
    unfolding dir_at_def by blast
  then show ?thesis using that by (simp add: get_text_def mem_get_some dir_rep_def)
qed

lemma keep_path_at: "dir_at oom path type base st x xs \<Longrightarrow> keep_path st acc = Inr (False, acc @ [x])"
  by (erule text_at) (simp add: keep_path_def)

lemma dir_items_take:
  "\<exists>n. dir_items oom fs path type t = map (join_path path) (take n (names_of type (the (fs path)))) \<and>
    ((\<forall>k. \<not> oom k) \<and> fs path \<noteq> None \<longrightarrow> n = length (names_of type (the (fs path))))"
proof -
  obtain k where k: "delivered oom (t + 3) (names_of type (the (fs path))) = take k (names_of type (the (fs path)))"
      "(\<forall>k. \<not> oom k) \<longrightarrow> k = length (names_of type (the (fs path)))"
    using delivered_take by blast
  show ?thesis
  proof (cases "dir_fails oom fs path t")
    case True
    then show ?thesis by (intro exI [of _ 0]) (auto simp: dir_items_def dir_fails_def)
  next
    case False
    then show ?thesis using k by (intro exI [of _ k]) (simp add: dir_items_def)
  qed
qed

lemma dir_loop:
  assumes "good_path fs path" and "mem_ok m" and "fs path = Some es" and "length (names_of type es) < fuel"
    and body: "\<And>st x xs a. dir_at oom path type (cells m) st x xs \<Longrightarrow> body st a = Inr (g x a)"
  shows "\<exists>m' n. foreach_loop fuel (\<lambda>(e, m). general_foreach_inode_entry oom fs (Some (path @ 0 # r)) e type m)
      dir_stop body (Some zero_item, m) a =
        Inr (Some ((Some zero_item, m'), visit g (map (join_path path) (take n (names_of type es))) a)) \<and>
    cells m' = cells m \<and> mem_ok m' \<and> ((\<forall>k. \<not> oom k) \<longrightarrow> n = length (names_of type es))"
proof -
  obtain n where n: "dir_items oom fs path type (allocs m) = map (join_path path) (take n (names_of type es))"
      "(\<forall>k. \<not> oom k) \<longrightarrow> n = length (names_of type es)"
    using dir_items_take [of oom fs path type "allocs m"] assms(3) by auto
  have rdy: "dir_ready oom fs path type (cells m) (Some zero_item, m) (map (join_path path) (take n (names_of type es)))"
    unfolding dir_ready_def using assms(1,2) n(1) by simp
  have len: "length (map (join_path path) (take n (names_of type es))) < fuel" using assms(4) by simp
  have "\<exists>t. foreach_loop fuel (\<lambda>(e, m). general_foreach_inode_entry oom fs (Some (path @ 0 # r)) e type m)
      dir_stop body (Some zero_item, m) a =
        Inr (Some (t, visit g (map (join_path path) (take n (names_of type es))) a)) \<and> dir_end (cells m) t"
    by (rule dir_stream.loop_visits [OF rdy len]) (rule body)
  then show ?thesis using n(2) by (auto simp: dir_end_def)
qed

text \<open>What \<open>general_find_proc_pid\<close> does with the names in \<open>/proc\<close>.\<close>

definition visit_pid :: "(cbytes \<Rightarrow> 'a \<Rightarrow> int \<times> 'a) \<Rightarrow> cbytes \<Rightarrow> 'a \<Rightarrow> bool \<times> 'a" where
  "visit_pid callback name a =
    (if c_atoi name = 0 then (False, a)
     else case callback (join_path (cbytes_of ''/proc'') name) a of (ret, a) \<Rightarrow> (ret \<noteq> 0, a))"

lemma visit_cong: "(\<And>x a. x \<in> set xs \<Longrightarrow> g (h x) a = f x a) \<Longrightarrow> visit g (map h xs) a = visit f xs a"
  by (induction xs arbitrary: a) (auto split: prod.split)

lemma names_of_set: "set (names_of type es) \<subseteq> fst ` set es"
  by (induction type es rule: names_of.induct) auto

lemma find_proc:
  assumes "fs (cbytes_of ''/proc'') = Some es" and "\<forall>e \<in> set es. no_nul (fst e) \<and> slash \<notin> set (fst e)"
    and "mem_ok m" and "length es < fuel"
  shows "\<exists>m' n. general_find_proc_pid fuel oom fs callback a m =
      Inr (Some (0, visit (visit_pid callback) (take n (names_of DT_DIR es)) a, m')) \<and>
    cells m' = cells m \<and> mem_ok m' \<and> ((\<forall>k. \<not> oom k) \<longrightarrow> n = length (names_of DT_DIR es))"
proof -
  let ?p = "cbytes_of ''/proc''"
  define g where "g x a = (case c_strrchr x slash of None \<Rightarrow> (False, a)
    | Some k \<Rightarrow> if c_atoi (drop (k + 1) x) = 0 then (False, a)
        else case callback x a of (ret, a) \<Rightarrow> (ret \<noteq> 0, a))" for x a
  have p: "?p = [47, 112, 114, 111, 99]" by (simp add: cbytes_of_def)
  have gp: "good_path fs ?p" using assms(1,2) by (auto simp: good_path_def p no_nul_def)
  have len: "length (names_of DT_DIR es) < fuel"
  proof -
    have "length (names_of t es) \<le> length es" for t by (induction t es rule: names_of.induct) auto
    then show ?thesis using assms(4) by (meson le_less_trans)
  qed
  have body: "find_proc_body callback st b = Inr (g x b)" if "dir_at oom ?p DT_DIR (cells m) st x xs" for st x xs b
    using that by (elim text_at) (auto simp: find_proc_body_def g_def split: option.splits prod.splits)
  have "\<exists>m' n. foreach_loop fuel (\<lambda>(e, m). general_foreach_inode_entry oom fs (Some (?p @ 0 # [])) e DT_DIR m)
      dir_stop (find_proc_body callback) (Some zero_item, m) a =
        Inr (Some ((Some zero_item, m'), visit g (map (join_path ?p) (take n (names_of DT_DIR es))) a)) \<and>
      cells m' = cells m \<and> mem_ok m' \<and> ((\<forall>k. \<not> oom k) \<longrightarrow> n = length (names_of DT_DIR es))"
    by (rule dir_loop [OF gp assms(3,1) len]) (rule body)
  then obtain m' n where l: "foreach_loop fuel (\<lambda>(e, m). general_foreach_inode_entry oom fs (Some (?p @ 0 # [])) e DT_DIR m)
      dir_stop (find_proc_body callback) (Some zero_item, m) a =
        Inr (Some ((Some zero_item, m'), visit g (map (join_path ?p) (take n (names_of DT_DIR es))) a))"
      "cells m' = cells m" "mem_ok m'" "(\<forall>k. \<not> oom k) \<longrightarrow> n = length (names_of DT_DIR es)"
    by blast
  have "visit g (map (join_path ?p) (take n (names_of DT_DIR es))) a = visit (visit_pid callback) (take n (names_of DT_DIR es)) a"
  proof (rule visit_cong)
    fix x b assume "x \<in> set (take n (names_of DT_DIR es))"
    then have "x \<in> fst ` set es" using names_of_set in_set_takeD by fastforce
    then have s: "slash \<notin> set x" using assms(2) by auto
    have "join_path ?p x = ?p @ slash # x" by (simp add: join_path_def p)
    moreover have "c_strrchr (?p @ slash # x) slash = Some (length ?p)" by (rule c_strrchr_at [OF s])
    ultimately show "g (join_path ?p x) b = visit_pid callback x b" by (simp add: g_def visit_pid_def)
  qed
  with l show ?thesis
    by (intro exI [of _ m'] exI [of _ n])
      (simp add: general_find_proc_pid_def general_foreach_dir_entry_def PROC_DIR_def)
qed

section \<open>Properties\<close>

text \<open>C12: the loop over \<open>general_foreach_dir_entry\<close> or \<open>general_foreach_regfile_entry\<close> yields
  the paths of the entries of the wanted type in the order of the directory, without \<open>.\<close> and
  \<open>..\<close>, joined with exactly one slash; it never faults, whichever allocation fails, releases all
  it allocated and the directory, and leaves the entry ready for another loop.\<close>

theorem general_foreach_entries:
  assumes "good_path fs path" and "mem_ok m" and "fs path = Some es" and "length (names_of type es) < fuel"
  shows "\<exists>m' n. foreach_loop fuel (\<lambda>(e, m). general_foreach_inode_entry oom fs (Some (path @ 0 # r)) e type m)
      dir_stop keep_path (Some zero_item, m) [] =
        Inr (Some ((Some zero_item, m'), map (join_path path) (take n (names_of type es)))) \<and>
    cells m' = cells m \<and> ((\<forall>k. \<not> oom k) \<longrightarrow> n = length (names_of type es))"
proof -
  have "\<exists>m' n. foreach_loop fuel (\<lambda>(e, m). general_foreach_inode_entry oom fs (Some (path @ 0 # r)) e type m)
      dir_stop keep_path (Some zero_item, m) [] =
        Inr (Some ((Some zero_item, m'),
          visit (\<lambda>x a. (False, a @ [x])) (map (join_path path) (take n (names_of type es))) [])) \<and>
    cells m' = cells m \<and> mem_ok m' \<and> ((\<forall>k. \<not> oom k) \<longrightarrow> n = length (names_of type es))"
    by (rule dir_loop [OF assms]) (rule keep_path_at)
  moreover have "visit (\<lambda>x a. (False, a @ [x])) xs [] = xs" for xs :: "cbytes list"
    using visit_all [of "\<lambda>x. x" xs "[]"] by simp
  ultimately show ?thesis by metis
qed

theorem general_foreach_entries_witness:
  "\<exists>m' n. foreach_loop 9 (\<lambda>(e, m). general_foreach_inode_entry (\<lambda>_. False)
        (\<lambda>_. Some [([46], 4), ([97], 4), ([98], 8), ([99], 4)]) (Some ([47] @ 0 # [])) e DT_DIR m)
      dir_stop keep_path (Some zero_item, \<lparr>cells = \<lambda>_. None, allocs = 0\<rparr>) [] =
        Inr (Some ((Some zero_item, m'), map (join_path [47])
          (take n (names_of DT_DIR [([46], 4), ([97], 4), ([98], 8), ([99], 4)])))) \<and>
    cells m' = cells \<lparr>cells = \<lambda>_. None, allocs = 0\<rparr> \<and>
    ((\<forall>k :: nat. \<not> False) \<longrightarrow> n = length (names_of DT_DIR [([46], 4), ([97], 4), ([98], 8), ([99], 4)]))"
  by (rule general_foreach_entries) (simp_all add: good_path_def no_nul_def mem_ok_def DT_DIR_def)

text \<open>C11: \<open>general_find_proc_pid\<close> calls back exactly once for each directory of \<open>/proc\<close> whose
  name \<open>atoi\<close> does not read as 0, in order, until the callback returns a value other than 0; it
  returns 0 and releases what the walk allocated also when it is stopped.\<close>

theorem general_find_proc_pid_visits:
  assumes "fs (cbytes_of ''/proc'') = Some es" and "\<forall>e \<in> set es. no_nul (fst e) \<and> slash \<notin> set (fst e)"
    and "mem_ok m" and "length es < fuel"
  shows "\<exists>m' n. general_find_proc_pid fuel oom fs callback a m =
      Inr (Some (0, visit (visit_pid callback) (take n (names_of DT_DIR es)) a, m')) \<and>
    cells m' = cells m \<and> mem_ok m' \<and> ((\<forall>k. \<not> oom k) \<longrightarrow> n = length (names_of DT_DIR es))"
  using assms by (rule find_proc)

theorem general_find_proc_pid_visits_witness:
  "\<exists>m' n. general_find_proc_pid 9 (\<lambda>_. False) (\<lambda>_. Some [([49, 50], 4), ([97], 4), ([55], 4)])
      (\<lambda>path n. (if n = 1 then -1 else 0, n + 1)) (0 :: nat) \<lparr>cells = \<lambda>_. None, allocs = 0\<rparr> =
      Inr (Some (0, visit (visit_pid (\<lambda>path n. (if n = 1 then -1 else 0, n + 1)))
        (take n (names_of DT_DIR [([49, 50], 4), ([97], 4), ([55], 4)])) 0, m')) \<and>
    cells m' = cells \<lparr>cells = \<lambda>_. None, allocs = 0\<rparr> \<and> mem_ok m' \<and>
    ((\<forall>k :: nat. \<not> False) \<longrightarrow> n = length (names_of DT_DIR [([49, 50], 4), ([97], 4), ([55], 4)]))"
  by (rule general_find_proc_pid_visits) (simp_all add: no_nul_def mem_ok_def)

end
