(* ===== verification/Fcp_File.thy ===== *)
theory Fcp_File
  imports Kernel_Fds Gen_Dir
begin

text \<open>
  \<open>src/src/myfcp/fcp_file.c\<close>: the type tests, the kind of an executable, opening with
  close-on-exec; and \<open>program_is_running\<close> of \<open>fcp_base.c\<close>, which also lives on descriptors.
  \<open>stat\<close> is a function from path to mode and size, and \<open>None\<close> is its failure.
\<close>

section \<open>Type tests\<close>

record stat_buf =
  st_mode :: u32
  st_size :: int

type_synonym stat_fn = "cbytes \<Rightarrow> stat_buf option"

definition S_IFMT :: u32 where "S_IFMT = 0xF000"
definition S_IFSOCK :: u32 where "S_IFSOCK = 0xC000"
definition S_IFLNK :: u32 where "S_IFLNK = 0xA000"
definition S_IFREG :: u32 where "S_IFREG = 0x8000"
definition S_IFBLK :: u32 where "S_IFBLK = 0x6000"
definition S_IFDIR :: u32 where "S_IFDIR = 0x4000"
definition S_IFCHR :: u32 where "S_IFCHR = 0x2000"
definition S_IFIFO :: u32 where "S_IFIFO = 0x1000"

text \<open>The value of a C comparison.\<close>

definition c_truth :: "bool \<Rightarrow> u32" where
  "c_truth b = (if b then 1 else 0)"

text \<open>\<open>st.st_mode & S_IFMT == type\<close> is \<open>st.st_mode & (S_IFMT == type)\<close>.\<close>

definition judge_file_type :: "stat_fn \<Rightarrow> cbytes \<Rightarrow> u32 \<Rightarrow> int" where
  "judge_file_type stat path type =
    (case stat path of None \<Rightarrow> 0
     | Some st \<Rightarrow> if st_mode st AND c_truth (S_IFMT = type) \<noteq> 0 then 1 else 0)"

definition file_is_dir :: "stat_fn \<Rightarrow> cbytes \<Rightarrow> int" where
  "file_is_dir stat path = judge_file_type stat path S_IFDIR"

definition file_is_reg :: "stat_fn \<Rightarrow> cbytes \<Rightarrow> int" where
  "file_is_reg stat path = judge_file_type stat path S_IFREG"

definition file_is_lnk :: "stat_fn \<Rightarrow> cbytes \<Rightarrow> int" where
  "file_is_lnk stat path = judge_file_type stat path S_IFLNK"

definition file_is_blk :: "stat_fn \<Rightarrow> cbytes \<Rightarrow> int" where
  "file_is_blk stat path = judge_file_type stat path S_IFBLK"

definition file_is_chr :: "stat_fn \<Rightarrow> cbytes \<Rightarrow> int" where
  "file_is_chr stat path = judge_file_type stat path S_IFCHR"

definition file_is_fifo :: "stat_fn \<Rightarrow> cbytes \<Rightarrow> int" where
  "file_is_fifo stat path = judge_file_type stat path S_IFIFO"

definition file_is_sock :: "stat_fn \<Rightarrow> cbytes \<Rightarrow> int" where
  "file_is_sock stat path = judge_file_type stat path S_IFSOCK"

section \<open>The kind of an executable\<close>

datatype exec_type =
    EXEC_TYPE_NOTEXEC | EXEC_TYPE_ELF_EXC | EXEC_TYPE_ELF_DYN | EXEC_TYPE_ELF_REL | EXEC_TYPE_ELF_CORE
  | EXEC_TYPE_SHELL_SCRPT | EXEC_TYPE_PYTHON_SCRPT | EXEC_TYPE_SUSPICIOUS_SCRPT | EXEC_TYPE_OTHER_SCRPT
  | EXEC_TYPE_MAX

definition ELF_HEADER_SIZE :: nat where "ELF_HEADER_SIZE = 52"

definition S_IXUGO :: u32 where "S_IXUGO = 0x49"

text \<open>\<open>e_type\<close> of an \<open>elf32_hdr\<close>: the 16-bit number at offset 16, little-endian.\<close>

definition e_type :: "cbytes \<Rightarrow> nat" where
  "e_type buff = unat (buff ! 16) + 256 * unat (buff ! 17)"

definition elf_kind :: "cbytes \<Rightarrow> exec_type option" where
  "elf_kind buff =
    (if take 4 buff = 127 # cbytes_of ''ELF'' then
       if e_type buff = 2 then Some EXEC_TYPE_ELF_EXC
       else if e_type buff = 3 then Some EXEC_TYPE_ELF_DYN
       else if e_type buff = 1 then Some EXEC_TYPE_ELF_REL
       else if e_type buff = 4 then Some EXEC_TYPE_ELF_CORE
       else None
     else None)"

definition starts_with :: "cbytes \<Rightarrow> string \<Rightarrow> bool" where
  "starts_with buff s = c_strneq (cstr buff) (cbytes_of s) (length s)"

text \<open>The decision, on the zeroed buffer of 256 bytes and the result of \<open>read\<close>.\<close>

definition buffer_kind :: "stat_buf \<Rightarrow> cbytes \<Rightarrow> int \<Rightarrow> exec_type" where
  "buffer_kind st buff ret =
    (case (if ret = int ELF_HEADER_SIZE then elf_kind buff else None) of
       Some t \<Rightarrow> t
     | None \<Rightarrow>
         if starts_with buff ''#!/bin/bash'' \<or> starts_with buff ''#!/bin/sh'' then EXEC_TYPE_SHELL_SCRPT
         else if starts_with buff ''#!/bin/python'' then EXEC_TYPE_PYTHON_SCRPT
         else if st_mode st AND S_IXUGO \<noteq> 0 then EXEC_TYPE_SUSPICIOUS_SCRPT
         else EXEC_TYPE_NOTEXEC)"

text \<open>\<open>content path\<close> are the bytes of the file; \<open>read_fails\<close> is a \<open>read\<close> that returns \<open>-1\<close>.\<close>

definition file_execute_type ::
    "stat_fn \<Rightarrow> (cbytes \<Rightarrow> cbytes) \<Rightarrow> bool \<Rightarrow> answers \<Rightarrow> cbytes \<Rightarrow> kern \<Rightarrow> exec_type \<times> kern" where
  "file_execute_type stat content read_fails ans path k =
    (if file_is_reg stat path \<noteq> 0 \<and> file_is_lnk stat path = 0 then (EXEC_TYPE_NOTEXEC, k)
     else case stat path of None \<Rightarrow> (EXEC_TYPE_NOTEXEC, k)
     | Some st \<Rightarrow>
         if st_size st = 0 then (EXEC_TYPE_NOTEXEC, k)
         else case k_new 0 0 ans k of (fd, k) \<Rightarrow>
           if fd \<le> 0 then (EXEC_TYPE_NOTEXEC, k)
           else if read_fails then (buffer_kind st (replicate 256 0) (-1), k)
           else
             let got = take ELF_HEADER_SIZE (content path)
             in (buffer_kind st (got @ replicate (256 - length got) 0) (int (length got)), k))"

section \<open>Opening\<close>

text \<open>\<open>has_o_cloexec\<close> and \<open>has_fd_cloexec\<close>: the system defines \<open>O_CLOEXEC\<close>, \<open>FD_CLOEXEC\<close>.\<close>

definition fileutil_open_on_closeexec ::
    "bool \<Rightarrow> bool \<Rightarrow> cbytes option \<Rightarrow> u32 \<Rightarrow> answers \<Rightarrow> kern \<Rightarrow> int \<times> kern" where
  "fileutil_open_on_closeexec has_o_cloexec has_fd_cloexec pathname flags ans k =
    (case pathname of None \<Rightarrow> (-1, k)
     | Some path \<Rightarrow>
         if path = [] then (-1, k)
         else if has_o_cloexec then
           (let flags = flags OR O_CLOEXEC in
            case k_new (flags AND NOT O_CLOEXEC) (if flags AND O_CLOEXEC \<noteq> 0 then FD_CLOEXEC else 0) ans k of
              (fd, k) \<Rightarrow> if fd < 0 then (-1, k) else (fd, k))
         else if has_fd_cloexec then
           (case k_new flags 0 ans k of (fd, k) \<Rightarrow>
              if fd < 0 then (-1, k)
              else case k_on (\<lambda>e. e\<lparr>fd_flags := FD_CLOEXEC\<rparr>) fd ans k of (r, k) \<Rightarrow>
                if r < 0 then (-1, k_close fd k) else (fd, k))
         else (-1, k))"

definition program_is_running :: "cbytes option \<Rightarrow> answers \<Rightarrow> kern \<Rightarrow> int \<times> kern" where
  "program_is_running path ans k =
    (case path of None \<Rightarrow> (-1, k)
     | Some path \<Rightarrow>
         case k_new 0 0 ans k of (fd, k) \<Rightarrow>
           if fd < 0 then (1, k)
           else case k_on id fd ans k of (ret, k) \<Rightarrow>
             if ret < 0 then (1, k_close fd k) else (0, k))"

section \<open>The directory iterators\<close>

definition comm_foreach_dir_entry ::
    "(nat \<Rightarrow> bool) \<Rightarrow> dir_contents \<Rightarrow> cbytes option \<Rightarrow> one_item option \<Rightarrow> dir_cell mem \<Rightarrow>
      (int \<times> one_item option \<times> dir_cell mem) res" where
  "comm_foreach_dir_entry oom fs path entry m = general_foreach_dir_entry oom fs path entry m"

definition comm_foreach_regfile_entry ::
    "(nat \<Rightarrow> bool) \<Rightarrow> dir_contents \<Rightarrow> cbytes option \<Rightarrow> one_item option \<Rightarrow> dir_cell mem \<Rightarrow>
      (int \<times> one_item option \<times> dir_cell mem) res" where
  "comm_foreach_regfile_entry oom fs path entry m = general_foreach_regfile_entry oom fs path entry m"

section \<open>Properties\<close>

lemma judge_never: "type \<noteq> S_IFMT \<Longrightarrow> judge_file_type stat path type = 0"
  by (simp add: judge_file_type_def c_truth_def split: option.splits)

text \<open>The type tests never answer yes: whatever \<open>stat\<close> reports, every \<open>file_is_\<close> function
  returns 0, because the mask is compared before it is applied.\<close>

lemma file_is_never:
  "file_is_dir stat path = 0 \<and> file_is_reg stat path = 0 \<and> file_is_lnk stat path = 0 \<and>
   file_is_blk stat path = 0 \<and> file_is_chr stat path = 0 \<and> file_is_fifo stat path = 0 \<and>
   file_is_sock stat path = 0"
  unfolding file_is_dir_def file_is_reg_def file_is_lnk_def file_is_blk_def file_is_chr_def file_is_fifo_def
    file_is_sock_def
  by (intro conjI; rule judge_never)
    (simp_all add: S_IFMT_def S_IFDIR_def S_IFREG_def S_IFLNK_def S_IFBLK_def S_IFCHR_def S_IFIFO_def S_IFSOCK_def)

lemma file_is_reg_never: "file_is_reg stat path = 0"
  unfolding file_is_reg_def by (rule judge_never) (simp add: S_IFREG_def S_IFMT_def)

text \<open>What a file is, told of its bytes: an object file when it has a whole header (52 bytes) that starts with
  the magic number and holds a known type, the two bytes from offset 16 on; then a script by its first
  line; then anything that some class of users may execute.\<close>

definition elf_types :: "(byte \<times> exec_type) list" where
  "elf_types = [(1, EXEC_TYPE_ELF_REL), (2, EXEC_TYPE_ELF_EXC), (3, EXEC_TYPE_ELF_DYN), (4, EXEC_TYPE_ELF_CORE)]"

definition elf_meaning :: "cbytes \<Rightarrow> exec_type option" where
  "elf_meaning bytes =
    (if length bytes < 52 \<or> take 4 bytes \<noteq> [0x7F, 0x45, 0x4C, 0x46] \<or> drop 17 (take 18 bytes) \<noteq> [0] then None
     else map_of elf_types (hd (drop 16 bytes)))"

definition begins :: "cbytes \<Rightarrow> string \<Rightarrow> bool" where
  "begins bytes s \<longleftrightarrow> take (length s) bytes = cbytes_of s"

definition kind_of :: "stat_buf \<Rightarrow> cbytes \<Rightarrow> exec_type" where
  "kind_of st bytes =
    (case elf_meaning bytes of Some t \<Rightarrow> t
     | None \<Rightarrow>
        if begins bytes ''#!/bin/bash'' \<or> begins bytes ''#!/bin/sh'' then EXEC_TYPE_SHELL_SCRPT
        else if begins bytes ''#!/bin/python'' then EXEC_TYPE_PYTHON_SCRPT
        else if bit (st_mode st) 0 \<or> bit (st_mode st) 3 \<or> bit (st_mode st) 6 then EXEC_TYPE_SUSPICIOUS_SCRPT
        else EXEC_TYPE_NOTEXEC)"

lemma exec_bits: "m AND S_IXUGO \<noteq> 0 \<longleftrightarrow> bit m 0 \<or> bit m 3 \<or> bit (m :: u32) 6"
proof -
  have e: "S_IXUGO = set_bit 0 (set_bit 3 (set_bit 6 0))" by (simp add: S_IXUGO_def set_bit_eq_or)
  have "bit S_IXUGO n \<longleftrightarrow> n = 0 \<or> n = 3 \<or> n = 6" for n
    by (simp only: e bit_set_bit_iff) auto
  then have b: "bit (m AND S_IXUGO) n \<longleftrightarrow> bit m n \<and> (n = 0 \<or> n = 3 \<or> n = 6)" for n
    by (simp add: bit_and_iff)
  show ?thesis
  proof
    assume "m AND S_IXUGO \<noteq> 0"
    then obtain n where "bit (m AND S_IXUGO) n" using bit_eqI [of "m AND S_IXUGO" 0] by auto
    then show "bit m 0 \<or> bit m 3 \<or> bit m 6" by (auto simp: b)
  next
    assume "bit m 0 \<or> bit m 3 \<or> bit m 6"
    then obtain n where "bit (m AND S_IXUGO) n" by (auto simp: b)
    then show "m AND S_IXUGO \<noteq> 0" by auto
  qed
qed

lemma elf_kind_meaning:
  assumes "52 \<le> length bytes"
  shows "elf_kind bytes = elf_meaning bytes"
proof -
  define t u where "t = bytes ! 16" and "u = bytes ! 17"
  have "drop 16 bytes = t # drop 17 bytes" "drop 17 (take 18 bytes) = [u]"
    using assms Cons_nth_drop_Suc [of 16 bytes] by (simp_all add: t_def u_def drop_take take_Suc_conv_app_nth hd_drop_conv_nth take_Suc)
  moreover have "e_type bytes = k \<longleftrightarrow> u = 0 \<and> t = word_of_nat k" if "k < 256" for k
  proof -
    have "unat t < 256" using unsigned_less [where 'a = nat, of t] by simp
    then have "e_type bytes = k \<longleftrightarrow> unat u = 0 \<and> unat t = k"
      using that by (auto simp: e_type_def t_def [symmetric] u_def [symmetric])
    also have "unat t = k \<longleftrightarrow> t = word_of_nat k" using that by (auto simp: unat_of_nat)
    finally show ?thesis by (simp add: unat_eq_0)
  qed
  note this [of 1] this [of 2] this [of 3] this [of 4]
  ultimately show ?thesis
    using assms by (simp add: elf_kind_def elf_types_def elf_meaning_def cbytes_of_def)
qed

lemma cstr_zeros: "cstr (b @ replicate n 0) = cstr b"
  by (induction b) (auto simp: cstr_def takeWhile_eq_Nil_iff)

lemma take_cstr:
  assumes "no_nul s"
  shows "take (length s) (cstr b) = s \<longleftrightarrow> take (length s) b = s"
  using assms
proof (induction s arbitrary: b)
  case (Cons c s)
  then show ?case by (cases b) (auto simp: cstr_def no_nul_def)
qed simp

lemma starts_with_prefix:
  assumes "no_nul (cbytes_of s)" "length s \<le> 52"
  shows "starts_with (take 52 bytes @ replicate n 0) s \<longleftrightarrow> take (length s) bytes = cbytes_of s"
proof -
  have len: "length (cbytes_of s) = length s" by (simp add: cbytes_of_def)
  have "take (length s) (cstr (take 52 bytes)) = cbytes_of s \<longleftrightarrow> take (length s) (take 52 bytes) = cbytes_of s"
    using take_cstr [OF assms(1), of "take 52 bytes"] by (simp only: len)
  then show ?thesis
    using assms(2) len by (simp add: starts_with_def c_strneq_def cstr_zeros)
qed

lemma elf_kind_prefix:
  assumes "52 \<le> length bytes"
  shows "elf_kind (take 52 bytes @ s) = elf_kind bytes"
  using assms by (simp add: elf_kind_def e_type_def nth_append)

lemma buffer_kind_of:
  "buffer_kind st (take ELF_HEADER_SIZE b @ replicate n 0) (int (length (take ELF_HEADER_SIZE b))) = kind_of st b"
proof -
  have "no_nul (cbytes_of ''#!/bin/bash'')" "no_nul (cbytes_of ''#!/bin/sh'')" "no_nul (cbytes_of ''#!/bin/python'')"
    by (simp_all add: cbytes_of_def cstr_simps)
  then have sw:
    "starts_with (take 52 b @ replicate n 0) ''#!/bin/bash'' \<longleftrightarrow> begins b ''#!/bin/bash''"
    "starts_with (take 52 b @ replicate n 0) ''#!/bin/sh'' \<longleftrightarrow> begins b ''#!/bin/sh''"
    "starts_with (take 52 b @ replicate n 0) ''#!/bin/python'' \<longleftrightarrow> begins b ''#!/bin/python''"
    unfolding begins_def by (intro starts_with_prefix; simp)+
  have elf: "(if int (length (take 52 b)) = int 52 then elf_kind (take 52 b @ replicate n 0) else None)
      = elf_meaning b"
    using elf_kind_prefix [of b "replicate n 0"] elf_kind_meaning [of b] by (auto simp: elf_meaning_def)
  show ?thesis
    unfolding buffer_kind_def kind_of_def ELF_HEADER_SIZE_def elf sw exec_bits ..
qed

lemma execute_type_kind:
  assumes "stat path = Some st" "st_size st \<noteq> 0" "0 < ans (turn k)" "fds k (ans (turn k)) = None"
  shows "\<exists>k' e. file_execute_type stat content False ans path k = (kind_of st (content path), k') \<and>
    fds k' = (fds k)(ans (turn k) \<mapsto> e)"
proof -
  obtain k1 e where new: "k_new 0 0 ans k = (ans (turn k), k1)" "fds k1 = (fds k)(ans (turn k) \<mapsto> e)"
    using assms(3,4) by (simp add: k_new_def Let_def)
  have "file_execute_type stat content False ans path k = (kind_of st (content path), k1)"
    using assms(1,2,3)
    by (simp add: file_execute_type_def file_is_reg_never new buffer_kind_of [unfolded ELF_HEADER_SIZE_def]
        ELF_HEADER_SIZE_def del: length_take)
  with new(2) show ?thesis by blast
qed

text \<open>C32: \<open>file_execute_type\<close> decides by the bytes of the file (relocatable, executable, shared object or
  core by the type in its ELF header, a shell or python script by its first line) and then by its
  mode bits, and leaves the descriptor it opened in the table on every such path.\<close>

lemma file_execute_type_kind:
  assumes "stat path = Some st" "st_size st \<noteq> 0" "0 < ans (turn k)" "fds k (ans (turn k)) = None"
  shows "\<exists>k' e. file_execute_type stat content False ans path k = (kind_of st (content path), k') \<and>
    fds k' = (fds k)(ans (turn k) \<mapsto> e)"
  using assms by (rule execute_type_kind)

text \<open>A shared object, and a file one byte too short for a header.\<close>

definition sample_elf :: cbytes where
  "sample_elf = [0x7F, 0x45, 0x4C, 0x46, 2, 1, 1] @ replicate 9 0 @ [3, 0, 62, 0] @ replicate 32 1"

lemma file_execute_type_kind_witness:
  "(\<exists>k' e. file_execute_type (\<lambda>_. Some \<lparr>st_mode = 0x81FF, st_size = 60\<rparr>) (\<lambda>_. sample_elf) False
      (\<lambda>n. 3) [47] \<lparr>fds = Map.empty, turn = 0\<rparr> = (EXEC_TYPE_ELF_DYN, k') \<and> fds k' = [3 \<mapsto> e]) \<and>
   (\<exists>k' e. file_execute_type (\<lambda>_. Some \<lparr>st_mode = 0x8008, st_size = 51\<rparr>) (\<lambda>_. butlast sample_elf) False
      (\<lambda>n. 3) [47] \<lparr>fds = Map.empty, turn = 0\<rparr> = (EXEC_TYPE_SUSPICIOUS_SCRPT, k') \<and> fds k' = [3 \<mapsto> e]) \<and>
   (\<exists>k' e. file_execute_type (\<lambda>_. Some \<lparr>st_mode = 0x81A4, st_size = 9\<rparr>) (\<lambda>_. cbytes_of ''#!/bin/sh'') False
      (\<lambda>n. 3) [47] \<lparr>fds = Map.empty, turn = 0\<rparr> = (EXEC_TYPE_SHELL_SCRPT, k') \<and> fds k' = [3 \<mapsto> e])"
proof -
  have k: "kind_of \<lparr>st_mode = 0x81FF, st_size = 60\<rparr> sample_elf = EXEC_TYPE_ELF_DYN"
    "kind_of \<lparr>st_mode = 0x8008, st_size = 51\<rparr> (butlast sample_elf) = EXEC_TYPE_SUSPICIOUS_SCRPT"
    "kind_of \<lparr>st_mode = 0x81A4, st_size = 9\<rparr> (cbytes_of ''#!/bin/sh'') = EXEC_TYPE_SHELL_SCRPT"
    by code_simp+
  note t = file_execute_type_kind [of _ "[47]" _ "\<lambda>n. 3" "\<lparr>fds = Map.empty, turn = 0\<rparr>", simplified]
  show ?thesis
    using t [of "\<lambda>_. Some \<lparr>st_mode = 0x81FF, st_size = 60\<rparr>" _ "\<lambda>_. sample_elf"]
      t [of "\<lambda>_. Some \<lparr>st_mode = 0x8008, st_size = 51\<rparr>" _ "\<lambda>_. butlast sample_elf"]
      t [of "\<lambda>_. Some \<lparr>st_mode = 0x81A4, st_size = 9\<rparr>" _ "\<lambda>_. cbytes_of ''#!/bin/sh''"]
    by (simp add: k)
qed

text \<open>A descriptor from \<open>fileutil_open_on_closeexec\<close> is closed on exec, on a system with
  \<open>O_CLOEXEC\<close> and on one with only \<open>FD_CLOEXEC\<close>; on failure the table is as before.\<close>

lemma fileutil_open_closes_on_exec:
  "case fileutil_open_on_closeexec oc fc pathname flags ans k of (ret, k') \<Rightarrow>
    ret = -1 \<and> fds k' = fds k \<or>
    0 \<le> ret \<and> fds k ret = None \<and> (\<exists>e. fds k' = (fds k)(ret \<mapsto> e) \<and> fd_flags e = FD_CLOEXEC)"
proof (cases pathname)
  case None
  then show ?thesis by (simp add: fileutil_open_on_closeexec_def)
next
  case (Some path)
  have ne: "(flags OR O_CLOEXEC) AND O_CLOEXEC \<noteq> 0"
  proof -
    have "(flags OR O_CLOEXEC) AND O_CLOEXEC = O_CLOEXEC"
      by (rule bit_word_eqI) (auto simp: bit_and_iff bit_or_iff)
    then show ?thesis by (simp add: O_CLOEXEC_def)
  qed
  show ?thesis
  proof (cases "path = [] \<or> \<not> oc \<and> \<not> fc")
    case True
    then show ?thesis using Some by (auto simp: fileutil_open_on_closeexec_def)
  next
    case False
    show ?thesis
    proof (cases oc)
      case True
      with False Some ne show ?thesis
        by (cases rule: k_new_cases [of "(flags OR O_CLOEXEC) AND NOT O_CLOEXEC" FD_CLOEXEC ans k])
          (auto simp: fileutil_open_on_closeexec_def Let_def kern_simps)
    next
      case oc: False
      show ?thesis
      proof (cases rule: k_new_cases [of flags 0 ans k])
        case fails
        with oc False Some show ?thesis by (auto simp: fileutil_open_on_closeexec_def kern_simps)
      next
        case (opens fd)
        let ?e = "\<lparr>status_flags = flags, fd_flags = 0, sock_opts = []\<rparr>"
        let ?k = "(tick k)\<lparr>fds := (fds k)(fd \<mapsto> ?e)\<rparr>"
        show ?thesis
          by (cases rule: k_on_cases [of ?k fd ?e "\<lambda>e. e\<lparr>fd_flags := FD_CLOEXEC\<rparr>" ans])
            (use oc False Some opens in \<open>auto simp: fileutil_open_on_closeexec_def kern_simps fun_upd_idem\<close>)
      qed
    qed
  qed
qed

text \<open>\<open>program_is_running\<close> answers 1 when it does not get the lock, and then holds nothing open.\<close>

lemma program_is_running_lock:
  "case program_is_running (Some path) ans k of (ret, k') \<Rightarrow>
    ret = 1 \<and> fds k' = fds k \<or> ret = 0 \<and> (\<exists>fd e. 0 \<le> fd \<and> fds k fd = None \<and> fds k' = (fds k)(fd \<mapsto> e))"
proof (cases rule: k_new_cases [of 0 0 ans k])
  case fails
  then show ?thesis by (simp add: program_is_running_def kern_simps)
next
  case (opens fd)
  let ?e = "\<lparr>status_flags = 0, fd_flags = 0, sock_opts = []\<rparr>"
  let ?k = "(tick k)\<lparr>fds := (fds k)(fd \<mapsto> ?e)\<rparr>"
  show ?thesis
    by (cases rule: k_on_cases [of ?k fd ?e id ans])
      (use opens in \<open>auto simp: program_is_running_def kern_simps fun_upd_idem\<close>)
qed

end
