(* ===== verification/Gen_Mm.thy ===== *)
theory Gen_Mm
  imports Memory
begin

text \<open>
  \<open>src/src/myfcp/genmm.c\<close>: growing an allocated block.  A block is the list of its usable bytes;
  \<open>usable n\<close> is the size the allocator really gives a request of \<open>n\<close> bytes, \<open>junk\<close> the bytes it has
  not initialised.  The C library's \<open>realloc\<close> moves the block, and of size 0 it releases the block and
  returns the null pointer.
\<close>

section \<open>Model\<close>

definition c_realloc ::
    "(nat \<Rightarrow> bool) \<Rightarrow> (nat \<Rightarrow> nat) \<Rightarrow> (nat \<Rightarrow> byte) \<Rightarrow> ptr \<Rightarrow> nat \<Rightarrow> cbytes mem \<Rightarrow> (ptr \<times> cbytes mem) res" where
  "c_realloc oom usable junk p n m =
    (let fresh = map junk [0..<usable n] in
     if p = 0 then Inr (mem_alloc oom fresh m)
     else rbind (mem_get p m) (\<lambda>old.
       if n = 0 then rbind (mem_free p m) (\<lambda>m. Inr (0, m))
       else case mem_alloc oom (take n old @ drop (min n (length old)) fresh) m of (q, m) \<Rightarrow>
         if q = 0 then Inr (0, m) else rbind (mem_free p m) (\<lambda>m. Inr (q, m))))"

text \<open>The result is the return value and \<open>*ptr\<close>.\<close>

definition gen_mm_realloc ::
    "(nat \<Rightarrow> bool) \<Rightarrow> (nat \<Rightarrow> nat) \<Rightarrow> (nat \<Rightarrow> byte) \<Rightarrow> ptr \<Rightarrow> nat \<Rightarrow> cbytes mem \<Rightarrow> (int \<times> ptr \<times> cbytes mem) res" where
  "gen_mm_realloc oom usable junk ptr n m =
    rbind (c_realloc oom usable junk ptr n m) (\<lambda>(newptr, m).
      if newptr = 0 then Inr (-1, ptr, m) else Inr (0, newptr, m))"

text \<open>\<open>memset\<close> of \<open>n\<close> bytes from \<open>off\<close> to 0.\<close>

definition mem_zero :: "ptr \<Rightarrow> nat \<Rightarrow> nat \<Rightarrow> cbytes mem \<Rightarrow> cbytes mem res" where
  "mem_zero p off n m =
    rbind (mem_get p m) (\<lambda>bs.
    rbind (memcpy bs off (replicate n 0) 0 n) (\<lambda>bs. mem_put p bs m))"

definition gen_mm_recalloc ::
    "(nat \<Rightarrow> bool) \<Rightarrow> (nat \<Rightarrow> nat) \<Rightarrow> (nat \<Rightarrow> byte) \<Rightarrow> ptr \<Rightarrow> nat \<Rightarrow> nat \<Rightarrow> cbytes mem \<Rightarrow>
      (int \<times> ptr \<times> cbytes mem) res" where
  "gen_mm_recalloc oom usable junk ptr oldsize n m =
    rbind (c_realloc oom usable junk ptr n m) (\<lambda>(newptr, m).
      if newptr = 0 then Inr (-1, ptr, m)
      else rbind (mem_get newptr m) (\<lambda>block.
        let newsize = (if length block < n then n else length block) in
        if newsize > oldsize then
          rbind (mem_zero newptr oldsize (newsize - oldsize) m) (\<lambda>m. Inr (0, newptr, m))
        else Inr (0, newptr, m)))"

definition mmutil_realloc ::
    "(nat \<Rightarrow> bool) \<Rightarrow> (nat \<Rightarrow> nat) \<Rightarrow> (nat \<Rightarrow> byte) \<Rightarrow> ptr \<Rightarrow> nat \<Rightarrow> cbytes mem \<Rightarrow> (int \<times> ptr \<times> cbytes mem) res" where
  "mmutil_realloc oom usable junk ptr n m = gen_mm_realloc oom usable junk ptr n m"

definition mmutil_recalloc ::
    "(nat \<Rightarrow> bool) \<Rightarrow> (nat \<Rightarrow> nat) \<Rightarrow> (nat \<Rightarrow> byte) \<Rightarrow> ptr \<Rightarrow> nat \<Rightarrow> nat \<Rightarrow> cbytes mem \<Rightarrow>
      (int \<times> ptr \<times> cbytes mem) res" where
  "mmutil_recalloc oom usable junk ptr oldsize n m = gen_mm_recalloc oom usable junk ptr oldsize n m"

section \<open>Properties\<close>

lemma realloc_some:
  assumes "mem_ok m" "cells m p = Some old" "n \<noteq> 0" "\<not> oom (allocs m)" "\<And>n. n \<le> usable n"
  obtains q m' new where "c_realloc oom usable junk p n m = Inr (q, m')" "q \<noteq> 0" "q \<noteq> p" "mem_ok m'"
    "cells m q = None" "cells m' = (cells m)(q \<mapsto> new, p := None)" "length new = usable n"
    "take (min n (length old)) new = take n old"
proof -
  let ?new = "take n old @ drop (min n (length old)) (map junk [0..<usable n])"
  obtain q m1 where q: "mem_alloc oom ?new m = (q, m1)" "0 < q" "cells m q = None"
      "cells m1 = (cells m)(q \<mapsto> ?new)" "mem_ok m1"
    using mem_alloc_some [OF assms(1), of oom ?new] assms(4) by metis
  have p: "p \<noteq> q" using q(3) assms(2) by auto
  obtain m2 where m2: "mem_free p m1 = Inr m2" "cells m2 = (cells m1)(p := None)" "mem_ok m2"
    using mem_free_some [of m1 p] q(4,5) assms(2) p by auto
  have "0 < p" using mem_ok_live [OF assms(1,2)] by simp
  then have "c_realloc oom usable junk p n m = Inr (q, m2)"
    using assms(2,3) q(1,2) m2(1) mem_get_some [OF assms(1,2)] by (simp add: c_realloc_def Let_def)
  moreover have "cells m2 = (cells m)(q \<mapsto> ?new, p := None)" using m2(2) q(4) by simp
  moreover have "length ?new = usable n" using assms(5) [of n] by simp
  moreover have "take (min n (length old)) ?new = take n old" by (simp add: min_def)
  ultimately show thesis using that q(2,3) m2(3) p by blast
qed

text \<open>\<open>gen_mm_recalloc\<close> of a live block to a size that is not 0 releases the old block, keeps the
  contents up to the sizes the caller gives, and zeroes every byte behind \<open>oldsize\<close>, the slack of the
  allocator included.\<close>

lemma gen_mm_recalloc_zeroes:
  assumes "mem_ok m" "cells m p = Some old" "oldsize \<le> length old" "0 < n" "\<not> oom (allocs m)"
    and "\<And>n. n \<le> usable n"
  shows "\<exists>q m' new. gen_mm_recalloc oom usable junk p oldsize n m = Inr (0, q, m') \<and>
    cells m' = (cells m)(q \<mapsto> new, p := None) \<and> q \<noteq> p \<and> cells m q = None \<and> length new = usable n \<and>
    take (min oldsize n) new = take (min oldsize n) old \<and> (\<forall>i < usable n. oldsize \<le> i \<longrightarrow> new ! i = 0)"
proof -
  obtain q m' new where q: "c_realloc oom usable junk p n m = Inr (q, m')" "q \<noteq> 0" "q \<noteq> p" "mem_ok m'"
    "cells m q = None" "cells m' = (cells m)(q \<mapsto> new, p := None)" "length new = usable n"
    "take (min n (length old)) new = take n old"
    using realloc_some [where oom = oom and usable = usable and junk = junk, OF assms(1,2)] assms(4-6) by (metis less_irrefl)
  have live: "cells m' q = Some new" using q(3,6) by simp
  have get: "mem_get q m' = Inr new" by (rule mem_get_some [OF q(4) live])
  have n: "n \<le> length new" using assms(6) [of n] q(7) by simp
  have pre: "take (min oldsize n) new = take (min oldsize n) old"
    using arg_cong [OF q(8), of "take (min oldsize n)"] assms(3) by (simp add: min_def split: if_splits)
  show ?thesis
  proof (cases "oldsize < length new")
    case False
    then have "gen_mm_recalloc oom usable junk p oldsize n m = Inr (0, q, m')"
      using q(1,2) n by (simp add: gen_mm_recalloc_def get)
    then show ?thesis using q pre False by auto
  next
    case True
    let ?new = "take oldsize new @ replicate (length new - oldsize) 0"
    obtain m2 where m2: "mem_put q ?new m' = Inr m2" "cells m2 = (cells m')(q \<mapsto> ?new)"
      using mem_put_some [OF q(4) live] by metis
    have "memcpy new oldsize (replicate (length new - oldsize) 0) 0 (length new - oldsize) = Inr ?new"
      using True by (simp add: memcpy_def)
    then have "gen_mm_recalloc oom usable junk p oldsize n m = Inr (0, q, m2)"
      using q(1,2) n True m2(1) by (simp add: gen_mm_recalloc_def get mem_zero_def Let_def)
    moreover have "cells m2 = (cells m)(q \<mapsto> ?new, p := None)"
      using m2(2) q(3,6) by auto
    moreover have "take (min oldsize n) ?new = take (min oldsize n) old"
      using pre True by (simp add: min_def split: if_splits)
    moreover have "\<forall>i < usable n. oldsize \<le> i \<longrightarrow> ?new ! i = 0"
      using q(7) True by (auto simp: nth_append)
    moreover have "length ?new = usable n"
      using q(7) True by simp
    ultimately show ?thesis using q(3,5) by blast
  qed
qed

text \<open>\<open>gen_mm_realloc\<close> and \<open>gen_mm_recalloc\<close> to size 0 report an error, which otherwise means that
  the block is unchanged, but have released it: the pointer that \<open>*ptr\<close> still holds is dangling, and
  releasing it is a double free.\<close>

lemma gen_mm_size_zero:
  assumes "mem_ok m" "cells m p = Some old"
  shows "\<exists>m'. gen_mm_realloc oom usable junk p 0 m = Inr (-1, p, m') \<and>
    gen_mm_recalloc oom usable junk p oldsize 0 m = Inr (-1, p, m') \<and>
    cells m' = (cells m)(p := None) \<and> mem_free p m' = Inl BadFree"
proof -
  have p: "0 < p" using mem_ok_live [OF assms] by simp
  obtain m' where m': "mem_free p m = Inr m'" "cells m' = (cells m)(p := None)"
    using mem_free_some [OF assms(1), of p] assms(2) by auto
  have "c_realloc oom usable junk p 0 m = Inr (0, m')"
    using p m'(1) mem_get_some [OF assms] by (simp add: c_realloc_def)
  moreover have "mem_free p m' = Inl BadFree"
    using p m'(2) by (simp add: mem_free_dead)
  ultimately show ?thesis
    using m'(2) by (simp add: gen_mm_realloc_def gen_mm_recalloc_def)
qed

lemma gen_mm_recalloc_zeroes_witness:
  "let m = \<lparr>cells = [1 \<mapsto> [5, 6 :: byte]], allocs = 1\<rparr> in
    \<exists>q m' new. gen_mm_recalloc (\<lambda>_. False) (\<lambda>n. n + 1) (\<lambda>_. 9) 1 2 3 m = Inr (0, q, m') \<and>
      cells m' q = Some new \<and> length new = 4 \<and> take 2 new = [5, 6] \<and> new ! 3 = 0"
proof -
  let ?m = "\<lparr>cells = [1 \<mapsto> [5, 6 :: byte]], allocs = 1\<rparr>"
  have "mem_ok ?m" by (simp add: mem_ok_def)
  then have "\<exists>q m' new. gen_mm_recalloc (\<lambda>_. False) (\<lambda>n. n + 1) (\<lambda>_. 9) 1 2 3 ?m = Inr (0, q, m') \<and>
    cells m' = (cells ?m)(q \<mapsto> new, 1 := None) \<and> q \<noteq> 1 \<and> cells ?m q = None \<and> length new = 3 + 1 \<and>
    take (min 2 3) new = take (min 2 3) [5, 6] \<and> (\<forall>i < 3 + 1. 2 \<le> i \<longrightarrow> new ! i = 0)"
    by (rule gen_mm_recalloc_zeroes) simp_all
  then show ?thesis unfolding Let_def by fastforce
qed

lemma gen_mm_size_zero_witness:
  "\<exists>m'. gen_mm_realloc (\<lambda>_. False) id (\<lambda>_. 9) 1 0 \<lparr>cells = [1 \<mapsto> [5, 6 :: byte]], allocs = 1\<rparr> = Inr (-1, 1, m') \<and>
    mem_free 1 m' = Inl BadFree"
proof -
  let ?m = "\<lparr>cells = [1 \<mapsto> [5, 6 :: byte]], allocs = 1\<rparr>"
  have "mem_ok ?m" "cells ?m 1 = Some [5, 6]" by (simp_all add: mem_ok_def)
  from gen_mm_size_zero [OF this, of "\<lambda>_. False" id "\<lambda>_. 9" 2] show ?thesis by blast
qed

end
