(* ===== verification/Gen_Log.thy ===== *)
theory Gen_Log
  imports Prelude
begin

text \<open>
  \<open>src/src/myfcp/genlog.c\<close>: messages and the two callbacks they go to.  A callback acts on the
  world of the program; \<open>syslog\<close> is the system's log, and \<open>printf\<close> the standard output; the formatted text of a message is the
  argument of \<open>genlog_print\<close>, its formatting is \<open>vsnprintf\<close>'s.
\<close>

section \<open>Model\<close>

type_synonym 'w log_cb = "cbytes \<Rightarrow> 'w \<Rightarrow> 'w"

text \<open>Where a message goes by default: \<open>log_stderr\<close> is whether the library is built with \<open>LOG_STDERR\<close>.\<close>

record 'w log_sys =
  log_stderr :: bool
  syslog :: "int \<Rightarrow> cbytes \<Rightarrow> 'w \<Rightarrow> 'w"
  printf :: "cbytes \<Rightarrow> 'w \<Rightarrow> 'w"

definition LOG_ERR :: int where "LOG_ERR = 3"
definition LOG_DEBUG :: int where "LOG_DEBUG = 7"

record 'w log_state =
  error_cb :: "'w log_cb"
  debug_cb :: "'w log_cb"

definition genlog_error_output :: "'w log_sys \<Rightarrow> 'w log_cb" where
  "genlog_error_output sys msg =
    (if log_stderr sys then printf sys (cbytes_of ''Err: '' @ msg) else syslog sys LOG_ERR msg)"

definition genlog_debug_output :: "'w log_sys \<Rightarrow> 'w log_cb" where
  "genlog_debug_output sys msg =
    (if log_stderr sys then printf sys (cbytes_of ''Debug: '' @ msg) else syslog sys LOG_DEBUG msg)"

definition genlog_cb_arr :: "'w log_sys \<Rightarrow> 'w log_state" where
  "genlog_cb_arr sys = \<lparr>error_cb = genlog_error_output sys, debug_cb = genlog_debug_output sys\<rparr>"

definition genlog_set_cb ::
    "'w log_sys \<Rightarrow> 'w log_cb option \<Rightarrow> 'w log_cb option \<Rightarrow> 'w log_state \<Rightarrow> 'w log_state" where
  "genlog_set_cb sys errcb debugcb st =
    (let st = (case errcb of Some cb \<Rightarrow> st\<lparr>error_cb := cb\<rparr>
               | None \<Rightarrow> st\<lparr>error_cb := genlog_error_output sys\<rparr>)
     in case debugcb of Some cb \<Rightarrow> st\<lparr>debug_cb := cb\<rparr>
        | None \<Rightarrow> st\<lparr>debug_cb := genlog_debug_output sys\<rparr>)"

text \<open>\<open>oom\<close>: the allocation of the buffer of \<open>n + 1\<close> bytes fails.\<close>

definition genlog_print :: "bool \<Rightarrow> int \<Rightarrow> cbytes \<Rightarrow> 'w log_state \<Rightarrow> 'w \<Rightarrow> 'w res" where
  "genlog_print oom loglevel msg st w =
    (let n = length msg in
     if n = 0 then Inr w
     else if oom then Inr w
     else
       rbind (memcpy (replicate (n + 1) 0) 0 (take n msg @ [0]) 0 (min n (length msg) + 1)) (\<lambda>buff.
         if loglevel = LOG_ERR then Inr (error_cb st (cstr buff) w)
         else if loglevel = LOG_DEBUG then Inr (debug_cb st (cstr buff) w)
         else Inr w))"

definition fcp_set_log_cb ::
    "'w log_sys \<Rightarrow> 'w log_cb option \<Rightarrow> 'w log_cb option \<Rightarrow> 'w log_state \<Rightarrow> 'w log_state" where
  "fcp_set_log_cb sys errcb debugcb st = genlog_set_cb sys errcb debugcb st"

section \<open>Properties\<close>

lemma print_level:
  assumes "no_nul msg" "msg \<noteq> []"
  shows "genlog_print False l msg st w =
    Inr (if l = LOG_ERR then error_cb st msg w else if l = LOG_DEBUG then debug_cb st msg w else w)"
proof -
  have "cstr (msg @ [0]) = msg" using cstr_append_nul [OF assms(1), of "[]"] by simp
  then show ?thesis using assms(2) by (simp add: genlog_print_def memcpy_def Let_def)
qed

text \<open>After \<open>fcp_set_log_cb\<close> a message goes, whole and once, to the callback given for its level,
  or to the system's log when that was NULL (to the standard output in a build with \<open>LOG_STDERR\<close>); a message of another level, an empty one and one for
  which there is no memory go nowhere.\<close>

lemma genlog_routes:
  assumes "no_nul msg" "msg \<noteq> []"
  shows "genlog_print False LOG_ERR msg (fcp_set_log_cb sys e d st) w =
      Inr ((case e of Some cb \<Rightarrow> cb msg w | None \<Rightarrow> if log_stderr sys then printf sys (cbytes_of ''Err: '' @ msg) w else syslog sys LOG_ERR msg w)) \<and>
    genlog_print False LOG_DEBUG msg (fcp_set_log_cb sys e d st) w =
      Inr ((case d of Some cb \<Rightarrow> cb msg w | None \<Rightarrow> if log_stderr sys then printf sys (cbytes_of ''Debug: '' @ msg) w else syslog sys LOG_DEBUG msg w)) \<and>
    (l \<noteq> LOG_ERR \<longrightarrow> l \<noteq> LOG_DEBUG \<longrightarrow> genlog_print False l msg (fcp_set_log_cb sys e d st) w = Inr w) \<and>
    genlog_print True l msg (fcp_set_log_cb sys e d st) w = Inr w"
proof -
  have "LOG_DEBUG \<noteq> LOG_ERR" by (simp add: LOG_DEBUG_def LOG_ERR_def)
  moreover have "genlog_print True l msg s w = Inr w" for s
    by (simp add: genlog_print_def Let_def)
  ultimately show ?thesis
    by (cases e; cases d)
      (simp_all add: print_level [OF assms] fcp_set_log_cb_def genlog_set_cb_def genlog_error_output_def genlog_debug_output_def)
qed

lemma genlog_routes_witness:
  "let sys = \<lparr>log_stderr = False, syslog = (\<lambda>l s w. w @ [(l, s)]), printf = (\<lambda>s w. w)\<rparr>
    in genlog_print False LOG_ERR [65] (fcp_set_log_cb sys None None (genlog_cb_arr sys)) [] = Inr [(LOG_ERR, [65])]"
  using genlog_routes [of "[65]" "\<lparr>log_stderr = False, syslog = (\<lambda>l s w. w @ [(l, s)]), printf = (\<lambda>s w. w)\<rparr>" None None
      "genlog_cb_arr \<lparr>log_stderr = False, syslog = (\<lambda>l s w. w @ [(l, s)]), printf = (\<lambda>s w. w)\<rparr>" "[]"]
  by (simp add: cstr_simps)

end
