(* ===== verification/Fcp_Arp.thy ===== *)
theory Fcp_Arp
  imports Memory Item_Stream Libc
begin

text \<open>
  The iterators over the ARP table of \<open>src/src/myfcp/fcp_net.c\<close>.  \<open>proc_arp\<close> is the content of
  \<open>/proc/net/arp\<close>, or nothing when it cannot be opened; an open stream is a cell that holds its
  unread bytes.
\<close>

section \<open>Model\<close>

definition IPV4_STR_LEN :: nat where "IPV4_STR_LEN = 16"
definition ETH_HWADDR_STR_LEN :: nat where "ETH_HWADDR_STR_LEN = 32"
definition ETHDEV_NAME_LEN :: nat where "ETHDEV_NAME_LEN = 256"

record arp_item = one_item +
  arp_devname :: cbytes
  arp_ipv4 :: cbytes
  arp_hwaddr :: cbytes
  arp_hwtype :: int
  arp_flag :: int

definition zero_arp :: arp_item where
  "zero_arp = \<lparr>this_of = 0, data_of = 0, flag = 0, arp_devname = replicate ETHDEV_NAME_LEN 0,
     arp_ipv4 = replicate IPV4_STR_LEN 0, arp_hwaddr = replicate ETH_HWADDR_STR_LEN 0,
     arp_hwtype = 0, arp_flag = 0\<rparr>"

text \<open>One \<open>%s\<close>: white space is skipped, and the word up to the next white space stored.\<close>

definition c_token :: "cbytes \<Rightarrow> (cbytes \<times> cbytes) option" where
  "c_token s =
    (let s = dropWhile isspace s in
     if s = [] then None
     else Some (takeWhile (\<lambda>c. \<not> isspace c) s, dropWhile (\<lambda>c. \<not> isspace c) s))"

text \<open>\<open>sscanf\<close> with one \<open>%s\<close> for each destination.\<close>

fun c_sscanf :: "cbytes list \<Rightarrow> cbytes \<Rightarrow> cbytes list res" where
  "c_sscanf [] s = Inr []"
| "c_sscanf (d # ds) s =
    (case c_token s of None \<Rightarrow> Inr (d # ds)
     | Some (t, s) \<Rightarrow>
         rbind (memcpy d 0 (t @ [0]) 0 (Suc (length t))) (\<lambda>d.
         rbind (c_sscanf ds s) (\<lambda>ds. Inr (d # ds))))"

text \<open>From the label \<open>next\<close>: read lines until one has the flag.  \<open>False\<close> is the end of the file.\<close>

function arp_next ::
    "int \<Rightarrow> cbytes \<Rightarrow> cbytes \<Rightarrow> cbytes \<Rightarrow> arp_item \<Rightarrow> cbytes \<Rightarrow> (bool \<times> arp_item \<times> cbytes) res" where
  "arp_next arpflag strtype strflag strmask entry content =
    (case c_fgets 1024 content of
       None \<Rightarrow> Inr (False, entry, content)
     | Some (line, content) \<Rightarrow>
         rbind (c_sscanf [replicate IPV4_STR_LEN 0, strtype, strflag, replicate ETH_HWADDR_STR_LEN 0,
                          strmask, replicate ETHDEV_NAME_LEN 0] (cstr line)) (\<lambda>ds.
         let entry = entry\<lparr>arp_ipv4 := ds ! 0, arp_hwaddr := ds ! 3, arp_devname := ds ! 5\<rparr>;
             strtype = ds ! 1; strflag = ds ! 2; strmask = ds ! 4;
             fl = to_int32 (c_strtol 16 (cstr strflag))
         in if fl AND arpflag = 0 then arp_next arpflag strtype strflag strmask entry content
            else Inr (True, entry\<lparr>arp_hwtype := to_int32 (c_strtol 16 (cstr strtype)), arp_flag := fl\<rparr>, content)))"
  by pat_completeness auto
termination
  by (relation "measure (\<lambda>(fl, ty, f, ma, e, content). length content)") (auto dest!: fgets_shrinks)

declare arp_next.simps [simp del]

definition arp_done :: "ptr \<Rightarrow> arp_item \<Rightarrow> cbytes mem \<Rightarrow> (int \<times> arp_item option \<times> cbytes mem) res" where
  "arp_done fp entry m =
    rbind (if fp \<noteq> 0 then mem_free fp m else Inr m) (\<lambda>m. Inr (-1, Some entry, m))"

definition arp_continue ::
    "int \<Rightarrow> ptr \<Rightarrow> arp_item \<Rightarrow> cbytes mem \<Rightarrow> (int \<times> arp_item option \<times> cbytes mem) res" where
  "arp_continue arpflag fp entry m =
    rbind (mem_get fp m) (\<lambda>content.
    rbind (arp_next arpflag (replicate 20 0) (replicate 20 0) (replicate 16 0) entry content)
      (\<lambda>(found, entry, content).
    rbind (mem_put fp content m) (\<lambda>m.
      if found then Inr (0, Some entry, m) else arp_done fp entry m)))"

definition fcp_foreach_comm_arp ::
    "cbytes option \<Rightarrow> arp_item option \<Rightarrow> int \<Rightarrow> cbytes mem \<Rightarrow> (int \<times> arp_item option \<times> cbytes mem) res" where
  "fcp_foreach_comm_arp proc_arp entry arpflag m =
    (case entry of None \<Rightarrow> Inr (-1, None, m)
     | Some e \<Rightarrow>
         if flag e = LOOP_TYPE_START then
           (case proc_arp of None \<Rightarrow> Inr (-1, entry, m)
            | Some content \<Rightarrow>
                case mem_alloc (\<lambda>_. False) content m of (fp, m) \<Rightarrow>
                  let e = e\<lparr>this_of := fp, flag := LOOP_TYPE_CON\<rparr> in
                  case c_fgets 1024 content of None \<Rightarrow> arp_done fp e m
                  | Some (_, content) \<Rightarrow> rbind (mem_put fp content m) (\<lambda>m. arp_continue arpflag fp e m))
         else if flag e = LOOP_TYPE_CON then
           if this_of e = 0 then arp_done 0 e m else arp_continue arpflag (this_of e) e m
         else arp_done (this_of e) e m)"

definition fcp_foreach_permit_arp ::
    "cbytes option \<Rightarrow> arp_item option \<Rightarrow> cbytes mem \<Rightarrow> (int \<times> arp_item option \<times> cbytes mem) res" where
  "fcp_foreach_permit_arp proc_arp entry m = fcp_foreach_comm_arp proc_arp entry 4 m"

definition fcp_foreach_complete_arp ::
    "cbytes option \<Rightarrow> arp_item option \<Rightarrow> cbytes mem \<Rightarrow> (int \<times> arp_item option \<times> cbytes mem) res" where
  "fcp_foreach_complete_arp proc_arp entry m = fcp_foreach_comm_arp proc_arp entry 2 m"

definition fcp_foreach_publish_arp ::
    "cbytes option \<Rightarrow> arp_item option \<Rightarrow> cbytes mem \<Rightarrow> (int \<times> arp_item option \<times> cbytes mem) res" where
  "fcp_foreach_publish_arp proc_arp entry m = fcp_foreach_comm_arp proc_arp entry 8 m"

section \<open>The lines of the table\<close>

text \<open>A line is a sequence of words, each after a number of spaces, and a newline.\<close>

fun arp_text :: "(nat \<times> cbytes) list \<Rightarrow> cbytes" where
  "arp_text [] = []"
| "arp_text ((n, t) # ws) = replicate n 32 @ t @ arp_text ws"

definition word_ok :: "cbytes \<Rightarrow> bool" where
  "word_ok t \<longleftrightarrow> t \<noteq> [] \<and> no_nul t \<and> (\<forall>c \<in> set t. \<not> isspace c)"

definition arp_line :: "(nat \<times> cbytes) list \<Rightarrow> bool" where
  "arp_line ws \<longleftrightarrow> length ws = 6 \<and> (\<forall>(n, t) \<in> set ws. word_ok t) \<and> (\<forall>(n, t) \<in> set (tl ws). 0 < n) \<and>
     list_all2 (\<lambda>(n, t) k. length t < k) ws [IPV4_STR_LEN, 20, 20, ETH_HWADDR_STR_LEN, 16, ETHDEV_NAME_LEN] \<and>
     length (arp_text ws) + 1 < 1024"

definition arp_file :: "(nat \<times> cbytes) list list \<Rightarrow> cbytes" where
  "arp_file ls = concat (map (\<lambda>ws. arp_text ws @ [10]) ls)"

text \<open>What a line means: address, hardware address, device, type and flags.\<close>

definition arp_word :: "(nat \<times> cbytes) list \<Rightarrow> nat \<Rightarrow> cbytes" where
  "arp_word ws i = snd (ws ! i)"

definition arp_flags :: "(nat \<times> cbytes) list \<Rightarrow> int" where
  "arp_flags ws = to_int32 (c_strtol 16 (arp_word ws 2))"

definition arp_view :: "arp_item \<Rightarrow> cbytes \<times> cbytes \<times> cbytes \<times> int \<times> int" where
  "arp_view e = (cstr (arp_ipv4 e), cstr (arp_hwaddr e), cstr (arp_devname e), arp_hwtype e, arp_flag e)"

definition arp_meaning :: "(nat \<times> cbytes) list \<Rightarrow> cbytes \<times> cbytes \<times> cbytes \<times> int \<times> int" where
  "arp_meaning ws = (arp_word ws 0, arp_word ws 3, arp_word ws 5, to_int32 (c_strtol 16 (arp_word ws 1)), arp_flags ws)"

text \<open>An entry shows a line: the texts it holds are terminated.\<close>

definition arp_shows :: "arp_item \<Rightarrow> (nat \<times> cbytes) list \<Rightarrow> bool" where
  "arp_shows e ws \<longleftrightarrow> arp_view e = arp_meaning ws \<and>
    terminated (arp_ipv4 e) \<and> terminated (arp_hwaddr e) \<and> terminated (arp_devname e)"

lemma isspace_32 [simp]: "isspace 32"
  by (simp add: isspace_def)

lemma isspace_10 [simp]: "isspace 10"
  by (simp add: isspace_def)

lemma c_token_word:
  assumes "word_ok t" "s = [] \<or> isspace (hd s)"
  shows "c_token (replicate n 32 @ t @ s) = Some (t, s)"
proof -
  obtain c t' where t: "t = c # t'" "\<not> isspace c"
    using assms(1) by (cases t) (auto simp: word_ok_def)
  have "dropWhile isspace (replicate n 32 @ t @ s) = t @ s"
    using t by (induction n) auto
  moreover have "takeWhile (\<lambda>c. \<not> isspace c) (t @ s) = t" "dropWhile (\<lambda>c. \<not> isspace c) (t @ s) = s"
    using assms by (auto simp: word_ok_def takeWhile_append takeWhile_eq_Nil_iff dropWhile_append dropWhile_eq_self_iff)
  ultimately show ?thesis using t by (simp add: c_token_def)
qed

definition store :: "cbytes \<Rightarrow> cbytes \<Rightarrow> cbytes" where
  "store d t = t @ 0 # drop (Suc (length t)) d"

lemma cstr_store: "word_ok t \<Longrightarrow> cstr (store d t) = t"
  by (simp add: store_def word_ok_def cstr_append_nul)

lemma length_store: "length t < length d \<Longrightarrow> length (store d t) = length d"
  by (simp add: store_def)

lemma sscanf_words:
  assumes "list_all2 (\<lambda>(n, t) d. length t < length d) ws ds" "\<forall>(n, t) \<in> set ws. word_ok t"
    "\<forall>(n, t) \<in> set (tl ws). 0 < n"
  shows "c_sscanf ds (arp_text ws @ [10]) = Inr (map2 (\<lambda>(n, t) d. store d t) ws ds)"
  using assms
proof (induction ws ds rule: list_all2_induct)
  case (Cons w ws d ds)
  obtain n t where w: "w = (n, t)" by fastforce
  have "hd (arp_text ws @ [10]) = 32 \<or> hd (arp_text ws @ [10]) = 10"
  proof (cases ws)
    case (Cons w' ws')
    obtain n' t' where "w' = (n', t')" "0 < n'"
      using Cons.prems(2) Cons by (cases w') auto
    then show ?thesis using Cons by (cases n') auto
  qed simp
  then have "c_token (replicate n 32 @ t @ arp_text ws @ [10]) = Some (t, arp_text ws @ [10])"
    using Cons.prems(1) w by (intro c_token_word) auto
  moreover have "c_sscanf ds (arp_text ws @ [10]) = Inr (map2 (\<lambda>(n, t) d. store d t) ws ds)"
    by (rule Cons.IH) (use Cons.prems in \<open>cases ws; auto\<close>)+
  ultimately show ?case
    using Cons.hyps(1) w by (simp add: memcpy_def store_def)
qed simp

lemma arp_text_chars: "c \<in> set (arp_text ws) \<Longrightarrow> c = 32 \<or> (\<exists>(n, t) \<in> set ws. c \<in> set t)"
  by (induction ws rule: arp_text.induct) auto

lemma arp_line_text:
  assumes "arp_line ws"
  shows "10 \<notin> set (arp_text ws)" "no_nul (arp_text ws)"
proof -
  have w: "word_ok t" if "(n, t) \<in> set ws" for n t
    using assms that by (auto simp: arp_line_def)
  show "10 \<notin> set (arp_text ws)"
  proof
    assume "10 \<in> set (arp_text ws)"
    then obtain n t where "(n, t) \<in> set ws" "10 \<in> set t"
      using arp_text_chars [of 10 ws] by auto
    then show False using w [of n t] by (auto simp: word_ok_def)
  qed
  show "no_nul (arp_text ws)"
    unfolding no_nul_def
  proof
    assume "0 \<in> set (arp_text ws)"
    then obtain n t where "(n, t) \<in> set ws" "0 \<in> set t"
      using arp_text_chars [of 0 ws] by auto
    then show False using w [of n t] by (auto simp: word_ok_def no_nul_def)
  qed
qed

lemma arp_line_scan:
  assumes "arp_line ws" "length ty = 20" "length fl = 20" "length ma = 16"
  shows "c_sscanf [replicate IPV4_STR_LEN 0, ty, fl, replicate ETH_HWADDR_STR_LEN 0, ma, replicate ETHDEV_NAME_LEN 0]
      (cstr (arp_text ws @ [10])) =
    Inr [store (replicate IPV4_STR_LEN 0) (arp_word ws 0), store ty (arp_word ws 1), store fl (arp_word ws 2),
      store (replicate ETH_HWADDR_STR_LEN 0) (arp_word ws 3), store ma (arp_word ws 4),
      store (replicate ETHDEV_NAME_LEN 0) (arp_word ws 5)]"
proof -
  have nn: "no_nul (arp_text ws @ [10])"
    using arp_line_text(2) [OF assms(1)] by (simp add: cstr_simps)
  have l: "length ws = 6" using assms(1) by (simp add: arp_line_def)
  then obtain a b c d e f where ws: "ws = [a, b, c, d, e, f]"
    by (auto simp: eval_nat_numeral length_Suc_conv)
  have "c_sscanf [replicate IPV4_STR_LEN 0, ty, fl, replicate ETH_HWADDR_STR_LEN 0, ma, replicate ETHDEV_NAME_LEN 0]
      (arp_text ws @ [10]) = Inr (map2 (\<lambda>(n, t) d. store d t) ws
        [replicate IPV4_STR_LEN 0, ty, fl, replicate ETH_HWADDR_STR_LEN 0, ma, replicate ETHDEV_NAME_LEN 0])"
  proof (rule sscanf_words)
    show "list_all2 (\<lambda>(n, t) d. length t < length d) ws
        [replicate IPV4_STR_LEN 0, ty, fl, replicate ETH_HWADDR_STR_LEN 0, ma, replicate ETHDEV_NAME_LEN 0]"
      using assms by (auto simp: arp_line_def ws)
  qed (use assms(1) in \<open>auto simp: arp_line_def\<close>)
  then show ?thesis
    unfolding cstr_no_nul [OF nn]
    by (cases a; cases b; cases c; cases d; cases e; cases f) (simp add: ws arp_word_def eval_nat_numeral)
qed

lemma arp_word_ok:
  assumes "arp_line ws" "i < 6"
  shows "word_ok (arp_word ws i)"
proof -
  have "ws ! i \<in> set ws" "\<forall>(n, t) \<in> set ws. word_ok t"
    using assms by (simp_all add: arp_line_def)
  then show ?thesis by (simp add: arp_word_def case_prod_beta)
qed

lemma arp_words_length:
  assumes "arp_line ws"
  shows "length (arp_word ws 1) < 20" "length (arp_word ws 2) < 20" "length (arp_word ws 4) < 16"
proof -
  have "length ws = 6" using assms by (simp add: arp_line_def)
  then obtain a b c d e f where ws: "ws = [a, b, c, d, e, f]"
    by (auto simp: eval_nat_numeral length_Suc_conv)
  show "length (arp_word ws 1) < 20" "length (arp_word ws 2) < 20" "length (arp_word ws 4) < 16"
    using assms by (auto simp: arp_line_def ws arp_word_def eval_nat_numeral)
qed

lemma arp_next_lines:
  assumes "\<forall>ws \<in> set ls. arp_line ws" "length ty = 20" "length fl = 20" "length ma = 16"
  shows "\<exists>e'. arp_next aflag ty fl ma e (arp_file ls) =
      (case dropWhile (\<lambda>ws. arp_flags ws AND aflag = 0) ls of
         [] \<Rightarrow> Inr (False, e', []) | ws # ls' \<Rightarrow> Inr (True, e', arp_file ls')) \<and>
    this_of e' = this_of e \<and> flag e' = flag e \<and>
    (case dropWhile (\<lambda>ws. arp_flags ws AND aflag = 0) ls of
       [] \<Rightarrow> True | ws # ls' \<Rightarrow> arp_shows e' ws)"
  using assms
proof (induction ls arbitrary: ty fl ma e)
  case Nil
  show ?case by (subst arp_next.simps) (simp add: arp_file_def c_fgets_def)
next
  case (Cons ws ls)
  have line: "arp_line ws" using Cons.prems(1) by simp
  have "length (arp_text ws) + 1 < 1024" using line by (simp add: arp_line_def)
  then have fg: "c_fgets 1024 (arp_file (ws # ls)) = Some (arp_text ws @ [10], arp_file ls)"
    using fgets_line [OF arp_line_text(1) [OF line], of 1024 "arp_file ls"] by (simp add: arp_file_def)
  note scan = arp_line_scan [OF line Cons.prems(2-4)]
  note ok = arp_word_ok [OF line]
  note len = arp_words_length [OF line]
  let ?ty = "store ty (arp_word ws 1)" and ?fl = "store fl (arp_word ws 2)" and ?ma = "store ma (arp_word ws 4)"
  let ?e = "e\<lparr>arp_ipv4 := store (replicate IPV4_STR_LEN 0) (arp_word ws 0),
      arp_hwaddr := store (replicate ETH_HWADDR_STR_LEN 0) (arp_word ws 3),
      arp_devname := store (replicate ETHDEV_NAME_LEN 0) (arp_word ws 5)\<rparr>"
  have words: "cstr (store d (arp_word ws i)) = arp_word ws i" if "i < 6" for d i
    by (rule cstr_store [OF ok [OF that]])
  have step: "arp_next aflag ty fl ma e (arp_file (ws # ls)) =
      (if arp_flags ws AND aflag = 0 then arp_next aflag ?ty ?fl ?ma ?e (arp_file ls)
       else Inr (True, ?e\<lparr>arp_hwtype := to_int32 (c_strtol 16 (arp_word ws 1)), arp_flag := arp_flags ws\<rparr>, arp_file ls))"
    by (subst arp_next.simps)
      (simp only: fg option.case prod.case scan rbind_simps, simp add: Let_def words [simplified] arp_flags_def eval_nat_numeral)
  show ?case
  proof (cases "arp_flags ws AND aflag = 0")
    case False
    have "arp_shows (?e\<lparr>arp_hwtype := to_int32 (c_strtol 16 (arp_word ws 1)), arp_flag := arp_flags ws\<rparr>) ws"
      by (simp add: arp_shows_def arp_view_def arp_meaning_def words) (simp add: terminated_def store_def)
    then show ?thesis unfolding step using False by fastforce
  next
    case True
    have "\<exists>e'. arp_next aflag ?ty ?fl ?ma ?e (arp_file ls) =
        (case dropWhile (\<lambda>ws. arp_flags ws AND aflag = 0) ls of
           [] \<Rightarrow> Inr (False, e', []) | ws # ls' \<Rightarrow> Inr (True, e', arp_file ls')) \<and>
      this_of e' = this_of ?e \<and> flag e' = flag ?e \<and>
      (case dropWhile (\<lambda>ws. arp_flags ws AND aflag = 0) ls of
         [] \<Rightarrow> True | ws # ls' \<Rightarrow> arp_shows e' ws)"
      by (rule Cons.IH) (use Cons.prems len in \<open>simp_all add: length_store\<close>)
    then show ?thesis unfolding step using True by simp
  qed
qed


section \<open>The iterator\<close>

type_synonym arp_state = "arp_item option \<times> cbytes mem"

definition arp_ready ::
    "cbytes option \<Rightarrow> int \<Rightarrow> (ptr \<Rightarrow> cbytes option) \<Rightarrow> arp_state \<Rightarrow> (nat \<times> cbytes) list list \<Rightarrow> bool" where
  "arp_ready proc aflag base st xs \<longleftrightarrow>
    fst st = Some zero_arp \<and> mem_ok (snd st) \<and> cells (snd st) = base \<and>
    (\<exists>hdr ls. proc = Some (hdr @ 10 # arp_file ls) \<and> 10 \<notin> set hdr \<and> length hdr + 1 < 1024 \<and>
       (\<forall>ws \<in> set ls. arp_line ws) \<and> xs = filter (\<lambda>ws. arp_flags ws AND aflag \<noteq> 0) ls)"

definition arp_at ::
    "int \<Rightarrow> (ptr \<Rightarrow> cbytes option) \<Rightarrow> arp_state \<Rightarrow> (nat \<times> cbytes) list \<Rightarrow> (nat \<times> cbytes) list list \<Rightarrow> bool" where
  "arp_at aflag base st x xs \<longleftrightarrow>
    (\<exists>e fp ls. fst st = Some e \<and> flag e = LOOP_TYPE_CON \<and> this_of e = fp \<and> fp \<noteq> 0 \<and> arp_shows e x \<and>
       mem_ok (snd st) \<and> cells (snd st) = base(fp \<mapsto> arp_file ls) \<and> base fp = None \<and>
       (\<forall>ws \<in> set ls. arp_line ws) \<and> xs = filter (\<lambda>ws. arp_flags ws AND aflag \<noteq> 0) ls)"

definition arp_released :: "(ptr \<Rightarrow> cbytes option) \<Rightarrow> arp_state \<Rightarrow> bool" where
  "arp_released base st \<longleftrightarrow> cells (snd st) = base \<and> mem_ok (snd st)"

definition arp_stop :: "arp_state \<Rightarrow> arp_state" where
  "arp_stop = (\<lambda>(e, m). (map_option (\<lambda>e. e\<lparr>flag := LOOP_TYPE_STOP\<rparr>) e, m))"

definition arp_step :: "cbytes option \<Rightarrow> int \<Rightarrow> arp_state \<Rightarrow> (int \<times> arp_state) res" where
  "arp_step proc aflag = (\<lambda>(e, m). fcp_foreach_comm_arp proc e aflag m)"

lemma arp_done_rep:
  assumes "mem_ok m" "cells m = base(fp \<mapsto> c)" "base fp = None" "fp \<noteq> 0"
  shows "\<exists>m'. arp_done fp e m = Inr (-1, Some e, m') \<and> cells m' = base \<and> mem_ok m'"
proof -
  obtain m' where m': "mem_free fp m = Inr m'" "cells m' = (cells m)(fp := None)" "mem_ok m'"
    using mem_free_some [OF assms(1), of fp] assms(2) by auto
  have "cells m' = base" using assms(2,3) m'(2) by auto
  then show ?thesis using m' assms(4) by (simp add: arp_done_def)
qed

text \<open>One call, from the unread lines \<open>ls\<close>: the next flagged line, or the end.\<close>

lemma arp_continue_rep:
  assumes "mem_ok m" "cells m = base(fp \<mapsto> arp_file ls)" "base fp = None" "fp \<noteq> 0"
    and "\<forall>ws \<in> set ls. arp_line ws" "this_of e = fp" "flag e = LOOP_TYPE_CON"
  shows "case filter (\<lambda>ws. arp_flags ws AND aflag \<noteq> 0) ls of
      [] \<Rightarrow> \<exists>e' m'. arp_continue aflag fp e m = Inr (-1, Some e', m') \<and> arp_released base (Some e', m') \<and>
        this_of e' = fp \<and> flag e' = LOOP_TYPE_CON
    | x # xs \<Rightarrow> \<exists>t. arp_continue aflag fp e m = Inr (0, t) \<and> arp_at aflag base t x xs"
proof -
  let ?skip = "\<lambda>ws. arp_flags ws AND aflag = 0"
  have get: "mem_get fp m = Inr (arp_file ls)"
    by (rule mem_get_some [OF assms(1)]) (simp add: assms(2))
  obtain e' where e': "arp_next aflag (replicate 20 0) (replicate 20 0) (replicate 16 0) e (arp_file ls) =
      (case dropWhile ?skip ls of [] \<Rightarrow> Inr (False, e', []) | ws # ls' \<Rightarrow> Inr (True, e', arp_file ls'))"
    "this_of e' = this_of e" "flag e' = flag e"
    "case dropWhile ?skip ls of [] \<Rightarrow> True | ws # ls' \<Rightarrow> arp_shows e' ws"
    using arp_next_lines [OF assms(5), of "replicate 20 0" "replicate 20 0" "replicate 16 0" aflag e] by auto
  show ?thesis
  proof (cases "dropWhile ?skip ls")
    case Nil
    then have f: "filter (\<lambda>ws. arp_flags ws AND aflag \<noteq> 0) ls = []"
      by (simp add: dropWhile_eq_Nil_conv filter_empty_conv)
    obtain m1 where m1: "mem_put fp [] m = Inr m1" "cells m1 = (cells m)(fp \<mapsto> [])" "mem_ok m1"
      using mem_put_some [OF assms(1), of fp] assms(2) by (metis fun_upd_same)
    have c: "cells m1 = base(fp \<mapsto> [])" using m1(2) assms(2) by simp
    obtain m2 where "arp_done fp e' m1 = Inr (-1, Some e', m2)" "cells m2 = base" "mem_ok m2"
      using arp_done_rep [OF m1(3) c assms(3,4)] by blast
    then show ?thesis
      using f e'(1) [unfolded Nil list.case] e'(2,3) get m1(1) assms(6,7) by (simp add: arp_continue_def arp_released_def)
  next
    case (Cons ws ls')
    have keep: "arp_flags ws AND aflag \<noteq> 0"
      using Cons by (metis (mono_tags, lifting) hd_dropWhile list.distinct(1) list.sel(1))
    have f: "filter (\<lambda>ws. arp_flags ws AND aflag \<noteq> 0) ls = ws # filter (\<lambda>ws. arp_flags ws AND aflag \<noteq> 0) ls'"
    proof -
      have "filter (\<lambda>ws. arp_flags ws AND aflag \<noteq> 0) ls
          = filter (\<lambda>ws. arp_flags ws AND aflag \<noteq> 0) (takeWhile ?skip ls @ dropWhile ?skip ls)"
        by simp
      also have "\<dots> = filter (\<lambda>ws. arp_flags ws AND aflag \<noteq> 0) (dropWhile ?skip ls)"
        unfolding filter_append by (auto simp: filter_empty_conv dest: set_takeWhileD)
      finally show ?thesis using Cons keep by simp
    qed
    have sub: "\<forall>w \<in> set ls'. arp_line w"
      using Cons assms(5) by (metis list.set_intros(2) set_dropWhileD)
    obtain m1 where m1: "mem_put fp (arp_file ls') m = Inr m1" "cells m1 = (cells m)(fp \<mapsto> arp_file ls')" "mem_ok m1"
      using mem_put_some [OF assms(1), of fp] assms(2) by (metis fun_upd_same)
    have c: "cells m1 = base(fp \<mapsto> arp_file ls')" using m1(2) assms(2) by simp
    have "arp_continue aflag fp e m = Inr (0, Some e', m1)"
      using e'(1) [unfolded Cons list.case] get m1(1) by (simp add: arp_continue_def)
    moreover have "arp_at aflag base (Some e', m1) ws (filter (\<lambda>ws. arp_flags ws AND aflag \<noteq> 0) ls')"
      unfolding arp_at_def using Cons e'(2-4) m1(3) c sub assms(3,4,6,7) by auto
    ultimately show ?thesis using f by auto
  qed
qed

lemma arp_continue_call:
  assumes "mem_ok m" "cells m = base(fp \<mapsto> arp_file ls)" "base fp = None" "fp \<noteq> 0"
    and "\<forall>ws \<in> set ls. arp_line ws" "this_of e = fp" "flag e = LOOP_TYPE_CON"
  shows "case filter (\<lambda>ws. arp_flags ws AND aflag \<noteq> 0) ls of
      [] \<Rightarrow> \<exists>t. arp_continue aflag fp e m = Inr (-1, t) \<and> arp_released base t
    | x # xs \<Rightarrow> \<exists>t. arp_continue aflag fp e m = Inr (0, t) \<and> arp_at aflag base t x xs"
  using arp_continue_rep [OF assms, of aflag]
  by (cases "filter (\<lambda>ws. arp_flags ws AND aflag \<noteq> 0) ls") auto

interpretation arp_stream: item_stream "arp_step proc aflag" arp_stop
  "arp_ready proc aflag base" "arp_at aflag base" "arp_released base"
  for proc aflag base
proof unfold_locales
  have start: "case xs of [] \<Rightarrow> \<exists>t. arp_step proc aflag s = Inr (-1, t) \<and> arp_released base t
      | x # ys \<Rightarrow> \<exists>t. arp_step proc aflag s = Inr (0, t) \<and> arp_at aflag base t x ys"
    if r: "arp_ready proc aflag base s xs" for s xs
  proof -
    obtain m hdr ls where s: "s = (Some zero_arp, m)" "mem_ok m" "cells m = base"
      and proc: "proc = Some (hdr @ 10 # arp_file ls)" "10 \<notin> set hdr" "length hdr + 1 < 1024"
      and ls: "\<forall>ws \<in> set ls. arp_line ws" "xs = filter (\<lambda>ws. arp_flags ws AND aflag \<noteq> 0) ls"
      using r by (cases s) (auto simp: arp_ready_def)
    obtain fp m1 where m1: "mem_alloc (\<lambda>_. False) (hdr @ 10 # arp_file ls) m = (fp, m1)" "0 < fp" "cells m fp = None"
        "cells m1 = (cells m)(fp \<mapsto> hdr @ 10 # arp_file ls)" "mem_ok m1"
      using mem_alloc_some [OF s(2), of "\<lambda>_. False" "hdr @ 10 # arp_file ls"] by metis
    obtain m2 where m2: "mem_put fp (arp_file ls) m1 = Inr m2" "cells m2 = (cells m1)(fp \<mapsto> arp_file ls)" "mem_ok m2"
      using mem_put_some [OF m1(5), of fp] m1(4) by (metis fun_upd_same)
    have fg: "c_fgets 1024 (hdr @ 10 # arp_file ls) = Some (hdr @ [10], arp_file ls)"
      by (rule fgets_line) (use proc in simp_all)
    let ?e = "zero_arp\<lparr>this_of := fp, flag := LOOP_TYPE_CON\<rparr>"
    have step: "arp_step proc aflag s = arp_continue aflag fp ?e m2"
      using m1(1) m2(1) fg
      by (simp add: arp_step_def s(1) fcp_foreach_comm_arp_def proc(1) zero_arp_def LOOP_TYPE_START_def Let_def)
    have "cells m2 = base(fp \<mapsto> arp_file ls)" "base fp = None" "fp \<noteq> 0"
      using m1 m2 s(3) by auto
    then show ?thesis
      unfolding step ls(2) by (rule arp_continue_call [OF m2(3) _ _ _ ls(1)]) simp_all
  qed
  have cont: "case xs of [] \<Rightarrow> \<exists>t. arp_step proc aflag s = Inr (-1, t) \<and> arp_released base t
      | x # ys \<Rightarrow> \<exists>t. arp_step proc aflag s = Inr (0, t) \<and> arp_at aflag base t x ys"
    if a: "arp_at aflag base s y xs" for s y xs
  proof -
    obtain m e ls where s: "s = (Some e, m)" "flag e = LOOP_TYPE_CON" "this_of e \<noteq> 0" "mem_ok m"
        "cells m = base(this_of e \<mapsto> arp_file ls)" "base (this_of e) = None"
        "\<forall>ws \<in> set ls. arp_line ws" "xs = filter (\<lambda>ws. arp_flags ws AND aflag \<noteq> 0) ls"
      using a by (cases s) (auto simp: arp_at_def)
    have step: "arp_step proc aflag s = arp_continue aflag (this_of e) e m"
      by (simp add: arp_step_def s(1-3) fcp_foreach_comm_arp_def loop_types)
    show ?thesis
      unfolding step s(8) by (rule arp_continue_call [OF s(4,5,6,3,7) refl s(2)])
  qed
  show "\<exists>t. arp_step proc aflag s = Inr (0, t) \<and> arp_at aflag base t x xs"
    if "arp_ready proc aflag base s (x # xs)" for s x xs
    using start [OF that] by simp
  show "\<exists>t r. arp_step proc aflag s = Inr (r, t) \<and> r \<noteq> 0 \<and> arp_released base t"
    if "arp_ready proc aflag base s []" for s
    using start [OF that] by fastforce
  show "\<exists>t. arp_step proc aflag s = Inr (0, t) \<and> arp_at aflag base t x xs"
    if "arp_at aflag base s y (x # xs)" for s y x xs
    using cont [OF that] by simp
  show "\<exists>t r. arp_step proc aflag s = Inr (r, t) \<and> r \<noteq> 0 \<and> arp_released base t"
    if "arp_at aflag base s y []" for s y
    using cont [OF that] by fastforce
  show "\<exists>t r. arp_step proc aflag (arp_stop s) = Inr (r, t) \<and> r \<noteq> 0 \<and> arp_released base t"
    if a: "arp_at aflag base s y xs" for s y xs
  proof -
    obtain m e ls where s: "s = (Some e, m)" "this_of e \<noteq> 0" "mem_ok m"
        "cells m = base(this_of e \<mapsto> arp_file ls)" "base (this_of e) = None"
      using a by (cases s) (auto simp: arp_at_def)
    obtain m' where "arp_done (this_of e) (e\<lparr>flag := LOOP_TYPE_STOP\<rparr>) m =
        Inr (-1, Some (e\<lparr>flag := LOOP_TYPE_STOP\<rparr>), m')" "cells m' = base" "mem_ok m'"
      using arp_done_rep [OF s(3-5,2)] by blast
    then show ?thesis
      by (simp add: arp_step_def arp_stop_def s(1) fcp_foreach_comm_arp_def loop_types arp_released_def)
  qed
qed


section \<open>Properties\<close>

definition keep_arp ::
    "arp_state \<Rightarrow> (cbytes \<times> cbytes \<times> cbytes \<times> int \<times> int) list \<Rightarrow>
      (bool \<times> (cbytes \<times> cbytes \<times> cbytes \<times> int \<times> int) list) res" where
  "keep_arp = (\<lambda>(e, m) acc. case e of None \<Rightarrow> Inl NullDeref | Some e \<Rightarrow> Inr (False, acc @ [arp_view e]))"

lemma keep_arp_at: "arp_at aflag base s x xs \<Longrightarrow> keep_arp s a = Inr (False, a @ [arp_meaning x])"
  by (cases s) (auto simp: arp_at_def arp_shows_def keep_arp_def)

text \<open>C24: the loops over the ARP table yield exactly the lines with a wanted flag, in order, each as
  its address, hardware address, device, type and flags, and close the file they opened, for a table
  whose words fit the buffers.\<close>

lemma fcp_foreach_arp_loop:
  assumes "mem_ok m" "10 \<notin> set hdr" "length hdr + 1 < 1024" "\<forall>ws \<in> set ls. arp_line ws" "length ls < fuel"
  shows "\<exists>e m'. foreach_loop fuel (\<lambda>(e, m). fcp_foreach_comm_arp (Some (hdr @ 10 # arp_file ls)) e aflag m)
      arp_stop keep_arp (Some zero_arp, m) [] =
        Inr (Some ((e, m'), map arp_meaning (filter (\<lambda>ws. arp_flags ws AND aflag \<noteq> 0) ls))) \<and>
    cells m' = cells m"
proof -
  let ?proc = "Some (hdr @ 10 # arp_file ls)" and ?xs = "filter (\<lambda>ws. arp_flags ws AND aflag \<noteq> 0) ls"
  have rdy: "arp_ready ?proc aflag (cells m) (Some zero_arp, m) ?xs"
    unfolding arp_ready_def using assms by auto
  have len: "length ?xs < fuel"
    using assms(5) length_filter_le [of "\<lambda>ws. arp_flags ws AND aflag \<noteq> 0" ls] by linarith
  have "\<exists>t. foreach_loop fuel (arp_step ?proc aflag) arp_stop keep_arp (Some zero_arp, m) [] =
      Inr (Some (t, visit (\<lambda>x a. (False, a @ [arp_meaning x])) ?xs [])) \<and> arp_released (cells m) t"
    by (rule arp_stream.loop_visits [OF rdy len]) (rule keep_arp_at)
  then show ?thesis
    by (auto simp: visit_all arp_released_def arp_step_def)
qed

text \<open>An ARP iteration that has ended must not be continued: the entry keeps the pointer of the
  closed stream, so that one more call reads from it, or closes it a second time after a requested
  stop.\<close>

lemma fcp_foreach_arp_after_end:
  assumes "arp_at aflag base (Some e, m) x xs"
  shows "(xs = [] \<longrightarrow> (\<exists>e' m'. fcp_foreach_comm_arp proc (Some e) aflag m = Inr (-1, Some e', m') \<and>
      fcp_foreach_comm_arp proc (Some e') aflag m' = Inl UseAfterFree)) \<and>
    (\<exists>e' m'. fcp_foreach_comm_arp proc (Some (e\<lparr>flag := LOOP_TYPE_STOP\<rparr>)) aflag m = Inr (-1, Some e', m') \<and>
      fcp_foreach_comm_arp proc (Some e') aflag m' = Inl BadFree)"
proof -
  obtain ls where s: "flag e = LOOP_TYPE_CON" "this_of e \<noteq> 0" "mem_ok m"
      "cells m = base(this_of e \<mapsto> arp_file ls)" "base (this_of e) = None"
      "\<forall>ws \<in> set ls. arp_line ws" "xs = filter (\<lambda>ws. arp_flags ws AND aflag \<noteq> 0) ls"
    using assms by (auto simp: arp_at_def)
  have closed: "fcp_foreach_comm_arp proc (Some e') aflag m' = Inl UseAfterFree"
    if "this_of e' = this_of e" "flag e' = LOOP_TYPE_CON" "cells m' = base" for e' m'
    using that s(2,5) by (simp add: fcp_foreach_comm_arp_def loop_types arp_continue_def mem_get_def)
  have "\<exists>e' m'. fcp_foreach_comm_arp proc (Some e) aflag m = Inr (-1, Some e', m') \<and>
      fcp_foreach_comm_arp proc (Some e') aflag m' = Inl UseAfterFree" if nil: "xs = []"
  proof -
    have f: "filter (\<lambda>ws. arp_flags ws AND aflag \<noteq> 0) ls = []"
      using nil s(7) by simp
    obtain e' m' where c: "arp_continue aflag (this_of e) e m = Inr (-1, Some e', m')" "cells m' = base"
        "this_of e' = this_of e" "flag e' = LOOP_TYPE_CON"
      using arp_continue_rep [OF s(3,4,5,2,6) refl s(1), of aflag] unfolding f list.case arp_released_def by auto
    then show ?thesis
      using s(1,2) closed [OF c(3,4,2)] by (auto simp: fcp_foreach_comm_arp_def loop_types)
  qed
  moreover have "\<exists>e' m'. fcp_foreach_comm_arp proc (Some (e\<lparr>flag := LOOP_TYPE_STOP\<rparr>)) aflag m = Inr (-1, Some e', m') \<and>
      fcp_foreach_comm_arp proc (Some e') aflag m' = Inl BadFree"
  proof -
    obtain m' where d: "arp_done (this_of e) (e\<lparr>flag := LOOP_TYPE_STOP\<rparr>) m =
        Inr (-1, Some (e\<lparr>flag := LOOP_TYPE_STOP\<rparr>), m')" "cells m' = base"
      using arp_done_rep [OF s(3-5,2)] by blast
    then show ?thesis
      using s(2,5) by (simp add: fcp_foreach_comm_arp_def loop_types arp_done_def mem_free_def)
  qed
  ultimately show ?thesis by blast
qed

definition sample_arp :: "(nat \<times> cbytes) list" where
  "sample_arp = [(0, cbytes_of ''10.0.0.1''), (2, cbytes_of ''0x1''), (3, cbytes_of ''0x2''),
     (3, cbytes_of ''52:54:00:12:35:02''), (3, cbytes_of ''*''), (3, cbytes_of ''eth0'')]"

lemma sample_arp_line: "arp_line sample_arp"
  by code_simp

lemma fcp_foreach_arp_loop_witness:
  "\<exists>e m'. foreach_loop 3 (\<lambda>(e, m). fcp_foreach_comm_arp (Some ([73] @ 10 # arp_file [sample_arp])) e 2 m)
      arp_stop keep_arp (Some zero_arp, \<lparr>cells = Map.empty, allocs = 0\<rparr>) [] =
        Inr (Some ((e, m'), [(cbytes_of ''10.0.0.1'', cbytes_of ''52:54:00:12:35:02'', cbytes_of ''eth0'', 1, 2)])) \<and>
    cells m' = Map.empty"
proof -
  have "map arp_meaning (filter (\<lambda>ws. arp_flags ws AND 2 \<noteq> 0) [sample_arp]) =
      [(cbytes_of ''10.0.0.1'', cbytes_of ''52:54:00:12:35:02'', cbytes_of ''eth0'', 1, 2)]"
    by code_simp
  then show ?thesis
    using fcp_foreach_arp_loop [of "\<lparr>cells = Map.empty, allocs = 0\<rparr>" "[73]" "[sample_arp]" 3 2] sample_arp_line
    by (simp add: mem_ok_def)
qed

lemma fcp_foreach_arp_after_end_witness:
  "\<exists>e x e' m'. fcp_foreach_comm_arp None (Some (e\<lparr>flag := LOOP_TYPE_STOP\<rparr>)) 2
        \<lparr>cells = [1 \<mapsto> []], allocs = 1\<rparr> = Inr (-1, Some e', m') \<and>
      fcp_foreach_comm_arp None (Some e') 2 m' = Inl BadFree \<and> arp_view e = arp_meaning x"
proof -
  let ?e = "zero_arp\<lparr>this_of := 1, flag := LOOP_TYPE_CON,
      arp_ipv4 := cbytes_of ''10.0.0.1'' @ [0], arp_hwaddr := cbytes_of ''52:54:00:12:35:02'' @ [0],
      arp_devname := cbytes_of ''eth0'' @ [0], arp_hwtype := 1, arp_flag := 2\<rparr>"
  have v: "arp_view ?e = arp_meaning sample_arp" by code_simp
  then have "arp_shows ?e sample_arp" by (simp add: arp_shows_def terminated_def)
  then have "arp_at 2 Map.empty (Some ?e, \<lparr>cells = [1 \<mapsto> []], allocs = 1\<rparr>) sample_arp []"
    by (simp add: arp_at_def mem_ok_def exI [of _ "[]"] arp_file_def)
  from fcp_foreach_arp_after_end [OF this, of None] v show ?thesis by blast
qed

end
