(* ===== verification/Fcp_Net.thy ===== *)
theory Fcp_Net
  imports Gen_Dir Gen_General
begin

text \<open>
  The rest of \<open>src/src/myfcp/fcp_net.c\<close>: the sockets of \<open>/proc/net/tcp\<close> and \<open>/proc/net/udp\<close> with the
  processes that hold them, the local IPv4 addresses, and the switch for answering pings.  Symbolic
  links are a function from path to target, directories and files as in the other theories.
\<close>

section \<open>Addresses\<close>

text \<open>\<open>inet_ntop(AF_INET, ...)\<close> of four bytes in memory order.\<close>

type_synonym ipv4 = "byte \<times> byte \<times> byte \<times> byte"

fun ntop :: "ipv4 \<Rightarrow> cbytes" where
  "ntop (a, b, c, d) = dec_of_nat (unat a) @ [46] @ dec_of_nat (unat b) @ [46] @ dec_of_nat (unat c) @ [46] @ dec_of_nat (unat d)"

text \<open>The first four bytes of an \<open>unsigned long\<close> on a little-endian machine.\<close>

definition low_bytes :: "u64 \<Rightarrow> ipv4" where
  "low_bytes v = (ucast v, ucast (drop_bit 8 v), ucast (drop_bit 16 v), ucast (drop_bit 24 v))"

section \<open>The process that holds a socket\<close>

definition MAX_PATH_LEN :: nat where "MAX_PATH_LEN = 1024"
definition MAX_IPV4_STRLEN :: nat where "MAX_IPV4_STRLEN = 16"

record NetProcInfo =
  bucket :: u32
  srcaddr :: cbytes
  srcport :: u32
  dstaddr :: cbytes
  dstport :: u32
  connstate :: i32
  sendbytes :: u32
  recvbytes :: u32
  np_uid :: u32
  np_inode :: u32
  skrefcnt :: u32
  sockaddr :: u64
  np_pid :: int
  procpath :: cbytes

definition zero_netproc :: NetProcInfo where
  "zero_netproc = \<lparr>bucket = 0, srcaddr = replicate MAX_IPV4_STRLEN 0, srcport = 0,
     dstaddr = replicate MAX_IPV4_STRLEN 0, dstport = 0, connstate = 0, sendbytes = 0, recvbytes = 0,
     np_uid = 0, np_inode = 0, skrefcnt = 0, sockaddr = 0, np_pid = 0, procpath = replicate MAX_PATH_LEN 0\<rparr>"

text \<open>\<open>readlink\<close> stores the target, cut to \<open>n\<close> bytes, and no NUL.\<close>

type_synonym links_fn = "cbytes \<Rightarrow> cbytes option"

definition c_readlink :: "links_fn \<Rightarrow> cbytes \<Rightarrow> cbytes \<Rightarrow> nat \<Rightarrow> cbytes option res" where
  "c_readlink readlink path buf n =
    (case readlink path of None \<Rightarrow> Inr None
     | Some target \<Rightarrow>
         rbind (memcpy buf 0 (take n target) 0 (min n (length target))) (\<lambda>buf. Inr (Some buf)))"

text \<open>
  The loop of \<open>deal_proc_pid_info\<close> over the descriptors of a process: \<open>True\<close> when one of them is the
  socket with the wanted inode.  \<open>pathbuff\<close> is the allocated path buffer.
\<close>

fun fd_scan :: "links_fn \<Rightarrow> cbytes \<Rightarrow> u32 \<Rightarrow> dirent list \<Rightarrow> cbytes \<Rightarrow> (bool \<times> cbytes) res" where
  "fd_scan readlink name inode [] pathbuff = Inr (False, pathbuff)"
| "fd_scan readlink name inode ((d_name, d_type) # es) pathbuff =
    rbind (c_sprintf pathbuff 0 (name @ cbytes_of ''/fd/'' @ d_name)) (\<lambda>pathbuff.
    rbind (text_of pathbuff) (\<lambda>path.
    rbind (c_readlink readlink path (replicate 256 0) 256) (\<lambda>r.
    case r of
      None \<Rightarrow> fd_scan readlink name inode es pathbuff
    | Some sympath \<Rightarrow>
        rbind (text_of sympath) (\<lambda>s.
        if \<not> c_strstr s (cbytes_of ''socket:'') then fd_scan readlink name inode es pathbuff
        else case c_strchr s 91 of
          None \<Rightarrow> fd_scan readlink name inode es pathbuff
        | Some k \<Rightarrow>
            if word_of_int (c_atoi (drop (k + 1) s)) \<noteq> inode
            then fd_scan readlink name inode es pathbuff
            else Inr (True, pathbuff)))))"

text \<open>\<open>nomem\<close>: the allocation of the path buffer fails.\<close>

definition deal_proc_pid_info ::
    "bool \<Rightarrow> dir_contents \<Rightarrow> links_fn \<Rightarrow> cbytes \<Rightarrow> NetProcInfo \<Rightarrow> (int \<times> NetProcInfo) res" where
  "deal_proc_pid_info nomem fs readlink name pinfo =
    (if nomem then Inr (0, pinfo)
     else
       rbind (c_sprintf (replicate (length name + 3 + 256) 0) 0 (name @ cbytes_of ''/fd'')) (\<lambda>pathbuff.
       rbind (text_of pathbuff) (\<lambda>path.
       case fs path of None \<Rightarrow> Inr (0, pinfo)
       | Some entries \<Rightarrow>
           rbind (fd_scan readlink name (np_inode pinfo) entries pathbuff) (\<lambda>(found, pathbuff).
           if \<not> found then Inr (0, pinfo)
           else
             let pinfo = (case c_strrchr name slash of None \<Rightarrow> pinfo
                          | Some k \<Rightarrow> pinfo\<lparr>np_pid := c_atoi (drop (k + 1) name)\<rparr>) in
             rbind (c_sprintf pathbuff 0 (name @ cbytes_of ''/exe'')) (\<lambda>pathbuff.
             rbind (text_of pathbuff) (\<lambda>path.
             rbind (c_readlink readlink path (procpath pinfo) MAX_PATH_LEN) (\<lambda>r.
             case r of None \<Rightarrow> Inr (-1, pinfo)
             | Some p \<Rightarrow> Inr (-1, pinfo\<lparr>procpath := p\<rparr>))))))))"

text \<open>A fault in the callback ends the walk and is the result of it.\<close>

definition parse_proc_info_by_inode ::
    "nat \<Rightarrow> (nat \<Rightarrow> bool) \<Rightarrow> (cbytes \<Rightarrow> bool) \<Rightarrow> dir_contents \<Rightarrow> links_fn \<Rightarrow> NetProcInfo \<Rightarrow> dir_cell mem \<Rightarrow>
      (int \<times> NetProcInfo \<times> dir_cell mem) option res" where
  "parse_proc_info_by_inode fuel oom nomem fs readlink pinfo m =
    obind (general_find_proc_pid fuel oom fs
        (\<lambda>name p. case p of Inl e \<Rightarrow> (1, Inl e)
           | Inr p \<Rightarrow> (case deal_proc_pid_info (nomem name) fs readlink name p of
               Inl e \<Rightarrow> (1, Inl e) | Inr (ret, p) \<Rightarrow> (ret, Inr p)))
        (Inr pinfo) m)
      (\<lambda>(ret, p, m). rbind p (\<lambda>p. Inr (Some (ret, p, m))))"

section \<open>The fields of a line\<close>

definition NET_FIELD_BUCKET :: nat where "NET_FIELD_BUCKET = 0"
definition NET_FIELD_SRCADDR :: nat where "NET_FIELD_SRCADDR = 1"
definition NET_FIELD_DSTADDR :: nat where "NET_FIELD_DSTADDR = 2"
definition NET_FIELD_STATE :: nat where "NET_FIELD_STATE = 3"
definition NET_FIELD_SENDRECVBYTES :: nat where "NET_FIELD_SENDRECVBYTES = 4"
definition NET_FIELD_UID :: nat where "NET_FIELD_UID = 7"
definition NET_FIELD_INODE :: nat where "NET_FIELD_INODE = 9"
definition NET_FIELD_SKREFCNT :: nat where "NET_FIELD_SKREFCNT = 10"
definition NET_FIELD_SOCKADDR :: nat where "NET_FIELD_SOCKADDR = 11"
definition NET_FIELD_MAX :: nat where "NET_FIELD_MAX = 12"

text \<open>\<open>ptmp = strchr(str,':'); if(ptmp) *ptmp++ = 0\<close>.\<close>

definition split_colon :: "cbytes \<Rightarrow> nat \<Rightarrow> (cbytes \<times> nat option) res" where
  "split_colon bs p =
    rbind (str_at bs p) (\<lambda>s.
      case c_strchr s 58 of None \<Rightarrow> Inr (bs, None)
      | Some k \<Rightarrow> rbind (wr bs (p + k) 0) (\<lambda>bs. Inr (bs, Some (p + k + 1))))"

text \<open>An address and a port, \<open>ADDR:PORT\<close> in hexadecimal.\<close>

definition parse_endpoint :: "cbytes \<Rightarrow> nat \<Rightarrow> cbytes \<Rightarrow> u32 \<Rightarrow> (cbytes \<times> cbytes \<times> u32) res" where
  "parse_endpoint bs p addr port =
    rbind (split_colon bs p) (\<lambda>(bs, q).
    rbind (case q of None \<Rightarrow> Inr port | Some q \<Rightarrow> rbind (str_at bs q) (\<lambda>s. Inr (ucast (c_strtoul 16 s)))) (\<lambda>port.
    rbind (str_at bs p) (\<lambda>s.
    rbind (c_sprintf addr 0 (ntop (low_bytes (c_strtoul 16 s)))) (\<lambda>addr.
      Inr (bs, addr, port)))))"

definition on_field :: "nat option \<Rightarrow> 'a \<Rightarrow> (nat \<Rightarrow> 'a res) \<Rightarrow> 'a res" where
  "on_field f a g = (case f of None \<Rightarrow> Inr a | Some p \<Rightarrow> g p)"

definition parse_fields :: "cbytes \<Rightarrow> nat option list \<Rightarrow> NetProcInfo \<Rightarrow> (cbytes \<times> NetProcInfo) res" where
  "parse_fields bs field pinfo =
    rbind (on_field (field ! NET_FIELD_BUCKET) pinfo (\<lambda>p.
      rbind (str_at bs p) (\<lambda>s. Inr (pinfo\<lparr>bucket := ucast (c_strtoul 16 s)\<rparr>)))) (\<lambda>pinfo.
    rbind (on_field (field ! NET_FIELD_SRCADDR) (bs, pinfo) (\<lambda>p.
      rbind (parse_endpoint bs p (srcaddr pinfo) (srcport pinfo)) (\<lambda>(bs, addr, port).
        Inr (bs, pinfo\<lparr>srcaddr := addr, srcport := port\<rparr>)))) (\<lambda>(bs, pinfo).
    rbind (on_field (field ! NET_FIELD_DSTADDR) (bs, pinfo) (\<lambda>p.
      rbind (parse_endpoint bs p (dstaddr pinfo) (dstport pinfo)) (\<lambda>(bs, addr, port).
        Inr (bs, pinfo\<lparr>dstaddr := addr, dstport := port\<rparr>)))) (\<lambda>(bs, pinfo).
    rbind (on_field (field ! NET_FIELD_STATE) pinfo (\<lambda>p.
      rbind (str_at bs p) (\<lambda>s. Inr (pinfo\<lparr>connstate := ucast (c_strtoul 16 s)\<rparr>)))) (\<lambda>pinfo.
    rbind (on_field (field ! NET_FIELD_SENDRECVBYTES) (bs, pinfo) (\<lambda>p.
      rbind (split_colon bs p) (\<lambda>(bs, q).
      rbind (case q of None \<Rightarrow> Inr pinfo
             | Some q \<Rightarrow> rbind (str_at bs q) (\<lambda>s. Inr (pinfo\<lparr>recvbytes := ucast (c_strtoul 16 s)\<rparr>))) (\<lambda>pinfo.
      rbind (str_at bs p) (\<lambda>s. Inr (bs, pinfo\<lparr>sendbytes := ucast (c_strtoul 16 s)\<rparr>)))))) (\<lambda>(bs, pinfo).
    rbind (on_field (field ! NET_FIELD_UID) pinfo (\<lambda>p.
      rbind (str_at bs p) (\<lambda>s. Inr (pinfo\<lparr>np_uid := word_of_int (c_atoi s)\<rparr>)))) (\<lambda>pinfo.
    rbind (on_field (field ! NET_FIELD_INODE) pinfo (\<lambda>p.
      rbind (str_at bs p) (\<lambda>s. Inr (pinfo\<lparr>np_inode := word_of_int (c_atoi s)\<rparr>)))) (\<lambda>pinfo.
    rbind (on_field (field ! NET_FIELD_SKREFCNT) pinfo (\<lambda>p.
      rbind (str_at bs p) (\<lambda>s. Inr (pinfo\<lparr>skrefcnt := word_of_int (c_atoi s)\<rparr>)))) (\<lambda>pinfo.
    rbind (on_field (field ! NET_FIELD_SOCKADDR) pinfo (\<lambda>p.
      rbind (str_at bs p) (\<lambda>s. Inr (pinfo\<lparr>sockaddr := c_strtoul 16 s\<rparr>)))) (\<lambda>pinfo.
      Inr (bs, pinfo))))))))))"

text \<open>Everything outside the arguments that \<open>com_foreach_net_info\<close> depends on.\<close>

record net_env =
  env_fuel :: nat
  env_oom :: "nat \<Rightarrow> bool"
  env_nomem :: "cbytes \<Rightarrow> bool"
  env_dirs :: dir_contents
  env_links :: links_fn
  env_files :: "cbytes \<Rightarrow> cbytes option"

definition parse_net_field ::
    "net_env \<Rightarrow> cbytes \<Rightarrow> nat option list \<Rightarrow> NetProcInfo \<Rightarrow> dir_cell mem \<Rightarrow>
      (int \<times> NetProcInfo \<times> dir_cell mem) option res" where
  "parse_net_field env bs field pinfo m =
    rbind (parse_fields bs field pinfo) (\<lambda>(_, pinfo).
      parse_proc_info_by_inode (env_fuel env) (env_oom env) (env_nomem env) (env_dirs env) (env_links env) pinfo m)"

section \<open>All sockets\<close>

text \<open>The loop over the lines.  \<open>field\<close> and \<open>pinfo\<close> live across the lines.\<close>

function net_loop ::
    "net_env \<Rightarrow> (NetProcInfo \<Rightarrow> 'a \<Rightarrow> int \<times> 'a) \<Rightarrow> cbytes \<Rightarrow> nat option list \<Rightarrow> NetProcInfo \<Rightarrow> dir_cell mem \<Rightarrow> 'a \<Rightarrow>
      ('a \<times> dir_cell mem) option res" where
  "net_loop env callback content field pinfo m userarg =
    (case c_fgets 1024 content of
       None \<Rightarrow> Inr (Some (userarg, m))
     | Some (line, content) \<Rightarrow>
         rbind (memcpy (replicate 1024 0) 0 (line @ [0]) 0 (length line + 1)) (\<lambda>tmpbuff.
         case general_get_field (Some tmpbuff) 32 (int NET_FIELD_MAX) (Some field) of
           Inr (ret, Some tmpbuff, Some field) \<Rightarrow>
             if ret = 0 then
               (case parse_net_field env tmpbuff field pinfo m of
                  Inr (Some (ret, pinfo, m)) \<Rightarrow>
                    if ret = 0 then
                      (case callback pinfo userarg of (ret, userarg) \<Rightarrow>
                         if ret \<noteq> 0 then Inr (Some (userarg, m))
                         else net_loop env callback content field pinfo m userarg)
                    else net_loop env callback content field pinfo m userarg
                | Inr None \<Rightarrow> Inr None
                | Inl e \<Rightarrow> Inl e)
             else net_loop env callback content field pinfo m userarg
         | Inl e \<Rightarrow> Inl e
         | _ \<Rightarrow> Inl NullDeref))"
  by pat_completeness auto
termination
  by (relation "measure (\<lambda>(env, cb, content, f, p, m, a). length content)") (auto dest!: fgets_shrinks)

declare net_loop.simps [simp del]

definition NETTYPE_TCP :: u32 where "NETTYPE_TCP = 0"
definition NETTYPE_UDP :: u32 where "NETTYPE_UDP = 1"

text \<open>
  The result is the return value, where \<open>None\<close> is a value that is never set because control falls off
  the end of the function, the caller's data, the number of streams left open, and the memory.
\<close>

definition com_foreach_net_info ::
    "net_env \<Rightarrow> (NetProcInfo \<Rightarrow> 'a \<Rightarrow> int \<times> 'a) \<Rightarrow> u32 \<Rightarrow> 'a \<Rightarrow> dir_cell mem \<Rightarrow>
      (int option \<times> 'a \<times> nat \<times> dir_cell mem) option res" where
  "com_foreach_net_info env callback nettype userarg m =
    (if nettype > NETTYPE_UDP then Inr (Some (Some (-1), userarg, 0, m))
     else
       case env_files env (if nettype = NETTYPE_TCP then cbytes_of ''/proc/net/tcp'' else cbytes_of ''/proc/net/udp'') of
         None \<Rightarrow> Inr (Some (Some (-1), userarg, 0, m))
       | Some content \<Rightarrow>
           case c_fgets 1024 content of
             None \<Rightarrow> Inr (Some (Some (-1), userarg, 1, m))
           | Some (_, content) \<Rightarrow>
               obind (net_loop env callback content (replicate NET_FIELD_MAX None) zero_netproc m userarg)
                 (\<lambda>(userarg, m). Inr (Some (None, userarg, 0, m))))"

section \<open>Local addresses\<close>

text \<open>An interface address: its family and, for \<open>AF_INET\<close>, its bytes; \<open>None\<close> is \<open>ifa_addr == NULL\<close>.\<close>

definition AF_INET :: nat where "AF_INET = 2"

definition COMM_STOP_IPGET :: int where "COMM_STOP_IPGET = -1"
definition COMM_CONTINUE_IPGET :: int where "COMM_CONTINUE_IPGET = 0"

fun local_loop :: "(cbytes \<Rightarrow> 'a \<Rightarrow> int \<times> 'a) \<Rightarrow> (nat \<times> ipv4) option list \<Rightarrow> int \<Rightarrow> 'a \<Rightarrow> (int \<times> 'a) res" where
  "local_loop singleip [] ret arg = Inr (ret, arg)"
| "local_loop singleip (None # ifs) ret arg = Inl NullDeref"
| "local_loop singleip (Some (family, addr) # ifs) ret arg =
    (if family = AF_INET then
       (case singleip (ntop addr) arg of (ret, arg) \<Rightarrow>
          if ret = COMM_STOP_IPGET then Inr (0, arg)
          else if ret \<noteq> COMM_CONTINUE_IPGET then Inr (ret, arg)
          else local_loop singleip ifs ret arg)
     else local_loop singleip ifs ret arg)"

definition com_foreach_local_ipv4 ::
    "(nat \<times> ipv4) option list option \<Rightarrow> (cbytes \<Rightarrow> 'a \<Rightarrow> int \<times> 'a) \<Rightarrow> 'a \<Rightarrow> (int \<times> 'a) res" where
  "com_foreach_local_ipv4 getifaddrs singleip arg =
    (case getifaddrs of None \<Rightarrow> Inr (-1, arg) | Some ifs \<Rightarrow> local_loop singleip ifs 0 arg)"

fun is_local_loop :: "cbytes \<Rightarrow> (nat \<times> ipv4) option list \<Rightarrow> int res" where
  "is_local_loop ipv4addr [] = Inr 0"
| "is_local_loop ipv4addr (None # ifs) = Inl NullDeref"
| "is_local_loop ipv4addr (Some (family, addr) # ifs) =
    (if family = AF_INET \<and> c_strneq (ntop addr) ipv4addr (length (ntop addr)) then Inr 1
     else is_local_loop ipv4addr ifs)"

definition com_is_local_ipv4 :: "(nat \<times> ipv4) option list option \<Rightarrow> cbytes option \<Rightarrow> int res" where
  "com_is_local_ipv4 getifaddrs ipv4addr =
    (case ipv4addr of None \<Rightarrow> Inr 0
     | Some s \<Rightarrow>
         if s = [] then Inr 0
         else case getifaddrs of None \<Rightarrow> Inr 0 | Some ifs \<Rightarrow> is_local_loop s ifs)"

section \<open>Answering pings\<close>

text \<open>The switch is a file; \<open>writable\<close> and \<open>writes\<close>: it can be opened for writing, the write succeeds.\<close>

definition fcp_set_pingv4_state :: "bool \<Rightarrow> bool \<Rightarrow> int \<Rightarrow> cbytes \<Rightarrow> (int \<times> cbytes) res" where
  "fcp_set_pingv4_state writable writes fl file =
    (if \<not> writable then Inr (-1, file)
     else rbind (c_sprintf (replicate 10 0) 0 (dec_of_int fl)) (\<lambda>buff.
       if writes then Inr (0, take 1 buff) else Inr (-1, [])))"

definition fcp_forbid_pingv4 :: "bool \<Rightarrow> bool \<Rightarrow> cbytes \<Rightarrow> (int \<times> cbytes) res" where
  "fcp_forbid_pingv4 writable writes file = fcp_set_pingv4_state writable writes 1 file"

definition fcp_allow_pingv4 :: "bool \<Rightarrow> bool \<Rightarrow> cbytes \<Rightarrow> (int \<times> cbytes) res" where
  "fcp_allow_pingv4 writable writes file = fcp_set_pingv4_state writable writes 0 file"

text \<open>Up to 10 bytes are read into a buffer of 10, so that nothing may end the number.\<close>

definition fcp_is_allow_pingv4 :: "cbytes option \<Rightarrow> int res" where
  "fcp_is_allow_pingv4 file =
    (case file of None \<Rightarrow> Inr (-1)
     | Some content \<Rightarrow>
         if content = [] then Inr (-1)
         else
           let buff = take 10 content @ replicate (10 - length content) 0 in
           rbind (if dropWhile (\<lambda>c. digit_val c < 10) (snd (sign_split (dropWhile isspace buff))) = []
                  then Inl OutOfBounds else Inr (c_atoi (cstr buff)))
             (\<lambda>v. Inr (if v = 0 then 1 else 0)))"

section \<open>The process that holds a socket\<close>

lemma sprintf_fits:
  "length s < length buf \<Longrightarrow> c_sprintf buf 0 s = Inr (s @ 0 # drop (Suc (length s)) buf)"
  by (simp add: c_sprintf_def memcpy_def)

text \<open>The inode a link of a descriptor names.\<close>

definition link_inode :: "cbytes \<Rightarrow> u32 option" where
  "link_inode s =
    (if \<not> c_strstr s (cbytes_of ''socket:'') then None
     else map_option (\<lambda>k. word_of_int (c_atoi (drop (k + 1) s))) (c_strchr s 91))"

definition holds_socket :: "links_fn \<Rightarrow> cbytes \<Rightarrow> u32 \<Rightarrow> dirent list \<Rightarrow> bool" where
  "holds_socket readlink name inode es \<longleftrightarrow>
    (\<exists>(d, t) \<in> set es. case readlink (name @ cbytes_of ''/fd/'' @ d) of
       None \<Rightarrow> False | Some s \<Rightarrow> link_inode s = Some inode)"

lemma holds_socket_Cons:
  "holds_socket readlink name inode ((d, t) # es) \<longleftrightarrow>
    (case readlink (name @ cbytes_of ''/fd/'' @ d) of None \<Rightarrow> False | Some s \<Rightarrow> link_inode s = Some inode) \<or>
    holds_socket readlink name inode es"
  by (simp add: holds_socket_def)

lemma no_nul_paths: "no_nul (cbytes_of ''/fd/'')" "no_nul (cbytes_of ''/fd'')" "no_nul (cbytes_of ''/exe'')"
  by (simp_all add: cbytes_of_def cstr_simps)

lemma fd_scan_holds:
  assumes "no_nul name" "\<forall>(d, t) \<in> set es. no_nul d \<and> length d \<le> 254"
    and "\<forall>path s. readlink path = Some s \<longrightarrow> no_nul s \<and> length s < 256"
    and "length pathbuff = length name + 3 + 256"
  shows "\<exists>b. fd_scan readlink name inode es pathbuff = Inr (holds_socket readlink name inode es, b) \<and>
    length b = length name + 3 + 256"
  using assms(2,4)
proof (induction es arbitrary: pathbuff)
  case Nil
  then show ?case by (simp add: holds_socket_def)
next
  case (Cons e es)
  obtain d t where e: "e = (d, t)" by fastforce
  let ?path = "name @ cbytes_of ''/fd/'' @ d"
  let ?pb = "?path @ 0 # drop (Suc (length ?path)) pathbuff"
  have d: "no_nul d" "length d \<le> 254" using Cons.prems(1) e by auto
  have fits: "length ?path < length pathbuff"
    using d(2) Cons.prems(2) by (simp add: cbytes_of_def)
  then have pr: "c_sprintf pathbuff 0 ?path = Inr ?pb" by (rule sprintf_fits)
  have nn: "no_nul ?path" using assms(1) d(1) no_nul_paths by (simp add: cstr_simps)
  have len: "length ?pb = length name + 3 + 256"
    using fits Cons.prems(2) by simp
  obtain b where IH: "fd_scan readlink name inode es ?pb = Inr (holds_socket readlink name inode es, b)"
      "length b = length name + 3 + 256"
    using Cons.IH [OF _ len] Cons.prems(1) by auto
  show ?case
  proof (cases "readlink ?path")
    case None
    then show ?thesis
      using IH pr text_of_at [OF nn] by (simp add: e c_readlink_def holds_socket_Cons)
  next
    case (Some s)
    have s: "no_nul s" "length s < 256" using assms(3) Some by auto
    then obtain k where k: "256 - length s = Suc k" by (metis Suc_diff_Suc zero_less_diff)
    have "c_readlink readlink ?path (replicate 256 0) 256 = Inr (Some (s @ 0 # replicate k 0))"
      using s(2) k by (simp add: c_readlink_def Some memcpy_def min_def)
    then show ?thesis
      using IH len pr text_of_at [OF nn] text_of_at [OF s(1), of "replicate k 0"]
      by (auto simp: e holds_socket_Cons Some link_inode_def split: option.splits)
  qed
qed

definition owns_socket :: "dir_contents \<Rightarrow> links_fn \<Rightarrow> u32 \<Rightarrow> cbytes \<Rightarrow> bool" where
  "owns_socket fs readlink inode name =
    (case fs (name @ cbytes_of ''/fd'') of None \<Rightarrow> False | Some es \<Rightarrow> holds_socket readlink name inode es)"

definition with_owner :: "links_fn \<Rightarrow> cbytes \<Rightarrow> int \<Rightarrow> NetProcInfo \<Rightarrow> NetProcInfo" where
  "with_owner readlink name pid pinfo =
    pinfo\<lparr>np_pid := pid, procpath := (case readlink (name @ cbytes_of ''/exe'') of None \<Rightarrow> procpath pinfo
      | Some target \<Rightarrow> target @ drop (length target) (procpath pinfo))\<rparr>"

definition links_ok :: "links_fn \<Rightarrow> bool" where
  "links_ok readlink \<longleftrightarrow> (\<forall>path s. readlink path = Some s \<longrightarrow> no_nul s \<and> length s < 256)"

lemma dec_name_ok:
  shows "no_nul (dec_of_nat n)" and "slash \<notin> set (dec_of_nat n)"
proof -
  have digits: "\<forall>c \<in> set (dec_of_nat n). digit_val c < 10" by (rule dec_digits)
  have d0: "\<not> digit_val 0 < 10" "\<not> digit_val 47 < 10" by (code_simp; simp)+
  show "no_nul (dec_of_nat n)" "slash \<notin> set (dec_of_nat n)"
    using digits d0 by (auto simp: no_nul_def)
qed

lemma readlink_over:
  assumes "\<forall>path s. readlink path = Some s \<longrightarrow> no_nul s \<and> length s < 256"
    and "readlink path = Some target" "length buf = MAX_PATH_LEN"
  shows "c_readlink readlink path buf MAX_PATH_LEN = Inr (Some (target @ drop (length target) buf))"
proof -
  have "length target < 256" using assms(1,2) by auto
  then show ?thesis using assms(2,3) by (simp add: c_readlink_def memcpy_def MAX_PATH_LEN_def min_def)
qed

lemma deal_proc_pid_info_run:
  assumes "name = dir @ slash # d" "no_nul dir" "no_nul d" "slash \<notin> set d" "links_ok readlink"
    and "\<forall>es. fs (name @ cbytes_of ''/fd'') = Some es \<longrightarrow> (\<forall>(d, t) \<in> set es. no_nul d \<and> length d \<le> 254)"
    and "length (procpath pinfo) = MAX_PATH_LEN"
  shows "deal_proc_pid_info nomem fs readlink name pinfo =
    Inr (if \<not> nomem \<and> owns_socket fs readlink (np_inode pinfo) name
         then (-1, with_owner readlink name (c_atoi d) pinfo) else (0, pinfo))"
proof -
  let ?b0 = "replicate (length name + 3 + 256) (0 :: byte)" and ?p = "name @ cbytes_of ''/fd''"
  have nn: "no_nul name" using assms(1-3) by (simp add: cstr_simps)
  have k: "c_strrchr name slash = Some (length dir)"
    unfolding assms(1) by (rule c_strrchr_at [OF assms(4)])
  have pid: "c_atoi (drop (length dir + 1) name) = c_atoi d" unfolding assms(1) by simp
  have p: "c_sprintf ?b0 0 ?p = Inr (?p @ 0 # drop (Suc (length ?p)) ?b0)"
    by (rule sprintf_fits) (simp add: cbytes_of_def)
  have tp: "text_of (?p @ 0 # drop (Suc (length ?p)) ?b0) = Inr ?p"
    by (rule text_of_at) (use nn no_nul_paths in \<open>simp add: cstr_simps\<close>)
  show ?thesis
  proof (cases "nomem \<or> fs ?p = None")
    case True
    then show ?thesis
      unfolding deal_proc_pid_info_def p tp rbind_simps by (auto simp: owns_socket_def)
  next
    case False
    then obtain es where es: "\<not> nomem" "fs ?p = Some es" by blast
    have len: "length (?p @ 0 # drop (Suc (length ?p)) ?b0) = length name + 3 + 256"
      by (simp add: cbytes_of_def)
    obtain b where b: "fd_scan readlink name (np_inode pinfo) es (?p @ 0 # drop (Suc (length ?p)) ?b0) =
        Inr (holds_socket readlink name (np_inode pinfo) es, b)" "length b = length name + 3 + 256"
      using fd_scan_holds [OF nn _ assms(5) [unfolded links_ok_def] len] assms(6) es(2) by blast
    let ?x = "name @ cbytes_of ''/exe''"
    have x: "c_sprintf b 0 ?x = Inr (?x @ 0 # drop (Suc (length ?x)) b)"
      by (rule sprintf_fits) (simp add: b(2) cbytes_of_def)
    have tx: "text_of (?x @ 0 # drop (Suc (length ?x)) b) = Inr ?x"
      by (rule text_of_at) (use nn no_nul_paths in \<open>simp add: cstr_simps\<close>)
    have rl: "c_readlink readlink ?x (procpath pinfo) MAX_PATH_LEN =
        Inr (map_option (\<lambda>target. target @ drop (length target) (procpath pinfo)) (readlink ?x))"
      using readlink_over [OF assms(5) [unfolded links_ok_def] _ assms(7), of ?x]
      by (cases "readlink ?x") (simp_all add: c_readlink_def)
    have pp: "procpath (pinfo\<lparr>np_pid := i\<rparr>) = procpath pinfo" for i by simp
    show ?thesis
    proof (cases "holds_socket readlink name (np_inode pinfo) es")
      case False
      then show ?thesis
        by (simp only: deal_proc_pid_info_def es if_False p tp rbind_simps option.case b(1) prod.case owns_socket_def) simp
    next
      case True
      then have "owns_socket fs readlink (np_inode pinfo) name" using es by (simp add: owns_socket_def)
      then show ?thesis
        by (simp only: deal_proc_pid_info_def es if_False p tp rbind_simps option.case b(1) prod.case k pid
              Let_def x tx pp rl True not_True_eq_False not_False_eq_True simp_thms if_True)
          (simp add: with_owner_def split: option.split)
    qed
  qed
qed

text \<open>\<open>deal_proc_pid_info\<close> recognises the process that has the socket with the wanted inode among
  its descriptors, and only that: it then asks to stop, with the process number from the path and
  the link of its executable; but the link is copied without a terminator over the path of the
  process found before, whose tail remains when it was longer.\<close>

lemma deal_proc_pid_info_finds:
  assumes "no_nul dir" "n < 2 ^ 31" "name = dir @ slash # dec_of_nat n"
    and "fs (name @ cbytes_of ''/fd'') = Some es" "\<forall>(d, t) \<in> set es. no_nul d \<and> length d \<le> 254"
    and "\<forall>path s. readlink path = Some s \<longrightarrow> no_nul s \<and> length s < 256"
    and "readlink (name @ cbytes_of ''/exe'') = Some target" "length (procpath pinfo) = MAX_PATH_LEN"
  shows "deal_proc_pid_info False fs readlink name pinfo =
    Inr (if holds_socket readlink name (np_inode pinfo) es
         then (-1, pinfo\<lparr>np_pid := int n, procpath := target @ drop (length target) (procpath pinfo)\<rparr>)
         else (0, pinfo))"
proof -
  have "deal_proc_pid_info False fs readlink name pinfo =
    Inr (if \<not> False \<and> owns_socket fs readlink (np_inode pinfo) name
         then (-1, with_owner readlink name (c_atoi (dec_of_nat n)) pinfo) else (0, pinfo))"
    by (rule deal_proc_pid_info_run [OF assms(3,1) dec_name_ok _ _ assms(8)])
      (use assms(4-6) in \<open>auto simp: links_ok_def\<close>)
  then show ?thesis
    using assms(4,7) atoi_dec(1) [OF assms(2)] by (simp add: owns_socket_def with_owner_def)
qed

lemma deal_proc_pid_info_finds_witness:
  "let links = [cbytes_of ''/proc/7/fd/3'' \<mapsto> cbytes_of ''socket:[5]'', cbytes_of ''/proc/7/exe'' \<mapsto> cbytes_of ''/sh'']
   in deal_proc_pid_info False (\<lambda>_. Some [(cbytes_of ''3'', 10)]) links (cbytes_of ''/proc/7'')
      (zero_netproc\<lparr>np_inode := 5, procpath := cbytes_of ''/bash'' @ replicate 1019 0\<rparr>)
    = Inr (-1, zero_netproc\<lparr>np_inode := 5, np_pid := 7, procpath := cbytes_of ''/shsh'' @ replicate 1019 0\<rparr>)"
proof -
  let ?links = "[cbytes_of ''/proc/7/fd/3'' \<mapsto> cbytes_of ''socket:[5]'', cbytes_of ''/proc/7/exe'' \<mapsto> cbytes_of ''/sh'']"
  let ?info = "zero_netproc\<lparr>np_inode := 5, procpath := cbytes_of ''/bash'' @ replicate 1019 0\<rparr>"
  have name: "cbytes_of ''/proc/7'' = cbytes_of ''/proc'' @ slash # dec_of_nat 7"
    by (simp add: cbytes_of_def dec_of_nat.simps)
  have holds: "holds_socket ?links (cbytes_of ''/proc/7'') 5 [(cbytes_of ''3'', 10)]"
    by code_simp
  have "deal_proc_pid_info False (\<lambda>_. Some [(cbytes_of ''3'', 10)]) ?links (cbytes_of ''/proc/7'') ?info =
    Inr (if holds_socket ?links (cbytes_of ''/proc/7'') (np_inode ?info) [(cbytes_of ''3'', 10)]
         then (-1, ?info\<lparr>np_pid := int 7, procpath := cbytes_of ''/sh'' @ drop (length (cbytes_of ''/sh'')) (procpath ?info)\<rparr>)
         else (0, ?info))"
    by (rule deal_proc_pid_info_finds [OF _ _ name])
      (auto simp: cbytes_of_def cstr_simps MAX_PATH_LEN_def zero_netproc_def)
  then show ?thesis
    using holds by (simp add: Let_def cbytes_of_def)
qed

section \<open>The owner of a socket\<close>

definition proc_entry :: "cbytes \<Rightarrow> cbytes" where
  "proc_entry d = cbytes_of ''/proc'' @ slash # d"

text \<open>The first process of a list of names in \<open>/proc\<close> that holds the socket.\<close>

definition owner_of :: "(cbytes \<Rightarrow> bool) \<Rightarrow> dir_contents \<Rightarrow> links_fn \<Rightarrow> u32 \<Rightarrow> cbytes list \<Rightarrow> cbytes option" where
  "owner_of nomem fs readlink inode ds =
    List.find (\<lambda>d. c_atoi d \<noteq> 0 \<and> \<not> nomem (proc_entry d) \<and> owns_socket fs readlink inode (proc_entry d)) ds"

lemma join_proc: "join_path (cbytes_of ''/proc'') d = proc_entry d"
  by (simp add: join_path_def proc_entry_def cbytes_of_def)

lemma visit_owner:
  assumes "\<And>d. d \<in> set ds \<Longrightarrow> deal_proc_pid_info (nomem (proc_entry d)) fs readlink (proc_entry d) pinfo =
    Inr (if \<not> nomem (proc_entry d) \<and> owns_socket fs readlink (np_inode pinfo) (proc_entry d)
         then (-1, with_owner readlink (proc_entry d) (c_atoi d) pinfo) else (0, pinfo))"
  shows "visit (visit_pid (\<lambda>name p. case p of Inl e \<Rightarrow> (1, Inl e)
       | Inr p \<Rightarrow> (case deal_proc_pid_info (nomem name) fs readlink name p of
           Inl e \<Rightarrow> (1, Inl e) | Inr (ret, p) \<Rightarrow> (ret, Inr p)))) ds (Inr pinfo) =
     Inr (case owner_of nomem fs readlink (np_inode pinfo) ds of None \<Rightarrow> pinfo
          | Some d \<Rightarrow> with_owner readlink (proc_entry d) (c_atoi d) pinfo)"
  using assms
proof (induction ds)
  case (Cons d ds)
  then show ?case
    by (simp add: visit_pid_def join_proc owner_of_def)
qed (simp add: owner_of_def)

lemma proc_info_owner:
  assumes "fs (cbytes_of ''/proc'') = Some es" "\<forall>e \<in> set es. no_nul (fst e) \<and> slash \<notin> set (fst e)"
    and "\<forall>path es. fs path = Some es \<longrightarrow> (\<forall>(d, t) \<in> set es. no_nul d \<and> length d \<le> 254)"
    and "links_ok readlink" "length (procpath pinfo) = MAX_PATH_LEN" "mem_ok m" "length es < fuel"
  shows "\<exists>m' n. parse_proc_info_by_inode fuel oom nomem fs readlink pinfo m =
      Inr (Some (0, case owner_of nomem fs readlink (np_inode pinfo) (take n (names_of DT_DIR es)) of
          None \<Rightarrow> pinfo
        | Some d \<Rightarrow> with_owner readlink (proc_entry d) (c_atoi d) pinfo, m')) \<and>
    cells m' = cells m \<and> mem_ok m' \<and> ((\<forall>k. \<not> oom k) \<longrightarrow> n = length (names_of DT_DIR es))"
proof -
  let ?cb = "\<lambda>name p. case p of Inl e \<Rightarrow> (1, Inl e)
       | Inr p \<Rightarrow> (case deal_proc_pid_info (nomem name) fs readlink name p of
           Inl e \<Rightarrow> (1, Inl e) | Inr (ret, p) \<Rightarrow> (ret, Inr p))"
  obtain m' n where w: "general_find_proc_pid fuel oom fs ?cb (Inr pinfo) m =
      Inr (Some (0, visit (visit_pid ?cb) (take n (names_of DT_DIR es)) (Inr pinfo), m'))"
      "cells m' = cells m" "mem_ok m'" "(\<forall>k. \<not> oom k) \<longrightarrow> n = length (names_of DT_DIR es)"
    using find_proc [where fs = fs and es = es and oom = oom and callback = ?cb and a = "Inr pinfo" and m = m and fuel = fuel,
      OF assms(1,2,6,7)] by blast
  have v: "visit (visit_pid ?cb) (take n (names_of DT_DIR es)) (Inr pinfo) =
     Inr (case owner_of nomem fs readlink (np_inode pinfo) (take n (names_of DT_DIR es)) of None \<Rightarrow> pinfo
          | Some d \<Rightarrow> with_owner readlink (proc_entry d) (c_atoi d) pinfo)"
  proof (rule visit_owner, rule deal_proc_pid_info_run [OF proc_entry_def])
    fix d assume "d \<in> set (take n (names_of DT_DIR es))"
    then have "d \<in> fst ` set es" using names_of_set in_set_takeD by fastforce
    then show "no_nul d" "slash \<notin> set d" using assms(2) by auto
  qed (use assms(3-5) in \<open>auto simp: cbytes_of_def cstr_simps\<close>)
  show ?thesis
    using w(2-4) by (intro exI [of _ m'] exI [of _ n]) (simp add: parse_proc_info_by_inode_def w(1) v)
qed

text \<open>For a line of the socket table, \<open>parse_proc_info_by_inode\<close> fills in the first process of
  \<open>/proc\<close>, in directory order, that has a descriptor open on the socket, with its number and
  executable, or changes nothing; it returns 0 in either case and releases the walk's memory.
  Processes whose descriptors cannot be listed or for which no path buffer can be allocated
  (\<open>nomem\<close>) are passed over.\<close>

theorem parse_proc_info_by_inode_owner:
  assumes "fs (cbytes_of ''/proc'') = Some es" "\<forall>e \<in> set es. no_nul (fst e) \<and> slash \<notin> set (fst e)"
    and "\<forall>path es. fs path = Some es \<longrightarrow> (\<forall>(d, t) \<in> set es. no_nul d \<and> length d \<le> 254)"
    and "links_ok readlink" "length (procpath pinfo) = MAX_PATH_LEN" "mem_ok m" "length es < fuel"
  shows "\<exists>m' n. parse_proc_info_by_inode fuel oom nomem fs readlink pinfo m =
      Inr (Some (0, case owner_of nomem fs readlink (np_inode pinfo) (take n (names_of DT_DIR es)) of
          None \<Rightarrow> pinfo
        | Some d \<Rightarrow> with_owner readlink (proc_entry d) (c_atoi d) pinfo, m')) \<and>
    cells m' = cells m \<and> mem_ok m' \<and> ((\<forall>k. \<not> oom k) \<longrightarrow> n = length (names_of DT_DIR es))"
  using assms by (rule proc_info_owner)

definition sample_dirs :: dir_contents where
  "sample_dirs = [cbytes_of ''/proc'' \<mapsto> [(cbytes_of ''sys'', 4), (cbytes_of ''1'', 4), (cbytes_of ''7'', 4)],
     cbytes_of ''/proc/7/fd'' \<mapsto> [(cbytes_of ''3'', 10)]]"

definition sample_links :: links_fn where
  "sample_links = [cbytes_of ''/proc/7/fd/3'' \<mapsto> cbytes_of ''socket:[5]'', cbytes_of ''/proc/7/exe'' \<mapsto> cbytes_of ''/sh'']"

lemma sample_owner:
  "owner_of (\<lambda>_. False) sample_dirs sample_links 5
     (names_of DT_DIR [(cbytes_of ''sys'', 4), (cbytes_of ''1'', 4), (cbytes_of ''7'', 4)]) = Some (cbytes_of ''7'')"
  by code_simp

theorem parse_proc_info_by_inode_owner_witness:
  "\<exists>m'. parse_proc_info_by_inode 9 (\<lambda>_. False) (\<lambda>_. False) sample_dirs sample_links (zero_netproc\<lparr>np_inode := 5\<rparr>)
      \<lparr>cells = \<lambda>_. None, allocs = 0\<rparr> =
     Inr (Some (0, zero_netproc\<lparr>np_inode := 5, np_pid := 7, procpath := cbytes_of ''/sh'' @ replicate 1021 0\<rparr>, m')) \<and>
     cells m' = (\<lambda>_. None)"
proof -
  let ?es = "[(cbytes_of ''sys'', 4), (cbytes_of ''1'', 4), (cbytes_of ''7'', 4)]"
  let ?m = "\<lparr>cells = \<lambda>_. None, allocs = 0\<rparr> :: dir_cell mem"
  let ?info = "zero_netproc\<lparr>np_inode := 5\<rparr>"
  have "\<exists>m' n. parse_proc_info_by_inode 9 (\<lambda>_. False) (\<lambda>_. False) sample_dirs sample_links ?info ?m =
      Inr (Some (0, case owner_of (\<lambda>_. False) sample_dirs sample_links (np_inode ?info) (take n (names_of DT_DIR ?es)) of
          None \<Rightarrow> ?info
        | Some d \<Rightarrow> with_owner sample_links (proc_entry d) (c_atoi d) ?info, m')) \<and>
    cells m' = cells ?m \<and> mem_ok m' \<and> ((\<forall>k :: nat. \<not> False) \<longrightarrow> n = length (names_of DT_DIR ?es))"
    by (rule parse_proc_info_by_inode_owner)
      (auto simp: sample_dirs_def sample_links_def links_ok_def cbytes_of_def cstr_simps mem_ok_def
        zero_netproc_def MAX_PATH_LEN_def split: if_splits)
  moreover have "with_owner sample_links (proc_entry (cbytes_of ''7'')) (c_atoi (cbytes_of ''7'')) ?info =
      zero_netproc\<lparr>np_inode := 5, np_pid := 7, procpath := cbytes_of ''/sh'' @ replicate 1021 0\<rparr>"
  proof -
    have "c_atoi (cbytes_of ''7'') = 7" "sample_links (proc_entry (cbytes_of ''7'') @ cbytes_of ''/exe'') = Some (cbytes_of ''/sh'')"
      by code_simp+
    then show ?thesis
      by (simp add: with_owner_def zero_netproc_def MAX_PATH_LEN_def cbytes_of_def)
  qed
  ultimately show ?thesis
    using sample_owner by auto
qed

section \<open>Addresses and ports in hexadecimal\<close>

definition hex_digit :: "nat \<Rightarrow> byte" where
  "hex_digit d = (if d < 10 then 48 + word_of_nat d else 55 + word_of_nat d)"

text \<open>\<open>%0kX\<close>.\<close>

fun hex_of :: "nat \<Rightarrow> nat \<Rightarrow> cbytes" where
  "hex_of 0 n = []"
| "hex_of (Suc k) n = hex_of k (n div 16) @ [hex_digit (n mod 16)]"

lemma length_hexdigits_of [simp]: "length (hex_of k n) = k"
  by (induction k arbitrary: n) auto

lemma hex_digit_all: "list_all (\<lambda>d. digit_val (hex_digit d) = d \<and> hex_digit d \<noteq> 0 \<and> hex_digit d \<noteq> 58 \<and>
    hex_digit d \<noteq> 120 \<and> hex_digit d \<noteq> 88 \<and> \<not> isspace (hex_digit d) \<and> hex_digit d \<noteq> 45 \<and> hex_digit d \<noteq> 43) [0..<16]"
  by code_simp

lemma hex_digit_facts:
  assumes "d < 16"
  shows "digit_val (hex_digit d) = d" "hex_digit d \<noteq> 0" "hex_digit d \<noteq> 58" "hex_digit d \<noteq> 120"
    "hex_digit d \<noteq> 88" "\<not> isspace (hex_digit d)" "hex_digit d \<noteq> 45" "hex_digit d \<noteq> 43"
  using hex_digit_all assms unfolding list_all_iff by auto

lemma hex_of_all: "(\<And>d. d < 16 \<Longrightarrow> P (hex_digit d)) \<Longrightarrow> c \<in> set (hex_of k n) \<Longrightarrow> P c"
  by (induction k arbitrary: n) auto

lemma foldl_hex: "foldl (\<lambda>v c. v * 16 + digit_val c) 0 (hex_of k n) = n mod 16 ^ k"
proof (induction k arbitrary: n)
  case (Suc k)
  have "n div 16 mod 16 ^ k * 16 + n mod 16 = n mod (16 * 16 ^ k)"
    by (simp add: mod_mult2_eq algebra_simps)
  then show ?case using Suc [of "n div 16"] hex_digit_facts(1) [of "n mod 16"] by simp
qed simp

lemma num_parts_hex:
  assumes "0 < k"
  shows "num_parts 16 (hex_of k n) = (False, n mod 16 ^ k)"
proof -
  obtain c s where cs: "hex_of k n = c # s"
    using assms length_hexdigits_of [of k n] by (cases "hex_of k n") auto
  have dig: "digit_val x < 16" "\<not> isspace x" "x \<noteq> 45" "x \<noteq> 43" "x \<noteq> 120" "x \<noteq> 88"
    if "x \<in> set (hex_of k n)" for x
    by (rule hex_of_all [OF _ that]; simp add: hex_digit_facts)+
  have c: "\<not> isspace c" "c \<noteq> 45" "c \<noteq> 43"
    using dig [of c] cs by auto
  have strip: "strip_0x 16 (c # s) = c # s"
  proof (cases s)
    case (Cons x t)
    then have "x \<noteq> 120" "x \<noteq> 88"
      using dig [of x] cs by auto
    then show ?thesis using Cons by (cases t) auto
  qed simp
  have tw: "takeWhile (\<lambda>c. digit_val c < 16) (hex_of k n) = hex_of k n"
    using dig(1) by (simp add: takeWhile_eq_all_conv)
  have "digits_val 16 (hex_of k n) = n mod 16 ^ k"
    unfolding digits_val_def tw by (rule foldl_hex)
  then show ?thesis
    using c strip cs by (simp add: num_parts_def)
qed

lemma strtoul_hex:
  assumes "n < 16 ^ k" "0 < k" "k \<le> 16"
  shows "c_strtoul 16 (hex_of k n) = word_of_nat n"
proof -
  have "(16 :: nat) ^ k \<le> 16 ^ 16" by (rule power_increasing) (use assms in auto)
  then have "n < 2 ^ 64" using assms(1) by simp
  then show ?thesis
    using num_parts_hex [OF assms(2), of n] assms(1) by (simp add: c_strtoul_def)
qed

lemma hex_of_chars: "no_nul (hex_of k n)" "58 \<notin> set (hex_of k n)"
  using hex_of_all [of "\<lambda>c. c \<noteq> 0 \<and> c \<noteq> 58"] hex_digit_facts(2,3) by (auto simp: no_nul_def)

text \<open>The four bytes of an address as the kernel prints it, the first in the low byte.\<close>

definition addr_bytes :: "nat \<Rightarrow> ipv4" where
  "addr_bytes a = (word_of_nat a, word_of_nat (a div 2 ^ 8), word_of_nat (a div 2 ^ 16), word_of_nat (a div 2 ^ 24))"

lemma low_bytes_of_nat: "low_bytes (word_of_nat a) = addr_bytes a"
proof -
  have "ucast (drop_bit n (word_of_nat a :: u64)) = (word_of_nat (a div 2 ^ n) :: byte)" if "n \<le> 24" for n
    using that by (intro bit_word_eqI) (auto simp: bit_simps drop_bit_eq_div [symmetric])
  from this [of 0] this [of 8] this [of 16] this [of 24] show ?thesis
    by (simp add: low_bytes_def addr_bytes_def)
qed

lemma dec_byte_all: "list_all (\<lambda>n. length (dec_of_nat n) \<le> 3) [0..<256]"
  by code_simp

lemma dec_byte: "length (dec_of_nat (unat (b :: byte))) \<le> 3"
proof -
  have "unat b < 2 ^ LENGTH(8)" by (rule unsigned_less)
  then show ?thesis using dec_byte_all unfolding list_all_iff by simp
qed

lemma dec_no_nul: "no_nul (dec_of_nat n)"
proof -
  have "\<not> digit_val 0 < 10" by (code_simp; simp)
  then show ?thesis using dec_digits [of n] by (auto simp: no_nul_def)
qed

lemma ntop_facts: "length (ntop x) < 16" "no_nul (ntop x)"
proof -
  obtain a b c d where x: "x = (a, b, c, d)" by (cases x)
  show "length (ntop x) < 16"
    using dec_byte [of a] dec_byte [of b] dec_byte [of c] dec_byte [of d] by (simp add: x)
  show "no_nul (ntop x)"
    by (simp add: x cstr_simps dec_no_nul)
qed

text \<open>Reading back an endpoint as the kernel prints it, \<open>%08X:%04X\<close>: the dotted address of the
  four bytes in memory order and the port, for every address and every port; the field is cut at
  the colon and nothing else changes.\<close>

lemma parse_endpoint_decodes:
  assumes "a < 2 ^ 32" "p < 2 ^ 16" "length addr = MAX_IPV4_STRLEN"
  shows "\<exists>addr'. parse_endpoint (pre @ hex_of 8 a @ 58 # hex_of 4 p @ 0 # s) (length pre) addr port =
      Inr (pre @ hex_of 8 a @ 0 # hex_of 4 p @ 0 # s, addr', word_of_nat p) \<and>
    cstr addr' = ntop (addr_bytes a) \<and> length addr' = MAX_IPV4_STRLEN"
proof -
  let ?h = "hex_of 8 a" and ?q = "hex_of 4 p"
  let ?bs = "pre @ ?h @ 58 # ?q @ 0 # s" and ?bs' = "pre @ ?h @ 0 # ?q @ 0 # s"
  have nn: "no_nul (?h @ 58 # ?q)"
    using hex_of_chars(1) by (simp add: cstr_simps)
  have str1: "str_at ?bs (length pre) = Inr (?h @ 58 # ?q)"
    using text_of_at [OF nn, of s] by (simp add: str_at_def)
  have chr: "c_strchr (?h @ 58 # ?q) 58 = Some 8"
    using c_strchr_at [OF hex_of_chars(2), of 8 a ?q] by simp
  have w: "wr ?bs (length pre + 8) 0 = Inr ?bs'"
    by (simp add: wr_def list_update_append)
  have sc: "split_colon ?bs (length pre) = Inr (?bs', Some (length pre + 8 + 1))"
    by (simp only: split_colon_def str1 rbind_simps chr option.case w)
  have str2: "str_at ?bs' (length pre + 8 + 1) = Inr ?q"
    using text_of_at [OF hex_of_chars(1), of 4 p s] by (simp add: str_at_def)
  have str3: "str_at ?bs' (length pre) = Inr ?h"
    using text_of_at [OF hex_of_chars(1), of 8 a "?q @ 0 # s"] by (simp add: str_at_def)
  have v1: "c_strtoul 16 ?h = word_of_nat a" and v2: "c_strtoul 16 ?q = word_of_nat p"
    by (rule strtoul_hex; use assms in simp)+
  have port: "ucast (word_of_nat p :: u64) = (word_of_nat p :: u32)"
    by (rule bit_word_eqI) (auto simp: bit_simps)
  let ?n = "ntop (addr_bytes a)"
  have ad: "c_sprintf addr 0 ?n = Inr (?n @ 0 # drop (Suc (length ?n)) addr)"
    by (rule sprintf_fits) (use ntop_facts(1) [of "addr_bytes a"] assms(3) in \<open>simp add: MAX_IPV4_STRLEN_def\<close>)
  have "parse_endpoint ?bs (length pre) addr port =
      Inr (?bs', ?n @ 0 # drop (Suc (length ?n)) addr, word_of_nat p)"
    by (simp only: parse_endpoint_def sc rbind_simps prod.case option.case str2 str3 v1 v2 port low_bytes_of_nat ad)
  moreover have "cstr (?n @ 0 # drop (Suc (length ?n)) addr) = ?n"
    by (rule cstr_append_nul) (rule ntop_facts)
  moreover have "length (?n @ 0 # drop (Suc (length ?n)) addr) = MAX_IPV4_STRLEN"
    using ntop_facts(1) [of "addr_bytes a"] assms(3) by (simp add: MAX_IPV4_STRLEN_def)
  ultimately show ?thesis by blast
qed

lemma hex_of_numeral:
  "hex_of (numeral k) n = hex_of (pred_numeral k) (n div 16) @ [hex_digit (n mod 16)]"
  unfolding numeral_eq_Suc [of k] by (rule hex_of.simps(2))

lemma parse_endpoint_decodes_witness:
  "\<exists>addr'. parse_endpoint (cbytes_of ''0100007F:0277'' @ [0]) 0 (replicate 16 0) 0 =
      Inr (cbytes_of ''0100007F'' @ 0 # cbytes_of ''0277'' @ [0], addr', 631) \<and>
    cstr addr' = cbytes_of ''127.0.0.1''"
proof -
  have "hex_of 8 16777343 = cbytes_of ''0100007F''" "hex_of 4 631 = cbytes_of ''0277''"
    "ntop (addr_bytes 16777343) = cbytes_of ''127.0.0.1''"
    by (simp_all add: hex_of_numeral hex_digit_def cbytes_of_def addr_bytes_def ntop.simps dec_of_nat.simps)
  note h = this
  have e: "[] @ cbytes_of ''0100007F'' @ 58 # cbytes_of ''0277'' @ 0 # [] = cbytes_of ''0100007F:0277'' @ [0]"
    by (simp add: cbytes_of_def)
  have "\<exists>addr'. parse_endpoint ([] @ hex_of 8 16777343 @ 58 # hex_of 4 631 @ 0 # []) (length ([] :: cbytes)) (replicate 16 0) 0 =
      Inr ([] @ hex_of 8 16777343 @ 0 # hex_of 4 631 @ 0 # [], addr', word_of_nat 631) \<and>
    cstr addr' = ntop (addr_bytes 16777343) \<and> length addr' = MAX_IPV4_STRLEN"
    by (rule parse_endpoint_decodes) (simp_all add: MAX_IPV4_STRLEN_def)
  from this [unfolded h e] show ?thesis by auto
qed

section \<open>Local addresses\<close>

declare ntop.simps [simp del]

lemma strneq_prefix: "c_strneq x s (length x) \<longleftrightarrow> (\<exists>r. s = x @ r)"
  unfolding c_strneq_def by (metis append_eq_conv_conj append_take_drop_id order_refl take_all)

lemma is_local_loop_prefix:
  assumes "None \<notin> set ifs"
  shows "is_local_loop s ifs = Inr (if \<exists>a r. Some (AF_INET, a) \<in> set ifs \<and> s = ntop a @ r then 1 else 0)"
  using assms
proof (induction ifs)
  case (Cons i ifs)
  then obtain family addr where i: "i = Some (family, addr)" by (cases i) auto
  have IH: "is_local_loop s ifs = Inr (if \<exists>a r. Some (AF_INET, a) \<in> set ifs \<and> s = ntop a @ r then 1 else 0)"
    using Cons by simp
  show ?case
    by (cases "family = AF_INET \<and> (\<exists>r. s = ntop addr @ r)")
      (simp_all add: i strneq_prefix IH del: split_paired_Ex split_paired_All, blast+)
qed simp

text \<open>\<open>com_is_local_ipv4\<close> compares only as many characters as a local address has: it answers 1
  exactly when some local IPv4 address is a beginning of the text, so that \<open>1.2.3.45\<close> passes for
  local where \<open>1.2.3.4\<close> is.\<close>

lemma com_is_local_ipv4_prefix:
  assumes "None \<notin> set ifs" "s \<noteq> []"
  shows "com_is_local_ipv4 (Some ifs) (Some s) =
    Inr (if \<exists>a r. Some (AF_INET, a) \<in> set ifs \<and> s = ntop a @ r then 1 else 0)"
  using is_local_loop_prefix [OF assms(1)] assms(2) by (simp add: com_is_local_ipv4_def)

lemma com_is_local_ipv4_prefix_witness:
  "com_is_local_ipv4 (Some [Some (2, 1, 2, 3, 4)]) (Some (cbytes_of ''1.2.3.45'')) = Inr 1"
proof -
  have "cbytes_of ''1.2.3.45'' = ntop (1, 2, 3, 4) @ cbytes_of ''5''" by code_simp
  then have "\<exists>a r. Some (AF_INET, a) \<in> set [Some (2, 1, 2, 3, 4)] \<and> cbytes_of ''1.2.3.45'' = ntop a @ r"
    by (auto simp: AF_INET_def)
  then show ?thesis
    using com_is_local_ipv4_prefix [of "[Some (2, 1, 2, 3, 4)]" "cbytes_of ''1.2.3.45''"]
    by (simp add: cbytes_of_def)
qed

section \<open>The return value\<close>

text \<open>Whenever \<open>com_foreach_net_info\<close> has opened its file and read a first line, the walk over the
  sockets ends, if it ends, without a return value, and on an empty file the stream is left open.\<close>

lemma com_foreach_net_info_result:
  assumes "nettype \<le> NETTYPE_UDP"
    and "env_files env (if nettype = NETTYPE_TCP then cbytes_of ''/proc/net/tcp'' else cbytes_of ''/proc/net/udp'') = Some content"
    and "com_foreach_net_info env callback nettype a m = Inr (Some (ret, a', streams, m'))"
  shows "(content = [] \<longrightarrow> ret = Some (-1) \<and> streams = 1) \<and> (content \<noteq> [] \<longrightarrow> ret = None \<and> streams = 0)"
proof (cases "content = []")
  case True
  have ok: "\<not> NETTYPE_UDP < nettype" using assms(1) by simp
  have "c_fgets 1024 [] = None" by (simp add: c_fgets_def)
  then show ?thesis
    using True ok assms(2,3) by (simp add: com_foreach_net_info_def)
next
  case False
  then obtain l r where fg: "c_fgets 1024 content = Some (l, r)"
    by (simp add: c_fgets_def Let_def)
  have "obind (net_loop env callback r (replicate NET_FIELD_MAX None) zero_netproc m a)
      (\<lambda>(a, m). Inr (Some (None :: int option, a, 0 :: nat, m))) = Inr (Some (ret, a', streams, m'))"
  proof -
    have ok: "\<not> NETTYPE_UDP < nettype" using assms(1) by simp
    then show ?thesis using assms(2,3) fg by (simp add: com_foreach_net_info_def)
  qed
  then show ?thesis
    using False by (auto simp: obind_def rbind_def split: sum.splits option.splits)
qed

lemma com_foreach_net_info_result_witness:
  "\<exists>env ret streams m'. com_foreach_net_info env (\<lambda>_ a. (0, a)) 0 () \<lparr>cells = Map.empty, allocs = 0\<rparr>
      = Inr (Some (ret, (), streams, m')) \<and> ret = None \<and> streams = 0"
proof -
  let ?env = "\<lparr>env_fuel = 1, env_oom = \<lambda>_. False, env_nomem = \<lambda>_. False, env_dirs = \<lambda>_. None,
      env_links = \<lambda>_. None, env_files = \<lambda>_. Some [32, 10]\<rparr>"
  let ?m = "\<lparr>cells = Map.empty, allocs = 0\<rparr>"
  have run: "com_foreach_net_info ?env (\<lambda>_ a. (0, a)) 0 () ?m = Inr (Some (None, (), 0, ?m))"
    by (simp add: com_foreach_net_info_def NETTYPE_UDP_def NETTYPE_TCP_def c_fgets_def net_loop.simps)
  from com_foreach_net_info_result [OF _ _ run] run show ?thesis
    by (auto simp: NETTYPE_UDP_def)
qed

end
