(* ===== verification/Fcp_Net_Table.thy ===== *)
theory Fcp_Net_Table
  imports Fcp_Net
begin

text \<open>
  \<open>com_foreach_net_info\<close> on the tables of the kernel.  A socket is a record of its numbers, a line of
  the table its print in the format of \<open>/proc/net/tcp\<close>; the walk over the lines, the cutting into
  fields, the parsing of the fields in place and the walk over \<open>/proc\<close> together deliver to the
  callback what the record says.
\<close>

section \<open>Words in a buffer\<close>

definition word_at :: "cbytes \<Rightarrow> nat \<Rightarrow> cbytes \<Rightarrow> bool" where
  "word_at bs p v \<longleftrightarrow> (\<exists>pre s. bs = pre @ v @ 0 # s \<and> length pre = p)"

lemma str_at_word: "word_at bs p v \<Longrightarrow> no_nul v \<Longrightarrow> str_at bs p = Inr v"
  by (auto simp: word_at_def str_at_def text_of_at)

lemma word_at_other:
  assumes "word_at bs p v" "x < p \<or> p + length v < x"
  shows "word_at (bs[x := c]) p v"
proof -
  obtain pre s where b: "bs = pre @ v @ 0 # s" "length pre = p" using assms(1) by (auto simp: word_at_def)
  show ?thesis
  proof (cases "x < p")
    case True
    then show ?thesis unfolding word_at_def b(1)
      by (intro exI [of _ "pre[x := c]"] exI [of _ s]) (simp add: b(2) list_update_append)
  next
    case False
    then obtain m where "x = p + length v + Suc m"
      using assms(2) by (metis less_imp_Suc_add add_Suc_right)
    then have "bs[x := c] = pre @ v @ 0 # s[m := c]"
      by (simp add: b list_update_append)
    then show ?thesis unfolding word_at_def using b(2) by blast
  qed
qed

lemma word_at_cut:
  assumes "word_at bs p (a @ d # b)"
  shows "word_at (bs[p + length a := 0]) p a" "word_at (bs[p + length a := 0]) (p + length a + 1) b"
    "p + length a < length bs"
proof -
  obtain pre s where e: "bs = pre @ (a @ d # b) @ 0 # s" "length pre = p" using assms by (auto simp: word_at_def)
  have u: "bs[p + length a := 0] = pre @ a @ 0 # b @ 0 # s" by (simp add: e list_update_append)
  show "word_at (bs[p + length a := 0]) p a" unfolding word_at_def u using e(2) by blast
  show "word_at (bs[p + length a := 0]) (p + length a + 1) b"
    unfolding word_at_def u by (intro exI [of _ "pre @ a @ [0]"] exI [of _ s]) (simp add: e(2))
  show "p + length a < length bs" by (simp add: e)
qed

definition layout :: "cbytes \<Rightarrow> nat list \<Rightarrow> cbytes list \<Rightarrow> bool" where
  "layout bs offs ws \<longleftrightarrow> length offs = length ws \<and> (\<forall>i < length ws. word_at bs (offs ! i) (ws ! i)) \<and>
    (\<forall>i j. i < j \<and> j < length ws \<longrightarrow> offs ! i + length (ws ! i) < offs ! j)"

lemma layout_Cons:
  assumes "word_at bs p w" "\<And>j. j < length ws \<Longrightarrow> p + length w < offs ! j" "layout bs offs ws"
  shows "layout bs (p # offs) (w # ws)"
  using assms by (auto simp: layout_def nth_Cons split: nat.split)

lemma cut_tail_layout:
  "layout (pre @ w @ cut_tail key (length rest) rest @ 0 # s) (length pre # tail_offs (length pre + length w) rest)
    (w # map snd rest)"
proof (induction rest arbitrary: pre w)
  case Nil
  show ?case by (auto simp: layout_def word_at_def)
next
  case (Cons r rest)
  obtain bl v where r: "r = (bl, v)" by fastforce
  let ?pre = "pre @ w @ 0 # bl"
  have IH: "layout (?pre @ v @ cut_tail key (length rest) rest @ 0 # s)
      (length ?pre # tail_offs (length ?pre + length v) rest) (v # map snd rest)"
    by (rule Cons.IH)
  let ?b = "pre @ w @ cut_tail key (length (r # rest)) (r # rest) @ 0 # s"
  have b: "?b = ?pre @ v @ cut_tail key (length rest) rest @ 0 # s" by (simp add: r)
  have o: "tail_offs (length pre + length w) (r # rest) = length ?pre # tail_offs (length ?pre + length v) rest"
    by (simp add: r add_ac)
  have first: "word_at ?b (length pre) w" unfolding b word_at_def by force
  have gt: "length pre + length w < (length ?pre # tail_offs (length ?pre + length v) rest) ! j"
    if "j < length (v # map snd rest)" for j
  proof (cases j)
    case (Suc i)
    have "(length ?pre # tail_offs (length ?pre + length v) rest) ! 0 + length ((v # map snd rest) ! 0) <
        (length ?pre # tail_offs (length ?pre + length v) rest) ! j"
      using IH that Suc unfolding layout_def by blast
    then show ?thesis by simp
  qed simp
  have "layout ?b (length pre # (length ?pre # tail_offs (length ?pre + length v) rest)) (w # (v # map snd rest))"
    by (rule layout_Cons [OF first gt]) (use IH b in simp_all)
  then show ?case unfolding o by (simp add: r)
qed

section \<open>A socket and its line\<close>

text \<open>
  The fields of a line: slot, the two endpoints, the state, the queues, two words the library skips,
  the owner's uid, another such word, the inode, the reference count and the address of the socket.
\<close>

record sock =
  slot :: nat
  laddr :: nat
  lport :: nat
  raddr :: nat
  rport :: nat
  sstate :: nat
  txq :: nat
  rxq :: nat
  timer :: cbytes
  retrans :: cbytes
  suid :: nat
  tmout :: cbytes
  sinode :: nat
  srefs :: nat
  sptr :: cbytes

definition sock_words :: "sock \<Rightarrow> cbytes list" where
  "sock_words s =
    [dec_of_nat (slot s) @ [58], hex_of 8 (laddr s) @ 58 # hex_of 4 (lport s), hex_of 8 (raddr s) @ 58 # hex_of 4 (rport s),
     hex_of 2 (sstate s), hex_of 8 (txq s) @ 58 # hex_of 8 (rxq s), timer s, retrans s, dec_of_nat (suid s), tmout s,
     dec_of_nat (sinode s), dec_of_nat (srefs s), sptr s]"

definition sock_ok :: "sock \<Rightarrow> bool" where
  "sock_ok s \<longleftrightarrow> laddr s < 2 ^ 32 \<and> lport s < 2 ^ 16 \<and> raddr s < 2 ^ 32 \<and> rport s < 2 ^ 16 \<and> sstate s < 2 ^ 8 \<and>
    txq s < 2 ^ 32 \<and> rxq s < 2 ^ 32 \<and> suid s < 2 ^ 32 \<and> sinode s < 2 ^ 32 \<and> srefs s < 2 ^ 31 \<and>
    list_all (field_word 32) [timer s, retrans s, tmout s, sptr s]"

text \<open>What the callback is to see: the numbers of the socket in the record it shares with the lines
  before.  The slot is printed in decimal and read as hexadecimal.\<close>

definition put_str :: "cbytes \<Rightarrow> cbytes \<Rightarrow> cbytes" where
  "put_str t buf = t @ 0 # drop (Suc (length t)) buf"

definition seen :: "sock \<Rightarrow> NetProcInfo \<Rightarrow> NetProcInfo" where
  "seen s p =
    p\<lparr>bucket := ucast (c_strtoul 16 (dec_of_nat (slot s) @ [58])),
      srcaddr := put_str (ntop (addr_bytes (laddr s))) (srcaddr p), srcport := word_of_nat (lport s),
      dstaddr := put_str (ntop (addr_bytes (raddr s))) (dstaddr p), dstport := word_of_nat (rport s),
      connstate := word_of_nat (sstate s), sendbytes := word_of_nat (txq s), recvbytes := word_of_nat (rxq s),
      np_uid := word_of_nat (suid s), np_inode := word_of_nat (sinode s), skrefcnt := word_of_nat (srefs s),
      sockaddr := c_strtoul 16 (sptr s)\<rparr>"

lemma hex_word: "no_nul (hex_of k n)" "58 \<notin> set (hex_of k n)" "no_nul (hex_of k n @ 58 # hex_of j m)"
  using hex_of_chars by (simp_all add: cstr_simps)

lemma ucast_nat: "n < 2 ^ 32 \<Longrightarrow> ucast (word_of_nat n :: u64) = (word_of_nat n :: u32)"
  by (rule bit_word_eqI) (auto simp: bit_simps)

lemma atoi_u32:
  assumes "n < 2 ^ 32"
  shows "word_of_int (c_atoi (dec_of_nat n)) = (word_of_nat n :: u32)"
proof -
  have "c_strtol 10 (dec_of_nat n) = int n" using assms by (simp add: c_strtol_def num_parts_dec)
  moreover have "word_of_int (to_int32 i) = (word_of_int i :: u32)" for i
    by (rule bit_word_eqI) (auto simp: to_int32_def bit_simps)
  ultimately show ?thesis by (simp add: c_atoi_def)
qed

lemma split_colon_word:
  assumes "word_at bs p (a @ 58 # b)" "no_nul (a @ 58 # b)" "58 \<notin> set a"
  shows "split_colon bs p = Inr (bs[p + length a := 0], Some (p + length a + 1))"
  using str_at_word [OF assms(1,2)] c_strchr_at [OF assms(3), of b] word_at_cut(3) [OF assms(1)]
  by (simp add: split_colon_def wr_def)

lemma parse_endpoint_word:
  assumes "word_at bs p (hex_of 8 a @ 58 # hex_of 4 q)" "a < 2 ^ 32" "q < 2 ^ 16" "length addr = MAX_IPV4_STRLEN"
  shows "parse_endpoint bs p addr port = Inr (bs[p + 8 := 0], put_str (ntop (addr_bytes a)) addr, word_of_nat q)"
proof -
  have sc: "split_colon bs p = Inr (bs[p + 8 := 0], Some (p + 8 + 1))"
    using split_colon_word [OF assms(1) hex_word(3,2)] by simp
  have w: "str_at (bs[p + 8 := 0]) p = Inr (hex_of 8 a)" "str_at (bs[p + 8 := 0]) (p + 8 + 1) = Inr (hex_of 4 q)"
    using word_at_cut(1,2) [OF assms(1)] by (simp_all add: str_at_word hex_word)
  have v: "c_strtoul 16 (hex_of 8 a) = word_of_nat a" "c_strtoul 16 (hex_of 4 q) = word_of_nat q"
    by (rule strtoul_hex; use assms in simp)+
  have port: "ucast (word_of_nat q :: u64) = (word_of_nat q :: u32)" by (rule ucast_nat) (use assms(3) in simp)
  have ad: "c_sprintf addr 0 (ntop (addr_bytes a)) = Inr (put_str (ntop (addr_bytes a)) addr)"
    unfolding put_str_def
    by (rule sprintf_fits) (use ntop_facts(1) [of "addr_bytes a"] assms(4) in \<open>simp add: MAX_IPV4_STRLEN_def\<close>)
  show ?thesis
    by (simp only: parse_endpoint_def sc rbind_simps prod.case option.case w v port low_bytes_of_nat ad)
qed

text \<open>Cutting one word leaves the others.\<close>

lemma layout_cut:
  assumes "layout bs offs ws" "i < length ws" "j < length ws" "i \<noteq> j" "k \<le> length (ws ! i)"
    and "word_at bs' (offs ! j) (ws ! j)"
  shows "word_at (bs'[offs ! i + k := c]) (offs ! j) (ws ! j)"
proof (rule word_at_other [OF assms(6)])
  show "offs ! i + k < offs ! j \<or> offs ! j + length (ws ! j) < offs ! i + k"
  proof (cases "i < j")
    case True
    then have "offs ! i + length (ws ! i) < offs ! j" using assms(1,3) by (simp add: layout_def)
    then show ?thesis using assms(5) by simp
  next
    case False
    then have "offs ! j + length (ws ! j) < offs ! i" using assms(1,2,4) by (simp add: layout_def)
    then show ?thesis by simp
  qed
qed

lemma sock_words_at:
  assumes "sock_ok s" "i < 12"
  shows "no_nul (sock_words s ! i)"
proof -
  have "\<forall>w \<in> set (sock_words s). no_nul w"
    using assms(1) by (simp add: sock_words_def sock_ok_def field_word_def hex_word dec_no_nul cstr_simps)
  moreover have "i < length (sock_words s)" using assms(2) by (simp add: sock_words_def)
  ultimately show ?thesis using nth_mem by blast
qed

lemma parse_fields_sock:
  assumes l: "layout bs offs (sock_words s)" and ok: "sock_ok s"
    and a: "length (srcaddr p) = MAX_IPV4_STRLEN" "length (dstaddr p) = MAX_IPV4_STRLEN"
  shows "\<exists>bs'. parse_fields bs (map Some offs) p = Inr (bs', seen s p)"
proof -
  let ?ws = "sock_words s"
  have len: "length ?ws = 12" "length offs = 12" using l by (simp_all add: layout_def sock_words_def)
  have f: "on_field (map Some offs ! i) x g = g (offs ! i)" if "i < 12" for i and x :: "'z" and g
    using that len by (simp add: on_field_def)
  let ?b1 = "bs[offs ! 1 + 8 := 0]" let ?b2 = "?b1[offs ! 2 + 8 := 0]" let ?b3 = "?b2[offs ! 4 + 8 := 0]"
  have at: "word_at bs (offs ! i) (?ws ! i)" if "i < 12" for i using l len that by (simp add: layout_def)
  have at1: "word_at ?b1 (offs ! i) (?ws ! i)" if "i < 12" "i \<noteq> 1" for i
    by (rule layout_cut [OF l]) (use at that len in \<open>simp_all add: sock_words_def\<close>)
  have at2: "word_at ?b2 (offs ! i) (?ws ! i)" if "i < 12" "i \<noteq> 1" "i \<noteq> 2" for i
    by (rule layout_cut [OF l]) (use at1 that len in \<open>simp_all add: sock_words_def\<close>)
  have at3: "word_at ?b3 (offs ! i) (?ws ! i)" if "i < 12" "i \<noteq> 1" "i \<noteq> 2" "i \<noteq> 4" for i
    by (rule layout_cut [OF l]) (use at2 that len in \<open>simp_all add: sock_words_def\<close>)
  have s0: "str_at bs (offs ! 0) = Inr (dec_of_nat (slot s) @ [58])"
    using str_at_word [OF at [of 0] sock_words_at [OF ok, of 0]] by (simp add: sock_words_def)
  have e1: "parse_endpoint bs (offs ! 1) (srcaddr q) (srcport q) =
      Inr (?b1, put_str (ntop (addr_bytes (laddr s))) (srcaddr q), word_of_nat (lport s))"
    if "srcaddr q = srcaddr p" for q
    by (rule parse_endpoint_word) (use at [of 1] ok a that in \<open>simp_all add: sock_words_def sock_ok_def\<close>)
  have e2: "parse_endpoint ?b1 (offs ! 2) (dstaddr q) (dstport q) =
      Inr (?b2, put_str (ntop (addr_bytes (raddr s))) (dstaddr q), word_of_nat (rport s))"
    if "dstaddr q = dstaddr p" for q
    by (rule parse_endpoint_word) (use at1 [of 2] ok a that in \<open>simp_all add: sock_words_def sock_ok_def\<close>)
  have s3: "str_at ?b2 (offs ! 3) = Inr (hex_of 2 (sstate s))"
    using str_at_word [OF at2 [of 3] sock_words_at [OF ok, of 3]] by (simp add: sock_words_def)
  have w4: "word_at ?b2 (offs ! 4) (hex_of 8 (txq s) @ 58 # hex_of 8 (rxq s))"
    using at2 [of 4] by (simp add: sock_words_def)
  have s4: "split_colon ?b2 (offs ! 4) = Inr (?b3, Some (offs ! 4 + 8 + 1))"
    using split_colon_word [OF w4 hex_word(3,2)] by simp
  have t4: "str_at ?b3 (offs ! 4) = Inr (hex_of 8 (txq s))" "str_at ?b3 (offs ! 4 + 8 + 1) = Inr (hex_of 8 (rxq s))"
    using word_at_cut(1,2) [OF w4] by (simp_all add: str_at_word hex_word)
  have t4': "str_at ?b3 (9 + offs ! 4) = Inr (hex_of 8 (rxq s))" using t4(2) by (simp add: add.commute)
  have s: "str_at ?b3 (offs ! i) = Inr (?ws ! i)" if "i \<in> {7, 9, 10, 11}" for i
    by (rule str_at_word [OF at3 sock_words_at [OF ok]]) (use that in auto)
  have s': "str_at ?b3 (offs ! 7) = Inr (dec_of_nat (suid s))" "str_at ?b3 (offs ! 9) = Inr (dec_of_nat (sinode s))"
    "str_at ?b3 (offs ! 10) = Inr (dec_of_nat (srefs s))" "str_at ?b3 (offs ! 11) = Inr (sptr s)"
    using s [of 7] s [of 9] s [of 10] s [of 11] by (simp_all add: sock_words_def)
  have v: "ucast (c_strtoul 16 (hex_of 2 (sstate s))) = (word_of_nat (sstate s) :: u32)"
    "ucast (c_strtoul 16 (hex_of 8 (txq s))) = (word_of_nat (txq s) :: u32)"
    "ucast (c_strtoul 16 (hex_of 8 (rxq s))) = (word_of_nat (rxq s) :: u32)"
    using ok by (simp_all add: strtoul_hex sock_ok_def ucast_nat)
  have d: "word_of_int (c_atoi (dec_of_nat (suid s))) = (word_of_nat (suid s) :: u32)"
    "word_of_int (c_atoi (dec_of_nat (sinode s))) = (word_of_nat (sinode s) :: u32)"
    "word_of_int (c_atoi (dec_of_nat (srefs s))) = (word_of_nat (srefs s) :: u32)"
    using ok by (simp_all add: atoi_u32 sock_ok_def)
  have "parse_fields bs (map Some offs) p = Inr (?b3, seen s p)"
    unfolding parse_fields_def NET_FIELD_BUCKET_def NET_FIELD_SRCADDR_def NET_FIELD_DSTADDR_def NET_FIELD_STATE_def
      NET_FIELD_SENDRECVBYTES_def NET_FIELD_UID_def NET_FIELD_INODE_def NET_FIELD_SKREFCNT_def NET_FIELD_SOCKADDR_def
    by (simp add: f s0 e1 e2 s3 s4 t4 t4' s' v d seen_def del: One_nat_def)
  then show ?thesis by blast
qed

section \<open>The lines of the table\<close>

text \<open>A line is indented, has any number of blanks between the words, and more text behind them.\<close>

definition sock_line :: "sock \<Rightarrow> cbytes \<Rightarrow> bool" where
  "sock_line s l \<longleftrightarrow> sock_ok s \<and> 10 \<notin> set l \<and>
    (\<exists>k w rest q. l = replicate k 32 @ w @ line_tail 32 rest @ 32 # q \<and> w # map snd rest = sock_words s \<and>
      (\<forall>(bl, v) \<in> set rest. set bl \<subseteq> {32}) \<and> no_nul q \<and> k + length l \<le> 1022)"

lemma sock_lineI:
  assumes "sock_ok s" "10 \<notin> set l" "l = replicate k 32 @ w @ line_tail 32 rest @ 32 # q" "w # map snd rest = sock_words s"
    and "\<forall>(bl, v) \<in> set rest. set bl \<subseteq> {32}" "no_nul q" "k + length l \<le> 1022"
  shows "sock_line s l"
  using assms unfolding sock_line_def by blast

lemma hex_field: "0 < k \<Longrightarrow> field_word 32 (hex_of k n)"
proof -
  assume k: "0 < k"
  have c: "c \<noteq> 32 \<and> c \<noteq> 9 \<and> \<not> is_blank c" if "c \<in> set (hex_of k n)" for c
  proof (rule hex_of_all [OF _ that])
    fix d :: nat assume "d < 16"
    then have "\<not> isspace (hex_digit d)" by (rule hex_digit_facts)
    then show "hex_digit d \<noteq> 32 \<and> hex_digit d \<noteq> 9 \<and> \<not> is_blank (hex_digit d)"
      by (auto simp: isspace_def is_blank_def)
  qed
  moreover have "hex_of k n \<noteq> []" using k length_hexdigits_of [of k n] by fastforce
  ultimately show ?thesis
    using c [of 32] c [of "hd (hex_of k n)"] hex_word(1) by (auto simp: field_word_def)
qed

lemma dec_field: "field_word 32 (dec_of_nat n)"
proof -
  have c: "c \<noteq> 32 \<and> \<not> is_blank c" if "c \<in> set (dec_of_nat n)" for c
  proof -
    have "digit_val c < 10" using dec_digits that by blast
    then have "\<not> isspace c" using digit_not_space by blast
    then show ?thesis by (auto simp: isspace_def is_blank_def)
  qed
  moreover have "dec_of_nat n \<noteq> []" using dec_of_nat_Cons [of n] by auto
  ultimately show ?thesis
    using c [of 32] c [of "hd (dec_of_nat n)"] dec_no_nul by (auto simp: field_word_def)
qed

lemma field_word_append: "field_word 32 a \<Longrightarrow> no_nul b \<Longrightarrow> 32 \<notin> set b \<Longrightarrow> field_word 32 (a @ b)"
  by (auto simp: field_word_def cstr_simps)

lemma hex_no_space: "32 \<notin> set (hex_of k n)"
  using hex_field [of k n] by (cases k) (auto simp: field_word_def)

lemma sock_words_fields: "sock_ok s \<Longrightarrow> w \<in> set (sock_words s) \<Longrightarrow> field_word 32 w"
  by (auto simp: sock_words_def sock_ok_def hex_field dec_field hex_no_space hex_word cstr_simps
      intro!: field_word_append)

lemma net_line_fields:
  assumes "sock_line s l" "length field = NET_FIELD_MAX"
    and "length (srcaddr p) = MAX_IPV4_STRLEN" "length (dstaddr p) = MAX_IPV4_STRLEN"
  shows "\<exists>tb offs tb'. general_get_field (Some (l @ 10 # 0 # replicate (1022 - length l) 0)) 32 (int NET_FIELD_MAX) (Some field)
      = Inr (0, Some tb, Some (map Some offs)) \<and> length offs = NET_FIELD_MAX \<and>
    parse_fields tb (map Some offs) p = Inr (tb', seen s p)"
proof -
  obtain k w rest q where l: "l = replicate k 32 @ w @ line_tail 32 rest @ 32 # q" "w # map snd rest = sock_words s"
      "\<forall>(bl, v) \<in> set rest. set bl \<subseteq> {32}" "no_nul q" "k + length l \<le> 1022" and ok: "sock_ok s"
    using assms(1) unfolding sock_line_def by blast
  have len: "Suc (length rest) = NET_FIELD_MAX"
    using arg_cong [OF l(2), of length] by (simp add: sock_words_def NET_FIELD_MAX_def)
  have fw: "field_word 32 w" using sock_words_fields [OF ok] l(2) by (metis list.set_intros(1))
  have lo: "line_ok 32 rest"
  proof -
    have "field_word 32 v" if "(bl, v) \<in> set rest" for bl v
      using sock_words_fields [OF ok] l(2) that by (metis image_eqI list.set_intros(2) list.set_map snd_conv)
    then show ?thesis using l(3) by (fastforce simp: line_ok_def is_blank_def)
  qed
  let ?z = "replicate (1022 - length l) (0 :: byte)"
  have z: "set ?z \<subseteq> {0}" "k \<le> length ?z" using l(5) by (auto simp: set_replicate_conv_if)
  obtain t where g: "general_get_field (Some (replicate k 32 @ w @ line_tail 32 rest @ 32 # q @ 10 # 0 # ?z)) 32
      (int (Suc (length rest))) (Some field) =
    Inr (0, Some (replicate k 32 @ w @ cut_tail 32 (length rest) rest @ 0 # t), Some (map Some (k # tail_offs (k + length w) rest)))"
    using get_field_indented [OF fw lo l(4) _ z, of field] assms(2) len by auto
  have "layout (replicate k 32 @ w @ cut_tail 32 (length rest) rest @ 0 # t) (k # tail_offs (k + length w) rest) (sock_words s)"
    using cut_tail_layout [of "replicate k 32" w 32 rest t] by (simp add: l(2))
  then obtain tb' where "parse_fields (replicate k 32 @ w @ cut_tail 32 (length rest) rest @ 0 # t)
      (map Some (k # tail_offs (k + length w) rest)) p = Inr (tb', seen s p)"
    using parse_fields_sock ok assms(3,4) by blast
  with g len show ?thesis
    by (intro exI [of _ "replicate k 32 @ w @ cut_tail 32 (length rest) rest @ 0 # t"]
        exI [of _ "k # tail_offs (k + length w) rest"] exI [of _ tb']) (simp add: l(1))
qed

section \<open>The walk over the table\<close>

text \<open>The record after the search for the owner of its socket, and what the callback is given.\<close>

definition owned :: "(cbytes \<Rightarrow> bool) \<Rightarrow> dir_contents \<Rightarrow> links_fn \<Rightarrow> dirent list \<Rightarrow> NetProcInfo \<Rightarrow> NetProcInfo" where
  "owned nomem fs readlink es p =
    (case owner_of nomem fs readlink (np_inode p) (names_of DT_DIR es) of None \<Rightarrow> p
     | Some d \<Rightarrow> with_owner readlink (proc_entry d) (c_atoi d) p)"

fun deliver :: "(NetProcInfo \<Rightarrow> NetProcInfo) \<Rightarrow> (NetProcInfo \<Rightarrow> 'a \<Rightarrow> int \<times> 'a) \<Rightarrow> sock list \<Rightarrow> NetProcInfo \<Rightarrow> 'a \<Rightarrow> 'a" where
  "deliver own callback [] p a = a"
| "deliver own callback (s # ss) p a =
    (case callback (own (seen s p)) a of (ret, a) \<Rightarrow>
       if ret \<noteq> 0 then a else deliver own callback ss (own (seen s p)) a)"

definition info_ok :: "NetProcInfo \<Rightarrow> bool" where
  "info_ok p \<longleftrightarrow> length (srcaddr p) = MAX_IPV4_STRLEN \<and> length (dstaddr p) = MAX_IPV4_STRLEN \<and>
    length (procpath p) = MAX_PATH_LEN"

lemma info_ok_zero: "info_ok zero_netproc"
  by (simp add: info_ok_def zero_netproc_def)

lemma info_ok_seen: "info_ok p \<Longrightarrow> info_ok (seen s p)"
  using ntop_facts(1) [of "addr_bytes (laddr s)"] ntop_facts(1) [of "addr_bytes (raddr s)"]
  by (simp add: info_ok_def seen_def put_str_def MAX_IPV4_STRLEN_def)

lemma info_ok_owned:
  assumes "links_ok readlink" "info_ok p"
  shows "info_ok (owned nomem fs readlink es p)"
proof -
  have "length t \<le> MAX_PATH_LEN" if "readlink x = Some t" for x t
    using assms(1) that by (fastforce simp: links_ok_def MAX_PATH_LEN_def)
  then show ?thesis
    using assms(2) by (auto simp: owned_def with_owner_def info_ok_def split: option.split)
qed

text \<open>What the tables and \<open>/proc\<close> are like.\<close>

definition net_env_ok :: "net_env \<Rightarrow> dirent list \<Rightarrow> bool" where
  "net_env_ok env es \<longleftrightarrow> env_dirs env (cbytes_of ''/proc'') = Some es \<and>
    (\<forall>e \<in> set es. no_nul (fst e) \<and> slash \<notin> set (fst e)) \<and>
    (\<forall>path es. env_dirs env path = Some es \<longrightarrow> (\<forall>(d, t) \<in> set es. no_nul d \<and> length d \<le> 254)) \<and>
    links_ok (env_links env) \<and> (\<forall>k. \<not> env_oom env k) \<and> length es < env_fuel env"

abbreviation env_owned :: "net_env \<Rightarrow> dirent list \<Rightarrow> NetProcInfo \<Rightarrow> NetProcInfo" where
  "env_owned env es \<equiv> owned (env_nomem env) (env_dirs env) (env_links env) es"

lemma net_owner:
  assumes "net_env_ok env es" "info_ok p" "mem_ok m"
  shows "\<exists>m'. parse_proc_info_by_inode (env_fuel env) (env_oom env) (env_nomem env) (env_dirs env) (env_links env) p m =
      Inr (Some (0, env_owned env es p, m')) \<and> cells m' = cells m \<and> mem_ok m'"
proof -
  note e = assms(1) [unfolded net_env_ok_def]
  obtain m' n where "parse_proc_info_by_inode (env_fuel env) (env_oom env) (env_nomem env) (env_dirs env) (env_links env) p m =
      Inr (Some (0, case owner_of (env_nomem env) (env_dirs env) (env_links env) (np_inode p) (take n (names_of DT_DIR es)) of
          None \<Rightarrow> p | Some d \<Rightarrow> with_owner (env_links env) (proc_entry d) (c_atoi d) p, m'))"
      "cells m' = cells m" "mem_ok m'" "n = length (names_of DT_DIR es)"
    using proc_info_owner [where fs = "env_dirs env" and es = es and pinfo = p and readlink = "env_links env" and m = m
        and fuel = "env_fuel env" and oom = "env_oom env" and nomem = "env_nomem env"]
      e assms(2,3) by (auto simp: info_ok_def)
  then show ?thesis by (simp add: owned_def)
qed

lemma net_loop_sockets:
  assumes "net_env_ok env es" "list_all2 sock_line ss ls" "length field = NET_FIELD_MAX" "info_ok p" "mem_ok m"
  shows "\<exists>m'. net_loop env callback (concat (map (\<lambda>l. l @ [10]) ls)) field p m a =
      Inr (Some (deliver (env_owned env es) callback ss p a, m')) \<and> cells m' = cells m \<and> mem_ok m'"
  using assms(2-)
proof (induction ss ls arbitrary: field p m a rule: list_all2_induct)
  case Nil
  then show ?case by (simp add: net_loop.simps [of env] c_fgets_def)
next
  case (Cons s ss l ls)
  have len: "length l \<le> 1022" "10 \<notin> set l" using Cons.hyps(1) by (auto simp: sock_line_def)
  have fg: "c_fgets 1024 (l @ 10 # concat (map (\<lambda>l. l @ [10]) ls)) = Some (l @ [10], concat (map (\<lambda>l. l @ [10]) ls))"
    by (rule fgets_line) (use len in auto)
  have cpy: "memcpy (replicate 1024 0) 0 (l @ [10, 0]) 0 (length (l @ [10]) + 1) =
      Inr (l @ 10 # 0 # replicate (1022 - length l) 0)"
    using len(1) by (simp add: memcpy_def)
  obtain tb offs tb' where g: "general_get_field (Some (l @ 10 # 0 # replicate (1022 - length l) 0)) 32 (int NET_FIELD_MAX) (Some field)
      = Inr (0, Some tb, Some (map Some offs))" "length offs = NET_FIELD_MAX"
      "parse_fields tb (map Some offs) p = Inr (tb', seen s p)"
    using net_line_fields [OF Cons.hyps(1) Cons.prems(1), of p] Cons.prems(2) by (auto simp: info_ok_def)
  let ?p = "env_owned env es (seen s p)"
  have ok: "info_ok (seen s p)" "info_ok ?p"
    using info_ok_seen [OF Cons.prems(2)] info_ok_owned assms(1) by (auto simp: net_env_ok_def)
  obtain m1 where m1: "parse_net_field env tb (map Some offs) p m = Inr (Some (0, ?p, m1))" "cells m1 = cells m" "mem_ok m1"
    using net_owner [OF assms(1) ok(1) Cons.prems(3)] g(3) by (auto simp: parse_net_field_def)
  obtain ret b where cb: "callback ?p a = (ret, b)" by fastforce
  have step: "net_loop env callback (concat (map (\<lambda>l. l @ [10]) (l # ls))) field p m a =
      (if ret \<noteq> 0 then Inr (Some (b, m1))
       else net_loop env callback (concat (map (\<lambda>l. l @ [10]) ls)) (map Some offs) ?p m1 b)"
    by (subst net_loop.simps) (simp only: list.map concat.simps append_assoc append_Cons append_Nil fg option.case
        prod.case cpy rbind_simps g(1) sum.case m1(1) cb simp_thms if_True)
  obtain m2 where m2: "net_loop env callback (concat (map (\<lambda>l. l @ [10]) ls)) (map Some offs) ?p m1 b =
      Inr (Some (deliver (env_owned env es) callback ss ?p b, m2))" "cells m2 = cells m1" "mem_ok m2"
    using Cons.IH [of "map Some offs" ?p m1 b] g(2) ok(2) m1(3) by auto
  show ?case
    unfolding step using m1(2,3) m2 by (simp add: cb)
qed

lemma net_info_sockets:
  assumes "nettype \<le> NETTYPE_UDP" "net_env_ok env es" "list_all2 sock_line ss ls" "mem_ok m"
    and "env_files env (if nettype = NETTYPE_TCP then cbytes_of ''/proc/net/tcp'' else cbytes_of ''/proc/net/udp'') =
      Some (hdr @ 10 # concat (map (\<lambda>l. l @ [10]) ls))" "10 \<notin> set hdr" "length hdr < 1023"
  shows "\<exists>m'. com_foreach_net_info env callback nettype a m =
      Inr (Some (None, deliver (env_owned env es) callback ss zero_netproc a, 0, m')) \<and> cells m' = cells m \<and> mem_ok m'"
proof -
  have fg: "c_fgets 1024 (hdr @ 10 # concat (map (\<lambda>l. l @ [10]) ls)) = Some (hdr @ [10], concat (map (\<lambda>l. l @ [10]) ls))"
    by (rule fgets_line) (use assms(6,7) in auto)
  have ty: "\<not> NETTYPE_UDP < nettype" using assms(1) by simp
  obtain m' where "net_loop env callback (concat (map (\<lambda>l. l @ [10]) ls)) (replicate NET_FIELD_MAX None) zero_netproc m a =
      Inr (Some (deliver (env_owned env es) callback ss zero_netproc a, m'))" "cells m' = cells m" "mem_ok m'"
    using net_loop_sockets [OF assms(2,3) _ info_ok_zero assms(4), of "replicate NET_FIELD_MAX None" callback a] by auto
  then show ?thesis
    using ty by (simp add: com_foreach_net_info_def assms(5) fg)
qed

text \<open>C25: for the tables as the kernel prints them, \<open>com_foreach_net_info\<close> gives the callback one
  record per socket, in order, until it returns a value other than 0: the addresses, ports, state,
  queues, uid, inode and reference count of the socket, with the first process that holds it.  The
  record is shared by all lines, so that a socket without a process is reported with the process of
  the line before, and the slot is read as hexadecimal.  The stream is closed, the memory released
  and nothing is returned.\<close>

theorem com_foreach_net_info_sockets:
  assumes "nettype \<le> NETTYPE_UDP" "net_env_ok env es" "list_all2 sock_line ss ls" "mem_ok m"
    and "env_files env (if nettype = NETTYPE_TCP then cbytes_of ''/proc/net/tcp'' else cbytes_of ''/proc/net/udp'') =
      Some (hdr @ 10 # concat (map (\<lambda>l. l @ [10]) ls))" "10 \<notin> set hdr" "length hdr < 1023"
  shows "\<exists>m'. com_foreach_net_info env callback nettype a m =
      Inr (Some (None, deliver (env_owned env es) callback ss zero_netproc a, 0, m')) \<and> cells m' = cells m"
  using net_info_sockets [where a = a and callback = callback, OF assms] by blast

text \<open>Two sockets, of which only the first has a process: the second is reported with it too.\<close>

definition sample_sock :: "nat \<Rightarrow> sock" where
  "sample_sock i =
    \<lparr>slot = 12, laddr = 16777343, lport = 631, raddr = 0, rport = 0, sstate = 10, txq = 0, rxq = 0,
     timer = cbytes_of ''00:00000000'', retrans = cbytes_of ''00000000'', suid = 0, tmout = cbytes_of ''0'',
     sinode = i, srefs = 1, sptr = cbytes_of ''f00''\<rparr>"

definition sock_text :: "sock \<Rightarrow> cbytes" where
  "sock_text s = replicate 2 32 @ hd (sock_words s) @ line_tail 32 (map (Pair []) (List.tl (sock_words s))) @ 32 # cbytes_of ''100''"

lemma sample_words:
  "sock_words (sample_sock i) = map cbytes_of
    [''12:'', ''0100007F:0277'', ''00000000:0000'', ''0A'', ''00000000:00000000'', ''00:00000000'', ''00000000'', ''0'', ''0'']
    @ [dec_of_nat i, cbytes_of ''1'', cbytes_of ''f00'']"
  by (simp add: sock_words_def sample_sock_def hex_of_numeral hex_digit_def cbytes_of_def dec_of_nat.simps)

lemma sample_ok:
  assumes "i = 5 \<or> i = 6"
  shows "sock_line (sample_sock i) (sock_text (sample_sock i))"
proof -
  have d: "dec_of_nat i = [48 + word_of_nat i]" using assms by (auto simp: dec_of_nat.simps)
  have ok: "sock_ok (sample_sock i)"
    using assms by (auto simp: sock_ok_def sample_sock_def field_word_def cbytes_of_def cstr_simps is_blank_def)
  have chars: "10 \<notin> set (sock_text (sample_sock i))" "2 + length (sock_text (sample_sock i)) \<le> 1022"
    using assms by (auto simp: sock_text_def sample_words cbytes_of_def d)
  show ?thesis
    by (rule sock_lineI [OF ok chars(1) sock_text_def _ _ _ chars(2)])
      (simp_all add: sock_words_def comp_def cbytes_of_def cstr_simps)
qed

lemma seen_srcaddr: "cstr (srcaddr (seen s p)) = ntop (addr_bytes (laddr s))"
  by (simp add: seen_def put_str_def cstr_append_nul ntop_facts)

definition sample_env :: net_env where
  "sample_env = \<lparr>env_fuel = 9, env_oom = \<lambda>_. False, env_nomem = \<lambda>_. False, env_dirs = sample_dirs, env_links = sample_links,
     env_files = \<lambda>_. Some (cbytes_of ''sl'' @ 10 # concat (map (\<lambda>l. l @ [10]) [sock_text (sample_sock 5), sock_text (sample_sock 6)]))\<rparr>"

theorem com_foreach_net_info_sockets_witness:
  "\<exists>m'. com_foreach_net_info sample_env
      (\<lambda>p a. (0, a @ [(cstr (srcaddr p), srcport p, np_inode p, np_pid p, bucket p)])) 0 [] \<lparr>cells = \<lambda>_. None, allocs = 0\<rparr> =
    Inr (Some (None, [(cbytes_of ''127.0.0.1'', 631, 5, 7, 18), (cbytes_of ''127.0.0.1'', 631, 6, 7, 18)], 0, m')) \<and>
    cells m' = (\<lambda>_. None)"
proof -
  let ?es = "[(cbytes_of ''sys'', 4), (cbytes_of ''1'', 4), (cbytes_of ''7'', 4)]"
  let ?cb = "\<lambda>p a. (0, a @ [(cstr (srcaddr p), srcport p, np_inode p, np_pid p, bucket p)])"
  have env: "net_env_ok sample_env ?es"
    by (auto simp: net_env_ok_def sample_env_def sample_dirs_def sample_links_def links_ok_def cbytes_of_def cstr_simps
        split: if_splits)
  have "\<exists>m'. com_foreach_net_info sample_env ?cb 0 [] \<lparr>cells = \<lambda>_. None, allocs = 0\<rparr> =
      Inr (Some (None, deliver (env_owned sample_env ?es) ?cb [sample_sock 5, sample_sock 6] zero_netproc [], 0, m')) \<and>
      cells m' = cells (\<lparr>cells = \<lambda>_. None, allocs = 0\<rparr> :: dir_cell mem)"
    by (rule com_foreach_net_info_sockets [OF _ env, where ls = "[sock_text (sample_sock 5), sock_text (sample_sock 6)]" and hdr = "cbytes_of ''sl''"])
      (simp_all add: NETTYPE_UDP_def sample_ok mem_ok_def sample_env_def cbytes_of_def)
  moreover have "deliver (env_owned sample_env ?es) ?cb [sample_sock 5, sample_sock 6] zero_netproc [] =
      [(cbytes_of ''127.0.0.1'', 631, 5, 7, 18), (cbytes_of ''127.0.0.1'', 631, 6, 7, 18)]"
  proof -
    have none: "owner_of (\<lambda>_. False) sample_dirs sample_links 6 (names_of DT_DIR ?es) = None" by code_simp
    have pid: "c_atoi (cbytes_of ''7'') = 7" by code_simp
    have own: "env_owned sample_env ?es (seen (sample_sock 5) p) = with_owner sample_links (proc_entry (cbytes_of ''7'')) 7 (seen (sample_sock 5) p)"
      "env_owned sample_env ?es (seen (sample_sock 6) p) = seen (sample_sock 6) p" for p
      using sample_owner none pid by (simp_all add: owned_def sample_env_def seen_def sample_sock_def)
    have addr: "cstr (srcaddr (seen (sample_sock i) p)) = cbytes_of ''127.0.0.1''" for i p
      by (simp add: seen_srcaddr sample_sock_def cbytes_of_def addr_bytes_def ntop.simps dec_of_nat.simps)
    have slot: "bucket (seen (sample_sock i) p) = 18" for i p
      by (simp add: seen_def sample_sock_def dec_of_nat.simps c_strtoul_def num_parts_def isspace_def digits_val_def digit_val_def)
    show ?thesis
      by (simp add: own with_owner_def addr slot) (simp add: seen_def sample_sock_def)
  qed
  ultimately show ?thesis by simp
qed

section \<open>Any table\<close>

text \<open>A walk that faults, or ends with the memory as it was.\<close>

definition ends_clean :: "(ptr \<Rightarrow> dir_cell option) \<Rightarrow> ('b \<times> dir_cell mem) option res \<Rightarrow> bool" where
  "ends_clean base r \<longleftrightarrow> (case r of Inl e \<Rightarrow> True | Inr None \<Rightarrow> False | Inr (Some (b, m)) \<Rightarrow> cells m = base \<and> mem_ok m)"

lemma ends_clean_simps [simp]:
  "ends_clean base (Inl e)" "\<not> ends_clean base (Inr None)"
  "ends_clean base (Inr (Some (b, m))) \<longleftrightarrow> cells m = base \<and> mem_ok m"
  by (simp_all add: ends_clean_def)

definition proc_ok :: "net_env \<Rightarrow> bool" where
  "proc_ok env \<longleftrightarrow> (\<exists>es. env_dirs env (cbytes_of ''/proc'') = Some es \<and>
    (\<forall>e \<in> set es. no_nul (fst e) \<and> slash \<notin> set (fst e)) \<and> length es < env_fuel env)"

lemma proc_info_ends:
  assumes "proc_ok env" "mem_ok m"
  shows "(\<exists>e. parse_net_field env bs field p m = Inl e) \<or>
    (\<exists>ret p' m'. parse_net_field env bs field p m = Inr (Some (ret, p', m')) \<and> cells m' = cells m \<and> mem_ok m')"
proof (cases "parse_fields bs field p")
  case (Inl e)
  then show ?thesis by (simp add: parse_net_field_def)
next
  case (Inr r)
  then obtain tb q where r: "parse_fields bs field p = Inr (tb, q)" by (cases r) auto
  obtain es where es: "env_dirs env (cbytes_of ''/proc'') = Some es"
    "\<forall>e \<in> set es. no_nul (fst e) \<and> slash \<notin> set (fst e)" "length es < env_fuel env"
    using assms(1) by (auto simp: proc_ok_def)
  let ?cb = "\<lambda>name p. case p of Inl e \<Rightarrow> (1, Inl e)
       | Inr p \<Rightarrow> (case deal_proc_pid_info (env_nomem env name) (env_dirs env) (env_links env) name p of
           Inl e \<Rightarrow> (1, Inl e) | Inr (ret, p) \<Rightarrow> (ret, Inr p))"
  obtain v m' where "general_find_proc_pid (env_fuel env) (env_oom env) (env_dirs env) ?cb (Inr q) m = Inr (Some (0, v, m'))"
      "cells m' = cells m" "mem_ok m'"
    using find_proc [where fs = "env_dirs env" and es = es and m = m and fuel = "env_fuel env" and oom = "env_oom env"
        and callback = ?cb and a = "Inr q"] es assms(2) by blast
  then show ?thesis
    by (cases v) (simp_all add: parse_net_field_def r parse_proc_info_by_inode_def)
qed

lemma net_loop_ends:
  assumes "proc_ok env" "mem_ok m" "cells m = base"
  shows "ends_clean base (net_loop env callback content field p m a)"
  using assms(2,3)
proof (induction "length content" arbitrary: content field p m a rule: less_induct)
  case less
  show ?case
  proof (cases "c_fgets 1024 content")
    case None
    then show ?thesis using less.prems by (subst net_loop.simps) simp
  next
    case (Some r)
    then obtain line rest where fg: "c_fgets 1024 content = Some (line, rest)" by (cases r) auto
    have shrink: "length rest < length content" by (rule fgets_shrinks [OF fg]) simp
    have IH: "ends_clean base (net_loop env callback rest field p m a)" if "mem_ok m" "cells m = base" for field p m a
      by (rule less.hyps [OF shrink that])
    show ?thesis
    proof (cases "memcpy (replicate 1024 0) 0 (line @ [0]) 0 (length line + 1)")
      case (Inl e)
      then show ?thesis by (subst net_loop.simps) (simp add: fg)
    next
      case (Inr tb)
      have step: "net_loop env callback content field p m a =
        (case general_get_field (Some tb) 32 (int NET_FIELD_MAX) (Some field) of
           Inr (ret, Some tmpbuff, Some field) \<Rightarrow>
             if ret = 0 then
               (case parse_net_field env tmpbuff field p m of
                  Inr (Some (ret, p, m)) \<Rightarrow>
                    if ret = 0 then
                      (case callback p a of (ret, a) \<Rightarrow>
                         if ret \<noteq> 0 then Inr (Some (a, m)) else net_loop env callback rest field p m a)
                    else net_loop env callback rest field p m a
                | Inr None \<Rightarrow> Inr None
                | Inl e \<Rightarrow> Inl e)
             else net_loop env callback rest field p m a
         | Inl e \<Rightarrow> Inl e
         | _ \<Rightarrow> Inl NullDeref)"
        by (subst net_loop.simps) (simp only: fg option.case prod.case Inr rbind_simps)
      have body: "ends_clean base (case parse_net_field env tb' f p m of
          Inr (Some (ret, p, m)) \<Rightarrow>
            if ret = 0 then (case callback p a of (ret, a) \<Rightarrow>
                 if ret \<noteq> 0 then Inr (Some (a, m)) else net_loop env callback rest f p m a)
            else net_loop env callback rest f p m a
        | Inr None \<Rightarrow> Inr None | Inl e \<Rightarrow> Inl e)" for tb' f
        using proc_info_ends [OF assms(1) less.prems(1), of tb' f p] less.prems(2) IH
        by (auto split: prod.split)
      show ?thesis
        unfolding step using body IH [OF less.prems]
        by (auto split: sum.split prod.split option.split)
    qed
  qed
qed

text \<open>C26: \<open>com_foreach_net_info\<close> ends, for every content of the table, every callback and whichever
  allocations fail, once the walk over \<open>/proc\<close> has a turn for each entry; when it does not fault, the
  memory is as before.\<close>

theorem com_foreach_net_info_ends:
  assumes "env_dirs env (cbytes_of ''/proc'') = Some es" "\<forall>e \<in> set es. no_nul (fst e) \<and> slash \<notin> set (fst e)"
    and "length es < env_fuel env" "mem_ok m"
  shows "com_foreach_net_info env callback nettype a m \<noteq> Inr None \<and>
    (\<forall>ret a' n m'. com_foreach_net_info env callback nettype a m = Inr (Some (ret, a', n, m')) \<longrightarrow> cells m' = cells m)"
proof -
  have ok: "proc_ok env" using assms(1-3) by (auto simp: proc_ok_def)
  have e: "ends_clean (cells m) (net_loop env callback content field p m a)" for content field p
    by (rule net_loop_ends [OF ok assms(4) refl])
  have "obind (net_loop env callback content field p m a) (\<lambda>(a, m). Inr (Some (None :: int option, a, 0 :: nat, m))) \<noteq> Inr None \<and>
    (\<forall>ret a' n m'. obind (net_loop env callback content field p m a) (\<lambda>(a, m). Inr (Some (None :: int option, a, 0 :: nat, m))) =
      Inr (Some (ret, a', n, m')) \<longrightarrow> cells m' = cells m)" for content field p
    using e [of content field p]
    by (cases "net_loop env callback content field p m a") (auto simp: ends_clean_def split: option.splits)
  then show ?thesis
    by (auto simp: com_foreach_net_info_def split: option.splits)
qed

theorem com_foreach_net_info_ends_witness:
  "\<forall>content. com_foreach_net_info (sample_env\<lparr>env_files := \<lambda>_. Some content\<rparr>) (\<lambda>_ a. (0, a)) 1 ()
      \<lparr>cells = \<lambda>_. None, allocs = 0\<rparr> \<noteq> Inr None"
proof
  fix content
  let ?es = "[(cbytes_of ''sys'', 4), (cbytes_of ''1'', 4), (cbytes_of ''7'', 4)]"
  show "com_foreach_net_info (sample_env\<lparr>env_files := \<lambda>_. Some content\<rparr>) (\<lambda>_ a. (0, a)) 1 ()
      \<lparr>cells = \<lambda>_. None, allocs = 0\<rparr> \<noteq> Inr None"
    using com_foreach_net_info_ends [of "sample_env\<lparr>env_files := \<lambda>_. Some content\<rparr>" ?es "\<lparr>cells = \<lambda>_. None, allocs = 0\<rparr>"
        "\<lambda>_ a. (0, a)" 1 "()"]
    by (simp add: sample_env_def sample_dirs_def mem_ok_def cbytes_of_def no_nul_def)
qed

end
