(* ===== verification/Fcp_Proc.thy ===== *)
theory Fcp_Proc
  imports Fcp_Os Fcp_Net Kernel_Fds
begin

text \<open>
  \<open>src/src/myfcp/fcp_proc.c\<close>: what \<open>/proc\<close> tells of a process, and turning the caller into a daemon.
  \<open>files\<close> gives the content of a file or nothing, \<open>exists_file\<close> is the success of \<open>stat\<close>; the daemon
  works on the descriptor table and the outcomes of its system calls.
\<close>

section \<open>Kinds of ELF files, signals, sessions\<close>

datatype elf_type = ELF_TYPE_ERROR | ELF_TYPE_EXE | ELF_TYPE_DYN | ELF_TYPE_CORE | ELF_TYPE_REL | ELF_TYPE_OTHER

definition taskutil_elf_type :: "cbytes option \<Rightarrow> elf_type" where
  "taskutil_elf_type file =
    (case file of None \<Rightarrow> ELF_TYPE_ERROR
     | Some content \<Rightarrow>
         if length content < 52 then ELF_TYPE_OTHER
         else if \<not> (content ! 0 = 127 \<and> content ! 1 = 69 \<and> content ! 2 = 76 \<and> content ! 3 = 70)
         then ELF_TYPE_OTHER
         else
           let e_type = unat (content ! 16) + 256 * unat (content ! 17) in
           if e_type = 1 then ELF_TYPE_REL
           else if e_type = 2 then ELF_TYPE_EXE
           else if e_type = 3 then ELF_TYPE_DYN
           else if e_type = 4 then ELF_TYPE_CORE
           else ELF_TYPE_OTHER)"

definition taskutil_kill_task :: "(int \<Rightarrow> int) \<Rightarrow> int \<Rightarrow> int" where
  "taskutil_kill_task kill p = (if kill p \<noteq> 0 then -1 else 0)"

text \<open>The results of \<open>read\<close>: bytes, an interruption by a signal, or another error.\<close>

datatype read_answer = Got cbytes | Interrupted | Failed

fun read_retry :: "read_answer list \<Rightarrow> cbytes option" where
  "read_retry [] = None"
| "read_retry (Got bs # rs) = Some bs"
| "read_retry (Interrupted # rs) = read_retry rs"
| "read_retry (Failed # rs) = None"

definition taskutil_current_session :: "bool \<Rightarrow> read_answer list \<Rightarrow> i32 res" where
  "taskutil_current_session opened reads =
    (if \<not> opened then Inr (-1)
     else case read_retry reads of None \<Rightarrow> Inr (-1)
     | Some bs \<Rightarrow>
         rbind (memcpy (replicate 16 0) 0 (take 16 bs) 0 (min 16 (length bs))) (\<lambda>buff.
           if length bs \<ge> 16 then Inr (-1)
           else rbind (wr buff (length bs) 0) (\<lambda>buff.
             let s = cstr buff in
             if 2 ^ 64 \<le> snd (num_parts 10 s) then Inr (-1) else Inr (ucast (c_strtoul 10 s)))))"

definition com_find_proc_pid ::
    "nat \<Rightarrow> (nat \<Rightarrow> bool) \<Rightarrow> dir_contents \<Rightarrow> (cbytes \<Rightarrow> 'a \<Rightarrow> int \<times> 'a) \<Rightarrow> 'a \<Rightarrow> dir_cell mem \<Rightarrow>
      (int \<times> 'a \<times> dir_cell mem) option res" where
  "com_find_proc_pid fuel oom fs callback userarg m = general_find_proc_pid fuel oom fs callback userarg m"

definition process_max_number :: "(cbytes \<Rightarrow> cbytes option) \<Rightarrow> int res" where
  "process_max_number files =
    (case files (cbytes_of ''/proc/sys/kernel/pid_max'') of None \<Rightarrow> Inr (-1)
     | Some content \<Rightarrow>
         rbind (fgets_into (replicate 20 0) 20 content) (\<lambda>r.
         case r of None \<Rightarrow> Inr (-1) | Some buff \<Rightarrow> Inr (c_strtol 10 (cstr buff))))"

section \<open>The state of a process\<close>

datatype task_state =
    TASK_STAT_RUNNIG | TASK_STAT_INTERRUPTIBLE | TASK_STAT_UNINTERRUPTIBLE | TASK_STAT_ZOMBIE
  | TASK_STAT_STOP | TASK_STAT_TASK_TRACED | TASK_STAT_DEAD | TASK_STAT_UNKNOW

record task_proc_stat =
  ts_pid :: u32
  ts_comm :: cbytes
  ts_state :: task_state
  ts_ppid :: u32
  ts_pgid :: u32
  ts_session :: u32
  ts_tty_nr_major :: i32
  ts_tty_nr_minor :: i32
  ts_tpgid :: i32
  ts_flags :: i32

definition zero_stat :: task_proc_stat where
  "zero_stat = \<lparr>ts_pid = 0, ts_comm = replicate 256 0, ts_state = TASK_STAT_RUNNIG, ts_ppid = 0, ts_pgid = 0,
     ts_session = 0, ts_tty_nr_major = 0, ts_tty_nr_minor = 0, ts_tpgid = 0, ts_flags = 0\<rparr>"

definition state_of :: "cbytes \<Rightarrow> task_state" where
  "state_of s =
    (if s = cbytes_of ''R'' then TASK_STAT_RUNNIG
     else if s = cbytes_of ''S'' then TASK_STAT_INTERRUPTIBLE
     else if s = cbytes_of ''D'' then TASK_STAT_UNINTERRUPTIBLE
     else if s = cbytes_of ''Z'' then TASK_STAT_ZOMBIE
     else if s = cbytes_of ''T'' then TASK_STAT_STOP
     else if s = cbytes_of ''t'' then TASK_STAT_TASK_TRACED
     else if s = cbytes_of ''X'' then TASK_STAT_DEAD
     else if s = cbytes_of ''x'' then TASK_STAT_DEAD
     else TASK_STAT_UNKNOW)"

text \<open>\<open>major\<close> and \<open>minor\<close> of the C library, on the 64-bit \<open>dev_t\<close>.\<close>

definition c_major :: "int \<Rightarrow> u32" where
  "c_major dev = (let d = word_of_int dev :: u64 in
     ucast ((drop_bit 8 d AND 0xFFF) OR (drop_bit 32 d AND NOT 0xFFF)))"

definition c_minor :: "int \<Rightarrow> u32" where
  "c_minor dev = (let d = word_of_int dev :: u64 in
     ucast ((d AND 0xFF) OR (drop_bit 12 d AND NOT 0xFF)))"

definition atoi_at :: "cbytes \<Rightarrow> nat \<Rightarrow> u32 res" where
  "atoi_at bs p = rbind (str_at bs p) (\<lambda>s. Inr (word_of_int (c_atoi s)))"

definition stat_fields :: "cbytes \<Rightarrow> nat option list \<Rightarrow> task_proc_stat \<Rightarrow> task_proc_stat res" where
  "stat_fields bs field st =
    rbind (on_field (field ! 0) st (\<lambda>p. rbind (atoi_at bs p) (\<lambda>v. Inr (st\<lparr>ts_pid := v\<rparr>)))) (\<lambda>st.
    rbind (on_field (field ! 1) st (\<lambda>p.
      rbind (str_at bs (p + 1)) (\<lambda>s.
      rbind (c_snprintf (ts_comm st) 0 256 s) (\<lambda>b.
      rbind (cut_last 41 b) (\<lambda>b. Inr (st\<lparr>ts_comm := b\<rparr>)))))) (\<lambda>st.
    rbind (on_field (field ! 2) st (\<lambda>p. rbind (str_at bs p) (\<lambda>s. Inr (st\<lparr>ts_state := state_of s\<rparr>)))) (\<lambda>st.
    rbind (on_field (field ! 3) st (\<lambda>p. rbind (atoi_at bs p) (\<lambda>v. Inr (st\<lparr>ts_ppid := v\<rparr>)))) (\<lambda>st.
    rbind (on_field (field ! 4) st (\<lambda>p. rbind (atoi_at bs p) (\<lambda>v. Inr (st\<lparr>ts_pgid := v\<rparr>)))) (\<lambda>st.
    rbind (on_field (field ! 5) st (\<lambda>p. rbind (atoi_at bs p) (\<lambda>v. Inr (st\<lparr>ts_session := v\<rparr>)))) (\<lambda>st.
    rbind (on_field (field ! 6) st (\<lambda>p. rbind (str_at bs p) (\<lambda>s.
      Inr (st\<lparr>ts_tty_nr_major := c_major (c_atoi s), ts_tty_nr_minor := c_minor (c_atoi s)\<rparr>)))) (\<lambda>st.
    rbind (on_field (field ! 7) st (\<lambda>p. rbind (atoi_at bs p) (\<lambda>v. Inr (st\<lparr>ts_tpgid := v\<rparr>)))) (\<lambda>st.
    rbind (on_field (field ! 8) st (\<lambda>p. rbind (atoi_at bs p) (\<lambda>v. Inr (st\<lparr>ts_flags := v\<rparr>)))) (\<lambda>st.
      Inr st)))))))))"

definition proc_path :: "u32 \<Rightarrow> string \<Rightarrow> cbytes" where
  "proc_path p name = cbytes_of ''/proc/'' @ dec_of_nat (unat p) @ cbytes_of name"

definition taskutil_task_proc_stat ::
    "(cbytes \<Rightarrow> bool) \<Rightarrow> (cbytes \<Rightarrow> cbytes option) \<Rightarrow> u32 \<Rightarrow> task_proc_stat option \<Rightarrow>
      (int \<times> task_proc_stat option) res" where
  "taskutil_task_proc_stat exists_file files p pstat =
    (case pstat of None \<Rightarrow> Inr (-1, None)
     | Some st \<Rightarrow>
         let path = proc_path p ''/stat'' in
         if \<not> exists_file path then Inr (-1, pstat)
         else case files path of None \<Rightarrow> Inr (-1, pstat)
         | Some content \<Rightarrow>
             rbind (fgets_into (replicate 2048 0) 2048 content) (\<lambda>r.
             case r of None \<Rightarrow> Inr (-1, pstat)
             | Some databuff \<Rightarrow>
                 rbind (general_get_field (Some databuff) 32 9 (Some (replicate 9 None))) (\<lambda>(ret, databuff, field).
                   if ret = -1 then Inr (-1, pstat)
                   else rbind (stat_fields (the databuff) (the field) st) (\<lambda>st. Inr (0, Some st)))))"

definition PF_KTHREAD :: i32 where "PF_KTHREAD = 0x00200000"

definition taskutil_kernel_task :: "(cbytes \<Rightarrow> bool) \<Rightarrow> (cbytes \<Rightarrow> cbytes option) \<Rightarrow> u32 \<Rightarrow> int res" where
  "taskutil_kernel_task exists_file files p =
    rbind (taskutil_task_proc_stat exists_file files p (Some zero_stat)) (\<lambda>(ret, st).
      if ret \<noteq> 0 then Inr 0
      else case st of None \<Rightarrow> Inl NullDeref
      | Some st \<Rightarrow> if ts_flags st AND PF_KTHREAD \<noteq> 0 then Inr 1 else Inr 0)"

section \<open>Processor time\<close>

text \<open>The body of the loop over the threads.  \<open>summt\<close> is an \<open>int\<close>; \<open>fm\<close> holds the streams that are open:
  \<open>fopen\<close> makes an object and \<open>fclose\<close> releases it.\<close>

definition cpu_body ::
    "(cbytes \<Rightarrow> cbytes option) \<Rightarrow> dir_state \<Rightarrow> i32 \<times> cbytes mem \<Rightarrow> (bool \<times> i32 \<times> cbytes mem) res" where
  "cpu_body files = (\<lambda>(ent, m) (summt, fm).
     case ent of None \<Rightarrow> Inl NullDeref
     | Some ent \<Rightarrow>
         rbind (get_text (data_of ent) m) (\<lambda>bs.
         rbind (text_of bs) (\<lambda>s.
         rbind (c_snprintf (replicate 512 0) 0 512 (s @ cbytes_of ''/schedstat'')) (\<lambda>path.
         case files (cstr path) of None \<Rightarrow> Inr (False, summt, fm)
         | Some content \<Rightarrow>
             case mem_alloc (\<lambda>_. False) content fm of (fp, fm) \<Rightarrow>
               rbind (mem_get fp fm) (\<lambda>content.
               rbind (fgets_into (replicate 256 0) 256 content) (\<lambda>r.
               let summt = (case r of None \<Rightarrow> summt
                            | Some buff \<Rightarrow> summt + word_of_int (c_strtol 10 (cstr buff) sdiv 1000000)) in
               rbind (mem_free fp fm) (\<lambda>fm. Inr (False, summt, fm))))))))"

definition process_cpu_mtime ::
    "nat \<Rightarrow> (nat \<Rightarrow> bool) \<Rightarrow> dir_contents \<Rightarrow> (cbytes \<Rightarrow> cbytes option) \<Rightarrow> u32 \<Rightarrow> dir_cell mem \<Rightarrow> cbytes mem \<Rightarrow>
      (i32 \<times> dir_cell mem \<times> cbytes mem) option res" where
  "process_cpu_mtime fuel oom fs files p m fm =
    rbind (c_snprintf (replicate 512 0) 0 512 (proc_path p ''/task/'')) (\<lambda>threadpath.
    rbind (foreach_loop fuel (\<lambda>(e, m). general_foreach_dir_entry oom fs (Some threadpath) e m)
             (\<lambda>st. st) (cpu_body files) (Some zero_item, m) (0, fm))
      (\<lambda>r. Inr (map_option (\<lambda>((e, m), summt, fm). (summt, m, fm)) r)))"

section \<open>The command line\<close>

text \<open>The loop over the buffer from index \<open>i\<close>.\<close>

function cmdline_loop :: "nat \<Rightarrow> nat \<Rightarrow> cbytes \<Rightarrow> cbytes res" where
  "cmdline_loop n i buff =
    (if i < n then
       rbind (rd buff i) (\<lambda>c.
         if c = 10 then wr buff i 0
         else if c = 0 then rbind (wr buff i 32) (\<lambda>buff. cmdline_loop n (i + 1) buff)
         else cmdline_loop n (i + 1) buff)
     else Inr buff)"
  by pat_completeness auto
termination
  by (relation "measure (\<lambda>(n, i, b). n - i)") auto

declare cmdline_loop.simps [simp del]

definition process_cmdline ::
    "(cbytes \<Rightarrow> cbytes option) \<Rightarrow> u32 \<Rightarrow> cbytes option \<Rightarrow> u32 \<Rightarrow> (int \<times> cbytes option) res" where
  "process_cmdline files p linebuff sz =
    (case linebuff of None \<Rightarrow> Inr (-1, None)
     | Some b \<Rightarrow>
         if sz = 0 then Inr (-1, linebuff)
         else case files (proc_path p ''/cmdline'') of None \<Rightarrow> Inr (-1, linebuff)
         | Some content \<Rightarrow>
             rbind (memcpy b 0 (replicate (unat sz) 10) 0 (unat sz)) (\<lambda>b.
             rbind (fgets_into b sz content) (\<lambda>r.
             case r of None \<Rightarrow> Inr (-1, Some b)
             | Some b \<Rightarrow> rbind (cmdline_loop (unat sz) 0 b) (\<lambda>b. Inr (0, Some b)))))"

section \<open>The daemon\<close>

record daemon_env =
  fork1 :: int
  fork2 :: int
  setsid_ret :: int
  null_fd :: int
  nofile_max :: "u64 option"
  chdir_ret :: int

record daemon_state =
  fd_table :: "int \<Rightarrow> string option"
  new_session :: bool
  in_root :: bool
  chld_ignored :: bool
  umask_zero :: bool

datatype daemon_result = Exited int | Running daemon_state

definition RLIM_INFINITY :: u64 where "RLIM_INFINITY = -1"

text \<open>\<open>dup2(tmpfd, i)\<close> for the three standard descriptors; it does nothing when \<open>tmpfd\<close> is not open.\<close>

definition std_to_null :: "int \<Rightarrow> (int \<Rightarrow> string option) \<Rightarrow> int \<Rightarrow> string option" where
  "std_to_null tmpfd t =
    (let t = (if tmpfd < 0 then t else t(tmpfd := Some ''/dev/null''));
         t = (if tmpfd < 0 then t else t(0 := t tmpfd));
         t = (if tmpfd < 0 then t else t(1 := t tmpfd));
         t = (if tmpfd < 0 then t else t(2 := t tmpfd))
     in if tmpfd > 2 then t(tmpfd := None) else t)"

fun close_from :: "int \<Rightarrow> nat \<Rightarrow> (int \<Rightarrow> string option) \<Rightarrow> int \<Rightarrow> string option" where
  "close_from i 0 t = t"
| "close_from i (Suc n) t = close_from (i + 1) n (t(i := None))"

definition taskutil_task_to_daemon ::
    "daemon_env \<Rightarrow> bool \<Rightarrow> bool \<Rightarrow> bool \<Rightarrow> bool \<Rightarrow> daemon_state \<Rightarrow> daemon_result" where
  "taskutil_task_to_daemon env nochdir nofileclose nostdclose nochildign s =
    (if fork1 env > 0 then Exited 0
     else if fork1 env < 0 then Exited (-1)
     else if setsid_ret env < 0 then Exited (-1)
     else
       let s = s\<lparr>new_session := True\<rparr> in
       if fork2 env > 0 then Exited 0
       else if fork2 env < 0 then Exited (-1)
       else
         let s = (if nostdclose then s else s\<lparr>fd_table := std_to_null (null_fd env) (fd_table s)\<rparr>) in
         if \<not> nofileclose \<and> nofile_max env = None then Exited (-1)
         else
           let s = (if nofileclose then s
                    else
                      let lim = the (nofile_max env);
                          filenum = (if lim = RLIM_INFINITY then 1024 else unat lim)
                      in s\<lparr>fd_table := close_from 3 (filenum - 3) (fd_table s)\<rparr>) in
           if \<not> nochdir \<and> chdir_ret env < 0 then Exited (-1)
           else
             let s = (if nochdir then s else s\<lparr>in_root := True\<rparr>);
                 s = (if nochildign then s else s\<lparr>chld_ignored := True\<rparr>)
             in Running (s\<lparr>umask_zero := True\<rparr>))"

section \<open>The command line\<close>

definition spaced :: "cbytes \<Rightarrow> cbytes" where
  "spaced s = map (\<lambda>c. if c = 0 then 32 else c) s"

lemma spaced_simps [simp]: "spaced [] = []" "spaced (c # s) = (if c = 0 then 32 else c) # spaced s"
    "spaced (s @ t) = spaced s @ spaced t" "length (spaced s) = length s"
  by (simp_all add: spaced_def)

lemma no_nul_spaced: "no_nul (spaced s)"
  by (auto simp: spaced_def no_nul_def)

lemma cmdline_loop_line:
  assumes "10 \<notin> set l" "length pre + length l < n"
  shows "cmdline_loop n (length pre) (pre @ l @ 10 # s) = Inr (pre @ spaced l @ 0 # s)"
  using assms
proof (induction l arbitrary: pre)
  case Nil
  then show ?case by (subst cmdline_loop.simps) (simp add: rd_def wr_def nth_append list_update_append)
next
  case (Cons c l)
  have "cmdline_loop n (length pre) (pre @ (c # l) @ 10 # s) =
      cmdline_loop n (length (pre @ [if c = 0 then 32 else c])) ((pre @ [if c = 0 then 32 else c]) @ l @ 10 # s)"
    using Cons.prems by (subst cmdline_loop.simps) (simp add: rd_def wr_def nth_append list_update_append)
  also have "\<dots> = Inr ((pre @ [if c = 0 then 32 else c]) @ spaced l @ 0 # s)"
    by (rule Cons.IH) (use Cons.prems in auto)
  finally show ?case by simp
qed

lemma cmdline_loop_full:
  assumes "10 \<notin> set l"
  shows "cmdline_loop (length pre + length l) (length pre) (pre @ l @ s) = Inr (pre @ spaced l @ s)"
  using assms
proof (induction l arbitrary: pre)
  case Nil
  then show ?case by (subst cmdline_loop.simps) simp
next
  case (Cons c l)
  have "cmdline_loop (length pre + length (c # l)) (length pre) (pre @ (c # l) @ s) =
      cmdline_loop (length (pre @ [if c = 0 then 32 else c]) + length l) (length (pre @ [if c = 0 then 32 else c]))
        ((pre @ [if c = 0 then 32 else c]) @ l @ s)"
    using Cons.prems by (subst cmdline_loop.simps) (simp add: rd_def wr_def nth_append list_update_append)
  also have "\<dots> = Inr ((pre @ [if c = 0 then 32 else c]) @ spaced l @ s)"
    by (rule Cons.IH) (use Cons.prems in auto)
  finally show ?case by simp
qed

lemma fgets_no_line:
  assumes "10 \<notin> set s" "s \<noteq> []"
  shows "c_fgets n s = Some (take (n - 1) s, drop (n - 1) s)"
proof -
  have tw: "takeWhile (\<lambda>c. c \<noteq> 10) s = s" using assms(1) by (auto simp: takeWhile_eq_all_conv)
  show ?thesis unfolding c_fgets_def Let_def tw using assms(2) by (simp add: min_def)
qed

lemma process_cmdline_start:
  fixes n :: u32 and t :: cbytes
  assumes "files (proc_path p ''/cmdline'') = Some content" "content \<noteq> []" "10 \<notin> set content"
    and "2 \<le> unat n" "unat n < 2 ^ 31" "length buff = unat n"
  defines "t \<equiv> take (unat n - 1) content"
  shows "process_cmdline files p (Some buff) n =
      rbind (cmdline_loop (unat n) 0 (t @ 0 # replicate (unat n - 1 - length t) 10)) (\<lambda>b. Inr (0, Some b))"
proof -
  have nz: "n \<noteq> 0" using assms(4) by auto
  have fill: "memcpy buff 0 (replicate (unat n) 10) 0 (unat n) = Inr (replicate (unat n) 10)"
    using assms(6) by (simp add: memcpy_def)
  have lt: "length t + 1 \<le> unat n" using assms(4) by (simp add: t_def)
  have "fgets_into (replicate (unat n) 10) n content = Inr (Some (t @ 0 # replicate (unat n - 1 - length t) 10))"
    unfolding fgets_into_def sint_small [OF assms(5)] nat_int fgets_no_line [OF assms(3,2)] t_def [symmetric]
    using assms(4) lt nz by (simp add: memcpy_def uint_0_iff)
  then show ?thesis
    using nz by (simp add: process_cmdline_def assms(1) fill)
qed

lemma cmdline_joins:
  assumes "files (proc_path p ''/cmdline'') = Some content" "content \<noteq> []" "10 \<notin> set content"
    and "2 \<le> unat n" "unat n < 2 ^ 31" "length buff = unat n"
  shows "\<exists>b. process_cmdline files p (Some buff) n = Inr (0, Some b) \<and>
    (length content + 1 < unat n \<longrightarrow> terminated b \<and> cstr b = spaced content @ [32]) \<and>
    (unat n \<le> length content + 1 \<longrightarrow> \<not> terminated b \<and> b = spaced (take (unat n - 1) content) @ [32])"
proof -
  define N where "N = unat n"
  have N: "2 \<le> N" "length buff = N" using assms(4,6) by (simp_all add: N_def)
  define t where "t = take (N - 1) content"
  note start = process_cmdline_start [where files = files and p = p and content = content and n = n and buff = buff,
      OF assms, folded N_def, folded t_def]
  have t10: "10 \<notin> set (t @ [0])" using assms(3) by (auto simp: t_def dest: in_set_takeD)
  show ?thesis
  proof (cases "length content + 1 < N")
    case True
    then have t: "t = content" by (simp add: t_def)
    obtain k where k: "N - 1 - length content = Suc k" using True by (metis Suc_diff_Suc add.commute diff_diff_left plus_1_eq_Suc)
    have "cmdline_loop N (length ([] :: cbytes)) ([] @ (content @ [0]) @ 10 # replicate k 10)
        = Inr ([] @ spaced (content @ [0]) @ 0 # replicate k 10)"
      by (rule cmdline_loop_line) (use t10 t True in simp_all)
    then have "process_cmdline files p (Some buff) n = Inr (0, Some (spaced (content @ [0]) @ 0 # replicate k 10))"
      unfolding start t k by simp
    moreover have "cstr (spaced (content @ [0]) @ 0 # replicate k 10) = spaced content @ [32]"
      using cstr_append_nul [OF no_nul_spaced, of "content @ [0]" "replicate k 10"] by simp
    ultimately show ?thesis
      using True by (auto simp: N_def [symmetric] terminated_def)
  next
    case False
    then have len: "length t = N - 1" using N(1) by (simp add: t_def)
    have "cmdline_loop (length ([] :: cbytes) + length (t @ [0])) (length ([] :: cbytes)) ([] @ (t @ [0]) @ [])
        = Inr ([] @ spaced (t @ [0]) @ [])"
      by (rule cmdline_loop_full [OF t10])
    then have "cmdline_loop N 0 (t @ [0]) = Inr (spaced t @ [32])"
      using len N(1) by (simp del: length_take)
    then have "process_cmdline files p (Some buff) n = Inr (0, Some (spaced t @ [32]))"
      by (simp add: start len del: length_take)
    moreover have "\<not> terminated (spaced t @ [32])"
      using no_nul_spaced [of t] by (simp add: terminated_def no_nul_def)
    ultimately show ?thesis
      using False by (auto simp: N_def [symmetric] t_def)
  qed
qed

text \<open>C28: \<open>process_cmdline\<close> returns the arguments of a process joined by spaces, the terminator of the
  last one included, when they fit the buffer with room to spare; when they fill it, the loop turns
  also the terminator that \<open>fgets\<close> wrote into a space, and the buffer holds no string.\<close>

lemma process_cmdline_joins:
  assumes "files (proc_path p ''/cmdline'') = Some content" "content \<noteq> []" "10 \<notin> set content"
    and "2 \<le> unat n" "unat n < 2 ^ 31" "length buff = unat n"
  shows "\<exists>b. process_cmdline files p (Some buff) n = Inr (0, Some b) \<and>
    (length content + 1 < unat n \<longrightarrow> terminated b \<and> cstr b = spaced content @ [32]) \<and>
    (unat n \<le> length content + 1 \<longrightarrow> \<not> terminated b \<and> b = spaced (take (unat n - 1) content) @ [32])"
  using assms by (rule cmdline_joins)

lemma process_cmdline_joins_witness:
  "\<exists>b. process_cmdline (\<lambda>_. Some (cbytes_of ''ls'' @ [0])) 7 (Some (replicate 4 0)) 4 = Inr (0, Some b) \<and>
    \<not> terminated b"
proof -
  have "10 \<notin> set (cbytes_of ''ls'' @ [0 :: byte])" by (simp add: cbytes_of_def)
  then show ?thesis
    using process_cmdline_joins [of "\<lambda>_. Some (cbytes_of ''ls'' @ [0])" 7 "cbytes_of ''ls'' @ [0]" 4 "replicate 4 0"]
    by (auto simp: cbytes_of_def)
qed

section \<open>The time of the threads\<close>

text \<open>What one thread contributes: the first number of its \<open>schedstat\<close>, which counts nanoseconds.\<close>

definition thread_ms :: "(cbytes \<Rightarrow> cbytes option) \<Rightarrow> cbytes \<Rightarrow> int" where
  "thread_ms files path =
    (case files (cstr (take 511 (path @ cbytes_of ''/schedstat'') @ [0])) of None \<Rightarrow> 0
     | Some content \<Rightarrow>
         (case c_fgets 256 content of None \<Rightarrow> 0
          | Some (line, _) \<Rightarrow> c_strtol 10 (cstr line) sdiv 1000000))"

lemma fgets_into_zeros:
  "fgets_into (replicate 256 0) 256 content =
    Inr (map_option (\<lambda>(line, _). line @ 0 # replicate (255 - length line) 0) (c_fgets 256 content))"
proof (cases "c_fgets 256 content")
  case (Some r)
  then obtain l t where r: "c_fgets 256 content = Some (l, t)" by (cases r) auto
  then have "length l \<le> 255" by (auto simp: c_fgets_def Let_def split: if_splits)
  then show ?thesis using r by (simp add: fgets_into_def memcpy_def)
qed (simp add: fgets_into_def)

lemma cstr_zero_tail: "cstr (l @ 0 # r) = cstr l"
  by (induction l) (auto simp: cstr_def)

lemma snprintf_cut:
  assumes "n = Suc k"
  shows "c_snprintf (replicate n v) 0 n txt = Inr (take k txt @ [0] @ drop (Suc (length (take k txt))) (replicate n v))"
proof -
  define t where "t = take k txt"
  then have "length t \<le> k" by simp
  then show ?thesis using assms by (simp add: c_snprintf_def memcpy_def Let_def t_def [symmetric] del: length_take)
qed

text \<open>The streams after a thread: the one that was opened for it is closed.\<close>

definition after_thread :: "(cbytes \<Rightarrow> cbytes option) \<Rightarrow> cbytes \<Rightarrow> cbytes mem \<Rightarrow> cbytes mem" where
  "after_thread files path fm =
    (case files (cstr (take 511 (path @ cbytes_of ''/schedstat'') @ [0])) of None \<Rightarrow> fm
     | Some content \<Rightarrow> fm\<lparr>cells := (cells fm)(Suc (allocs fm) := None), allocs := Suc (allocs fm)\<rparr>)"

lemma after_threads: "mem_ok fm \<Longrightarrow> cells (fold (after_thread files) xs fm) = cells fm"
proof (induction xs arbitrary: fm)
  case (Cons x xs)
  have "cells (after_thread files x fm) = cells fm" "mem_ok (after_thread files x fm)"
    using Cons.prems mem_ok_fresh [OF Cons.prems, of "Suc (allocs fm)"]
    by (auto simp: after_thread_def mem_ok_def le_SucI fun_upd_idem split: option.split)
  then show ?case using Cons.IH by simp
qed simp

lemma cpu_body_at:
  assumes "dir_at oom path DT_DIR base st x xs"
  shows "cpu_body files st (t, fm) = Inr (False, t + word_of_int (thread_ms files x), after_thread files x fm)"
proof -
  obtain e m bs where e: "st = (Some e, m)" "get_text (data_of e) m = Inr bs" "cstr bs = x" "terminated bs"
    using text_at [OF assms] .
  let ?t = "take 511 (x @ cbytes_of ''/schedstat'')"
  have p: "c_snprintf (replicate 512 0) 0 512 (x @ cbytes_of ''/schedstat'') =
      Inr (?t @ [0] @ drop (Suc (length ?t)) (replicate 512 0))"
    by (rule snprintf_cut) simp
  have c: "cstr (?t @ [0] @ r) = cstr (?t @ [0])" for r
    using cstr_zero_tail [of ?t r] cstr_zero_tail [of ?t "[]"] by simp
  have body: "cpu_body files st (t, fm) =
      (case files (cstr (?t @ [0])) of None \<Rightarrow> Inr (False, t, fm)
       | Some content \<Rightarrow>
           case mem_alloc (\<lambda>_. False) content fm of (fp, fm) \<Rightarrow>
             rbind (mem_get fp fm) (\<lambda>content.
             rbind (fgets_into (replicate 256 0) 256 content) (\<lambda>r.
             let t = (case r of None \<Rightarrow> t | Some buff \<Rightarrow> t + word_of_int (c_strtol 10 (cstr buff) sdiv 1000000)) in
             rbind (mem_free fp fm) (\<lambda>fm. Inr (False, t, fm)))))"
    by (simp only: cpu_body_def prod.case e option.case rbind_simps text_of_def if_True p c)
  show ?thesis
  proof (cases "files (cstr (?t @ [0]))")
    case None
    then show ?thesis by (simp add: body thread_ms_def after_thread_def)
  next
    case (Some content)
    then show ?thesis
      unfolding body thread_ms_def after_thread_def
      by (simp add: mem_simps fgets_into_zeros) (auto simp: cstr_zero_tail split: option.split)
  qed
qed

lemma length_dec: "n < 10 ^ Suc k \<Longrightarrow> length (dec_of_nat n) \<le> Suc k"
proof (induction k arbitrary: n)
  case 0
  then show ?case by (simp add: dec_of_nat.simps [of n])
next
  case (Suc k)
  then have "n div 10 < 10 ^ Suc k" by (simp add: less_mult_imp_div_less mult.commute)
  from Suc.IH [OF this] show ?case by (simp add: dec_of_nat.simps [of n])
qed

lemma task_dir:
  shows "no_nul (proc_path p ''/task/'')" and "length (proc_path p ''/task/'') \<le> 22"
    and "last (proc_path p ''/task/'') = slash"
proof -
  have "unat p < 2 ^ 32" using unsigned_less [where 'a = nat, of p] by simp
  then have "unat p < 10 ^ Suc 9" by simp
  then have "length (dec_of_nat (unat p)) \<le> Suc 9" by (rule length_dec)
  then show "length (proc_path p ''/task/'') \<le> 22" by (simp add: proc_path_def cbytes_of_def)
  show "no_nul (proc_path p ''/task/'')" "last (proc_path p ''/task/'') = slash"
    using dec_name_ok(1) [of "unat p"] by (simp_all add: proc_path_def cbytes_of_def cstr_simps)
qed

text \<open>A line of \<open>schedstat\<close> that starts with the number \<open>t\<close>.\<close>

definition schedstat :: "nat \<Rightarrow> cbytes \<Rightarrow> bool" where
  "schedstat t content \<longleftrightarrow> t < 2 ^ 63 \<and>
    (\<exists>l. content = dec_of_nat t @ 32 # l @ [10] \<and> 10 \<notin> set l \<and> length content < 256)"

lemma path_cut:
  assumes "no_nul x" "length x \<le> 400"
  shows "cstr (take 511 (x @ cbytes_of ''/schedstat'') @ [0]) = x @ cbytes_of ''/schedstat''"
proof -
  have "no_nul (x @ cbytes_of ''/schedstat'')" using assms(1) by (simp add: cbytes_of_def cstr_simps)
  from cstr_append_nul [OF this] show ?thesis using assms(2) by (simp add: cbytes_of_def)
qed

lemma schedstat_ms:
  assumes "schedstat t content" and "files (x @ cbytes_of ''/schedstat'') = Some content"
    and "no_nul x" "length x \<le> 400"
  shows "thread_ms files x = int (t div 1000000)"
proof -
  obtain l where l: "content = dec_of_nat t @ 32 # l @ [10]" "10 \<notin> set l" "length content < 256" "t < 2 ^ 63"
    using assms(1) by (auto simp: schedstat_def)
  have d10: "10 \<notin> set (dec_of_nat t)"
  proof -
    have "\<not> digit_val 10 < 10" by code_simp
    then show ?thesis using dec_digits [of t] by auto
  qed
  have f: "c_fgets 256 ((dec_of_nat t @ 32 # l) @ 10 # []) = Some ((dec_of_nat t @ 32 # l) @ [10], [])"
    by (rule fgets_line) (use l d10 in auto)
  have n: "c_strtol 10 (dec_of_nat t @ 32 # u) = int t" for u
  proof -
    have "\<not> digit_val 32 < 10" by code_simp
    then show ?thesis using l(4) by (simp add: c_strtol_def num_parts_dec)
  qed
  have "cstr (dec_of_nat t @ 32 # u) = dec_of_nat t @ 32 # cstr u" for u
    using dec_name_ok(1) [of t] unfolding cstr_def no_nul_def by (subst takeWhile_append2) auto
  then have "c_strtol 10 (cstr ((dec_of_nat t @ 32 # l) @ [10])) = int t" by (simp add: n)
  moreover note path_cut [OF assms(3,4)]
  ultimately show ?thesis
    using assms(2) f l(1) by (cases "t = 0") (simp_all add: thread_ms_def signed_divide_int_def zdiv_int)
qed

lemma visit_sum:
  "visit (\<lambda>x (t, fm). (False, t + word_of_int (f x), h x fm)) xs (t, fm) =
    (t + word_of_int (sum_list (map f xs)), fold h xs fm)"
  by (induction xs arbitrary: t fm) (simp_all add: add.assoc)

lemma cpu_mtime_run:
  assumes "fs (proc_path p ''/task/'') = Some es" "\<forall>e \<in> set es. no_nul (fst e)" "mem_ok m" "length es < fuel"
    and "mem_ok fm"
  shows "\<exists>m' fm' n. process_cpu_mtime fuel oom fs files p m fm =
      Inr (Some (word_of_int (sum_list (map (\<lambda>d. thread_ms files (proc_path p ''/task/'' @ d))
        (take n (names_of DT_DIR es)))), m', fm')) \<and>
    cells m' = cells m \<and> cells fm' = cells fm \<and> ((\<forall>k. \<not> oom k) \<longrightarrow> n = length (names_of DT_DIR es))"
proof -
  let ?p = "proc_path p ''/task/''" and ?r = "replicate (511 - length (proc_path p ''/task/'')) (0 :: byte)"
  note td = task_dir [of p]
  have ne: "?p \<noteq> []" by (simp add: proc_path_def cbytes_of_def)
  have gp: "good_path fs ?p" using assms(1,2) td(1) ne by (simp add: good_path_def)
  have len: "length (names_of DT_DIR es) < fuel"
  proof -
    have "length (names_of t es) \<le> length es" for t by (induction t es rule: names_of.induct) auto
    then show ?thesis using assms(4) by (meson le_less_trans)
  qed
  have sp: "c_snprintf (replicate 512 0) 0 512 ?p = Inr (?p @ 0 # ?r)"
    using snprintf_fits [of ?p 512 0] td(2) by simp
  have stop: "foreach_loop fuel step (\<lambda>st. st) (cpu_body files) st t = foreach_loop fuel step dir_stop (cpu_body files) st t"
    for step st t
    by (rule foreach_loop_any_stop)
      (auto simp: cpu_body_def rbind_def Let_def split: option.splits sum.splits prod.splits)
  have "\<exists>m' n. foreach_loop fuel (\<lambda>(e, m). general_foreach_inode_entry oom fs (Some (?p @ 0 # ?r)) e DT_DIR m)
      dir_stop (cpu_body files) (Some zero_item, m) (0, fm) =
        Inr (Some ((Some zero_item, m'), visit (\<lambda>x (t, fm). (False, t + word_of_int (thread_ms files x), after_thread files x fm))
          (map (join_path ?p) (take n (names_of DT_DIR es))) (0, fm))) \<and>
      cells m' = cells m \<and> mem_ok m' \<and> ((\<forall>k. \<not> oom k) \<longrightarrow> n = length (names_of DT_DIR es))"
    by (rule dir_loop [OF gp assms(3,1) len]) (auto simp: cpu_body_at split: prod.split)
  then obtain m' n where r: "foreach_loop fuel (\<lambda>(e, m). general_foreach_inode_entry oom fs (Some (?p @ 0 # ?r)) e DT_DIR m)
      dir_stop (cpu_body files) (Some zero_item, m) (0, fm) =
        Inr (Some ((Some zero_item, m'), visit (\<lambda>x (t, fm). (False, t + word_of_int (thread_ms files x), after_thread files x fm))
          (map (join_path ?p) (take n (names_of DT_DIR es))) (0, fm)))"
      "cells m' = cells m" "(\<forall>k. \<not> oom k) \<longrightarrow> n = length (names_of DT_DIR es)"
    by blast
  have "join_path ?p = (\<lambda>d. ?p @ d)" using ne td(3) by (simp add: join_path_def fun_eq_iff)
  with r show ?thesis
    by (intro exI [of _ m'] exI [of _ "fold (after_thread files) (map (join_path ?p) (take n (names_of DT_DIR es))) fm"] exI [of _ n])
      (simp add: process_cpu_mtime_def sp stop general_foreach_dir_entry_def visit_sum comp_def after_threads [OF assms(5)])
qed

text \<open>C29: \<open>process_cpu_mtime\<close> adds up, over the threads of a process, the whole milliseconds of
  each; a thread that has ended meanwhile counts as 0.  Each thread is rounded down by itself and the
  sum is taken modulo the width of \<open>int\<close>.  The directory, the memory of the iteration
  and the stream opened for each thread are released.\<close>

theorem process_cpu_mtime_sum:
  assumes "fs (proc_path p ''/task/'') = Some es" "\<forall>e \<in> set es. no_nul (fst e) \<and> length (fst e) \<le> 255"
    and "mem_ok m" "mem_ok fm" "length es < fuel"
    and "\<forall>(d, t) \<in> set es. case files (proc_path p ''/task/'' @ d @ cbytes_of ''/schedstat'') of
        None \<Rightarrow> ns d = 0 | Some content \<Rightarrow> schedstat (ns d) content"
  shows "\<exists>m' fm' n. process_cpu_mtime fuel oom fs files p m fm =
      Inr (Some (word_of_nat (\<Sum>d \<leftarrow> take n (names_of DT_DIR es). ns d div 1000000), m', fm')) \<and>
    cells m' = cells m \<and> cells fm' = cells fm \<and> ((\<forall>k. \<not> oom k) \<longrightarrow> n = length (names_of DT_DIR es))"
proof -
  let ?p = "proc_path p ''/task/''"
  have ms: "thread_ms files (?p @ d) = int (ns d div 1000000)" if "d \<in> set (take n (names_of DT_DIR es))" for d n
  proof -
    have "d \<in> fst ` set es" using that names_of_set in_set_takeD by fastforce
    then obtain t where t: "(d, t) \<in> set es" by force
    then have d: "no_nul (?p @ d)" "length (?p @ d) \<le> 400"
      using assms(2) task_dir [of p] by (fastforce simp: cstr_simps)+
    have s: "case files ((?p @ d) @ cbytes_of ''/schedstat'') of None \<Rightarrow> ns d = 0 | Some content \<Rightarrow> schedstat (ns d) content"
      using assms(6) t by fastforce
    show ?thesis
    proof (cases "files ((?p @ d) @ cbytes_of ''/schedstat'')")
      case None
      have "cstr (take 511 ((?p @ d) @ cbytes_of ''/schedstat'') @ [0]) = (?p @ d) @ cbytes_of ''/schedstat''"
        by (rule path_cut [OF d(1,2)])
      then show ?thesis using None s by (simp add: thread_ms_def)
    next
      case (Some c)
      then show ?thesis using schedstat_ms [where files = files and x = "?p @ d"] d s by simp
    qed
  qed
  have "(\<Sum>d \<leftarrow> take n (names_of DT_DIR es). thread_ms files (?p @ d)) =
      int (\<Sum>d \<leftarrow> take n (names_of DT_DIR es). ns d div 1000000)" for n
    using ms [of _ n] sum_list_of_nat [of "map (\<lambda>d. ns d div 1000000) (take n (names_of DT_DIR es))"]
    by (simp add: comp_def cong: map_cong)
  then show ?thesis
    using cpu_mtime_run [where files = files and oom = oom and fs = fs and p = p and m = m and es = es and fuel = fuel and fm = fm]
      assms(1-5) by simp
qed

theorem process_cpu_mtime_sum_witness:
  "\<exists>m' fm'. process_cpu_mtime 9 (\<lambda>_. False) [cbytes_of ''/proc/12/task/'' \<mapsto> [(cbytes_of ''12'', 4), (cbytes_of ''13'', 4)]]
      [cbytes_of ''/proc/12/task/12/schedstat'' \<mapsto> dec_of_nat 7900000 @ cbytes_of '' 5 1'' @ [10]] 12
      \<lparr>cells = \<lambda>_. None, allocs = 0\<rparr> \<lparr>cells = [1 \<mapsto> []], allocs = 1\<rparr> = Inr (Some (7, m', fm')) \<and>
    cells m' = (\<lambda>_. None) \<and> cells fm' = [1 \<mapsto> []]"
proof -
  let ?es = "[(cbytes_of ''12'', 4), (cbytes_of ''13'', 4 :: nat)]"
  let ?c = "dec_of_nat 7900000 @ cbytes_of '' 5 1'' @ [10]"
  let ?fs = "[cbytes_of ''/proc/12/task/'' \<mapsto> ?es]" and ?files = "[cbytes_of ''/proc/12/task/12/schedstat'' \<mapsto> ?c]"
  let ?ns = "\<lambda>d. if d = cbytes_of ''12'' then 7900000 else (0 :: nat)"
  let ?m = "\<lparr>cells = \<lambda>_. None, allocs = 0\<rparr> :: dir_cell mem"
  let ?fm = "\<lparr>cells = [1 \<mapsto> []], allocs = 1\<rparr> :: cbytes mem"
  have path: "proc_path 12 ''/task/'' = cbytes_of ''/proc/12/task/''" by code_simp
  have names: "names_of DT_DIR ?es = [cbytes_of ''12'', cbytes_of ''13'']" by code_simp
  have len: "length (dec_of_nat 7900000) \<le> 7" using length_dec [of 7900000 6] by simp
  have stat: "schedstat 7900000 ?c"
    unfolding schedstat_def
    by (intro conjI exI [of _ "cbytes_of ''5 1''"]) (use len in \<open>simp_all add: cbytes_of_def\<close>)
  have "\<exists>m' fm' n. process_cpu_mtime 9 (\<lambda>_. False) ?fs ?files 12 ?m ?fm =
      Inr (Some (word_of_nat (\<Sum>d \<leftarrow> take n (names_of DT_DIR ?es). ?ns d div 1000000), m', fm')) \<and>
    cells m' = cells ?m \<and> cells fm' = cells ?fm \<and> ((\<forall>k :: nat. \<not> False) \<longrightarrow> n = length (names_of DT_DIR ?es))"
    by (rule process_cpu_mtime_sum [where ns = ?ns], unfold path)
      (use stat in \<open>auto simp: cbytes_of_def cstr_simps mem_ok_def\<close>)
  then show ?thesis
    unfolding names by (auto simp: cbytes_of_def)
qed

section \<open>The state of a process\<close>

text \<open>What the name field says: without its first character and a closing parenthesis at its end.\<close>

definition comm_of :: "cbytes \<Rightarrow> cbytes" where
  "comm_of v = (let t = take 255 (tl v) in if last t = 41 then butlast t else t)"

definition atoi_w :: "cbytes \<Rightarrow> 32 word" where
  "atoi_w s = word_of_int (c_atoi s)"

definition stat_of_words :: "cbytes list \<Rightarrow> cbytes \<Rightarrow> task_proc_stat" where
  "stat_of_words ws comm = \<lparr>ts_pid = atoi_w (ws ! 0), ts_comm = comm, ts_state = state_of (ws ! 2),
     ts_ppid = atoi_w (ws ! 3), ts_pgid = atoi_w (ws ! 4), ts_session = atoi_w (ws ! 5),
     ts_tty_nr_major = c_major (c_atoi (ws ! 6)), ts_tty_nr_minor = c_minor (c_atoi (ws ! 6)),
     ts_tpgid = atoi_w (ws ! 7), ts_flags = atoi_w (ws ! 8)\<rparr>"

lemma str_at_terminated:
  assumes "cstr (drop p bs) = s" "s \<noteq> []" "last bs = 0"
  shows "str_at bs p = Inr s"
proof -
  have "drop p bs \<noteq> []" using assms(1,2) by (auto simp: cstr_def)
  then have "p < length bs" by simp
  then have "last (drop p bs) = 0" using assms(3) by (simp add: last_drop)
  then have "0 \<in> set (drop p bs)" using \<open>drop p bs \<noteq> []\<close> last_in_set by metis
  then show ?thesis using assms(1) by (simp add: str_at_def text_of_def terminated_def)
qed

lemma str_at_tail:
  assumes "cstr (drop p bs) = c # s" "last bs = 0"
  shows "str_at bs (p + 1) = Inr s"
proof -
  obtain t where t: "drop p bs = c # t" "c \<noteq> 0"
    using assms(1) by (cases "drop p bs") (auto simp: cstr_def split: if_splits)
  have d: "drop (p + 1) bs = t" using t(1) by (metis drop_drop drop0 drop_Suc_Cons One_nat_def plus_1_eq_Suc add.commute)
  have "str_at bs p = Inr (c # s)" by (rule str_at_terminated [OF assms(1) _ assms(2)]) simp
  then have "0 \<in> set (c # t)" by (simp add: str_at_def text_of_def terminated_def t(1) split: if_splits)
  moreover have "cstr t = s" using assms(1) t by (simp add: cstr_def)
  ultimately show ?thesis using t(2) d by (simp add: str_at_def text_of_def terminated_def)
qed

lemma comm_store:
  assumes "c \<noteq> []" "no_nul c" "length buf = 256"
  shows "\<exists>b comm. c_snprintf buf 0 256 c = Inr b \<and> cut_last 41 b = Inr comm \<and> text_of comm = Inr (comm_of (x # c))"
proof -
  obtain l d where ld: "take 255 c = l @ [d]"
    using assms(1) by (cases "take 255 c" rule: rev_cases) auto
  have nn: "no_nul (l @ [d])"
    using assms(2) ld [symmetric] by (auto simp: no_nul_def dest: in_set_takeD)
  have len: "length (l @ [d]) \<le> 255" using ld [symmetric] by simp
  have b: "c_snprintf buf 0 256 c = Inr ((l @ [d]) @ 0 # drop (Suc (length (l @ [d]))) buf)"
    using len assms(3) by (simp add: c_snprintf_def ld memcpy_def)
  have "cstr (l @ (if d = 41 then 0 else d) # 0 # r) = comm_of (x # c)" for r
    using nn cstr_append_nul [of l "0 # r"] cstr_append_nul [OF nn, of r]
    by (simp add: comm_of_def ld cstr_simps)
  then have "text_of (l @ (if d = 41 then 0 else d) # 0 # r) = Inr (comm_of (x # c))" for r
    by (simp add: text_of_def terminated_def)
  then show ?thesis
    using b cut_last_line [OF nn, of 41] by blast
qed

lemma stat_fields_words:
  assumes "\<And>i. i < 9 \<Longrightarrow> field ! i = Some (offs i)" "\<And>i. i < 9 \<Longrightarrow> cstr (drop (offs i) bs) = ws ! i"
    "\<And>i. i < 9 \<Longrightarrow> ws ! i \<noteq> []" "last bs = 0" "ws ! 1 = 40 # c" "c \<noteq> []" "no_nul c" "length (ts_comm st) = 256"
  shows "\<exists>comm. stat_fields bs field st = Inr (stat_of_words ws comm) \<and> text_of comm = Inr (comm_of (ws ! 1))"
proof -
  have f: "field ! i = Some (offs i)" if "i < 9" for i by (rule assms(1) [OF that])
  have s: "str_at bs (offs i) = Inr (ws ! i)" if "i < 9" for i
    by (rule str_at_terminated [OF assms(2) assms(3) assms(4)]) (use that in auto)
  have s1: "str_at bs (offs 1 + 1) = Inr c"
    by (rule str_at_tail [OF _ assms(4), of _ 40]) (use assms(2) [of 1] assms(5) in simp)
  obtain b comm where b: "c_snprintf (ts_comm st) 0 256 c = Inr b" "cut_last 41 b = Inr comm" "text_of comm = Inr (comm_of (40 # c))"
    using comm_store [OF assms(6,7,8)] by blast
  have "stat_fields bs field st = Inr (stat_of_words ws comm)"
    using f [of 0] f [of 1] f [of 2] f [of 3] f [of 4] f [of 5] f [of 6] f [of 7] f [of 8]
      s [of 0] s [of 2] s [of 3] s [of 4] s [of 5] s [of 6] s [of 7] s [of 8] s1 b(1,2)
    by (simp add: stat_fields_def on_field_def atoi_at_def stat_of_words_def atoi_w_def)
  then show ?thesis using b(3) assms(5) by auto
qed

lemma stat_line_cut:
  fixes rest :: "(cbytes \<times> cbytes) list"
  assumes "field_word 32 w" "line_ok 32 rest" "8 \<le> length rest" "last (w @ line_tail 32 rest) \<noteq> 10"
    and "set z \<subseteq> {0 :: byte}"
  shows "\<exists>b offs. general_get_field (Some (w @ line_tail 32 rest @ [10] @ 0 # z)) 32 9 (Some (replicate 9 None))
      = Inr (0, Some b, Some offs) \<and> last b = 0 \<and>
    (\<forall>i < 9. \<exists>q. offs ! i = Some q \<and> cstr (drop q b) = (w # map snd rest) ! i)"
proof -
  let ?ws = "w # map snd rest"
  obtain s' offs where gf: "map (\<lambda>_. 0) [10 :: byte] @ 0 # z = 0 # s'"
    "general_get_field (Some (w @ line_tail 32 rest @ [10] @ 0 # z)) 32 (int 9) (Some (replicate 9 None))
      = Inr (0, Some (w @ cut_tail 32 (9 - 1) rest @ 0 # s'), Some (map Some offs @ drop (length offs) (replicate 9 None)))"
    "map (\<lambda>p. cstr (drop p (w @ cut_tail 32 (9 - 1) rest @ 0 # s'))) offs = take 9 ?ws"
    by (rule get_field_line [of 32 w rest 9 "replicate 9 None" "[10]" z]) (use assms(1,2,4) in auto)
  let ?b = "w @ cut_tail 32 (9 - 1) rest @ 0 # s'"
  have lo: "length offs = 9"
    using arg_cong [OF gf(3), of length] assms(3) by simp
  have lb: "last ?b = 0"
  proof -
    have "set (0 # s') \<subseteq> {0}" unfolding gf(1) [symmetric] using assms(5) by auto
    moreover have "last ?b = last (0 # s')" by simp
    ultimately show ?thesis using last_in_set [of "0 # s'"] by auto
  qed
  have st: "cstr (drop (offs ! i) ?b) = ?ws ! i" if "i < 9" for i
  proof -
    have "cstr (drop (offs ! i) ?b) = map (\<lambda>p. cstr (drop p ?b)) offs ! i"
      using that lo by (simp only: nth_map)
    also have "\<dots> = ?ws ! i"
      unfolding gf(3) by (rule nth_take [OF that])
    finally show ?thesis .
  qed
  show ?thesis
    using gf(2) lb st lo by (intro exI [of _ ?b] exI [of _ "map Some offs"]) simp
qed

lemma proc_stat_words:
  assumes "field_word 32 w" "line_ok 32 rest" "8 \<le> length rest" "10 \<notin> set (w @ line_tail 32 rest)"
    "length (w @ line_tail 32 rest) \<le> 2045" "snd (rest ! 0) = 40 # c" "c \<noteq> []"
    and "exists_file (proc_path p ''/stat'')" "length (ts_comm st) = 256"
    and "files (proc_path p ''/stat'') = Some ((w @ line_tail 32 rest) @ 10 # more_lines)"
  shows "\<exists>comm. taskutil_task_proc_stat exists_file files p (Some st) =
      Inr (0, Some (stat_of_words (w # map snd rest) comm)) \<and> text_of comm = Inr (comm_of (40 # c))"
proof -
  let ?l = "w @ line_tail 32 rest" and ?ws = "w # map snd rest"
  let ?z = "drop (length ?l + 2) (replicate 2048 (0 :: byte))"
  have "fgets_into (replicate 2048 0) 2048 (?l @ 10 # more_lines) = Inr (Some (?l @ 10 # 0 # ?z))"
    by (rule fgets_into_line) (use assms(4,5) in simp_all)
  then have fg: "fgets_into (replicate 2048 0) 2048 (?l @ 10 # more_lines) = Inr (Some (w @ line_tail 32 rest @ [10] @ 0 # ?z))"
    by simp
  have last: "last ?l \<noteq> 10"
    using assms(4) first_word(2) [OF assms(2,1)] last_in_set by metis
  have z: "set ?z \<subseteq> {0}" by (auto dest: in_set_dropD)
  obtain b fs where run: "general_get_field (Some (w @ line_tail 32 rest @ [10] @ 0 # ?z)) 32 9 (Some (replicate 9 None))
      = Inr (0, Some b, Some fs)" and lb: "last b = 0"
    and "\<forall>i < 9. \<exists>q. fs ! i = Some q \<and> cstr (drop q b) = ?ws ! i"
    using stat_line_cut [OF assms(1-3) last z] by blast
  then obtain offs where fi: "\<And>i. i < 9 \<Longrightarrow> fs ! i = Some (offs i)"
    and st: "\<And>i. i < 9 \<Longrightarrow> cstr (drop (offs i) b) = ?ws ! i"
    by metis
  have word: "?ws ! i \<noteq> [] \<and> no_nul (?ws ! i)" if "i < 9" for i
  proof -
    have "?ws ! i \<in> insert w (snd ` set rest)" using that assms(3) by (cases i) auto
    then show ?thesis using assms(1,2) by (auto simp: field_word_def line_ok_def)
  qed
  have ws1: "?ws ! 1 = 40 # c" using assms(3,6) by (cases rest) auto
  have nc: "no_nul c" using word [of 1] unfolding ws1 by (simp add: cstr_simps)
  obtain comm where comm: "stat_fields b fs st = Inr (stat_of_words ?ws comm)" "text_of comm = Inr (comm_of (?ws ! 1))"
    using stat_fields_words [OF fi st _ lb ws1 assms(7) nc assms(9)] word by blast
  have "taskutil_task_proc_stat exists_file files p (Some st) = Inr (0, Some (stat_of_words ?ws comm))"
    unfolding taskutil_task_proc_stat_def Let_def option.case assms(10) fg rbind_simps run prod.case option.sel comm(1)
    using assms(8) by simp
  then show ?thesis using comm(2) unfolding ws1 by blast
qed

text \<open>C27: \<open>taskutil_task_proc_stat\<close> reads the fields of a process by the words of its line: the number,
  the name up to its first space, and the state, parent, group, session, terminal and flags from
  the words that follow, which are the right ones exactly when the name has no space.\<close>

lemma taskutil_task_proc_stat_words:
  assumes "field_word 32 w" "line_ok 32 rest" "8 \<le> length rest" "10 \<notin> set (w @ line_tail 32 rest)"
    "length (w @ line_tail 32 rest) \<le> 2045" "snd (rest ! 0) = 40 # c" "c \<noteq> []"
    and "exists_file (proc_path p ''/stat'')" "length (ts_comm st) = 256"
    and "files (proc_path p ''/stat'') = Some ((w @ line_tail 32 rest) @ 10 # more_lines)"
  shows "\<exists>comm. taskutil_task_proc_stat exists_file files p (Some st) =
      Inr (0, Some (stat_of_words (w # map snd rest) comm)) \<and> cstr comm = comm_of (40 # c)"
  using proc_stat_words [where st = st and exists_file = exists_file and files = files, OF assms] text_of_cstr by blast

lemma taskutil_task_proc_stat_words_witness:
  "\<exists>st comm. taskutil_task_proc_stat (\<lambda>_. True)
      (\<lambda>_. Some (cbytes_of ''5 (tmux: server) S 1 5 5 0 -1 4194560'' @ [10])) 5 (Some zero_stat) = Inr (0, Some st) \<and>
    cstr (ts_comm st) = cbytes_of ''tmux:'' \<and> ts_state st = TASK_STAT_UNKNOW"
proof -
  let ?rest = "map (\<lambda>s. ([] :: cbytes, cbytes_of s)) [''(tmux:'', ''server)'', ''S'', ''1'', ''5'', ''5'', ''0'', ''-1'', ''4194560'']"
  have line: "cbytes_of ''5'' @ line_tail 32 ?rest = cbytes_of ''5 (tmux: server) S 1 5 5 0 -1 4194560''"
    by (simp add: cbytes_of_def)
  have ok: "field_word 32 (cbytes_of ''5'')" "line_ok 32 ?rest" "10 \<notin> set (cbytes_of ''5'' @ line_tail 32 ?rest)"
    by (simp_all add: field_word_def line_ok_def cbytes_of_def is_blank_def cstr_simps)
  have "\<exists>comm. taskutil_task_proc_stat (\<lambda>_. True)
      (\<lambda>_. Some (cbytes_of ''5 (tmux: server) S 1 5 5 0 -1 4194560'' @ [10])) 5 (Some zero_stat) =
      Inr (0, Some (stat_of_words (cbytes_of ''5'' # map snd ?rest) comm)) \<and> cstr comm = comm_of (40 # cbytes_of ''tmux:'')"
    by (rule taskutil_task_proc_stat_words [OF ok(1,2) _ ok(3)]) (simp_all add: line zero_stat_def, simp_all add: cbytes_of_def)
  moreover have "comm_of (40 # cbytes_of ''tmux:'') = cbytes_of ''tmux:''"
    by (simp add: comm_of_def cbytes_of_def)
  moreover have "ts_state (stat_of_words (cbytes_of ''5'' # map snd ?rest) comm) = TASK_STAT_UNKNOW" for comm
    by (simp add: stat_of_words_def state_of_def cbytes_of_def)
  moreover have "ts_comm (stat_of_words ws comm) = comm" for ws comm
    by (simp add: stat_of_words_def)
  ultimately show ?thesis by metis
qed

text \<open>A name that starts with a space leaves an empty name field, and the test of its last character
  reads before the array.\<close>

lemma stat_name_empty:
  assumes "length (ts_comm st) = 256"
  shows "rbind (c_snprintf (ts_comm st) 0 256 []) (cut_last 41) = Inl OutOfBounds"
proof -
  have "c_snprintf (ts_comm st) 0 256 [] = Inr (0 # drop 1 (ts_comm st))"
    using assms by (simp add: c_snprintf_def memcpy_def)
  moreover have "c_strlen (0 # drop 1 (ts_comm st)) 0 = Inr 0"
    using strlen_at [of "[]" "[]"] by (simp add: cstr_simps)
  ultimately show ?thesis by (simp add: cut_last_def)
qed

section \<open>The daemon\<close>

lemma close_from_closes:
  "close_from i n t fd = (if i \<le> fd \<and> fd < i + int n then None else t fd)"
  by (induction i n t arbitrary: fd rule: close_from.induct) auto

text \<open>C30: a run of \<open>taskutil_task_to_daemon\<close> in which no system call fails ends in the grandchild, in a
  session of its own and in the root directory, with the standard descriptors on \<open>/dev/null\<close>, every
  other descriptor below the limit closed and those from the limit on untouched (an unlimited process
  counts as 1024), and with \<open>SIGCHLD\<close> ignored.\<close>

lemma taskutil_task_to_daemon_runs:
  assumes "fork1 env = 0" "fork2 env = 0" "0 \<le> setsid_ret env" "0 \<le> null_fd env" "0 \<le> chdir_ret env"
    and "nofile_max env = Some lim"
  defines "N \<equiv> (if lim = RLIM_INFINITY then 1024 else unat lim)"
  shows "\<exists>s'. taskutil_task_to_daemon env False False False False s = Running s' \<and>
    new_session s' \<and> in_root s' \<and> chld_ignored s' \<and> umask_zero s' \<and>
    (\<forall>fd \<in> {0, 1, 2}. fd_table s' fd = Some ''/dev/null'') \<and>
    (\<forall>fd. 3 \<le> fd \<and> fd < int N \<longrightarrow> fd_table s' fd = None) \<and>
    (\<forall>fd. int N \<le> fd \<and> 3 \<le> fd \<and> fd \<noteq> null_fd env \<longrightarrow> fd_table s' fd = fd_table s fd)"
proof -
  let ?t = "close_from 3 (N - 3) (std_to_null (null_fd env) (fd_table s))"
  have run: "taskutil_task_to_daemon env False False False False s =
      Running (s\<lparr>new_session := True, fd_table := ?t, in_root := True, chld_ignored := True, umask_zero := True\<rparr>)"
    using assms(1-6) by (simp add: taskutil_task_to_daemon_def N_def Let_def)
  have null: "std_to_null (null_fd env) (fd_table s) fd = Some ''/dev/null''" if "fd \<in> {0, 1, 2}" for fd
    using that assms(4) by (auto simp: std_to_null_def Let_def)
  have other: "std_to_null (null_fd env) (fd_table s) fd = fd_table s fd" if "3 \<le> fd" "fd \<noteq> null_fd env" for fd
    using that assms(4) by (auto simp: std_to_null_def Let_def)
  show ?thesis
    unfolding run by (intro exI conjI, rule refl) (auto simp: close_from_closes null other)
qed

lemma taskutil_task_to_daemon_runs_witness:
  "\<exists>s'. taskutil_task_to_daemon \<lparr>fork1 = 0, fork2 = 0, setsid_ret = 9, null_fd = 3, nofile_max = Some 8, chdir_ret = 0\<rparr>
      False False False False
      \<lparr>fd_table = (\<lambda>_. Some ''log''), new_session = False, in_root = False, chld_ignored = False, umask_zero = False\<rparr>
      = Running s' \<and> fd_table s' 2 = Some ''/dev/null'' \<and> fd_table s' 7 = None \<and> fd_table s' 8 = Some ''log''"
proof -
  let ?env = "\<lparr>fork1 = 0, fork2 = 0, setsid_ret = 9, null_fd = 3, nofile_max = Some 8, chdir_ret = 0\<rparr>"
  have "RLIM_INFINITY \<noteq> 8" by (simp add: RLIM_INFINITY_def)
  then show ?thesis
    using taskutil_task_to_daemon_runs [of ?env 8
      "\<lparr>fd_table = (\<lambda>_. Some ''log''), new_session = False, in_root = False, chld_ignored = False, umask_zero = False\<rparr>"]
    by fastforce
qed

end
