(* ===== verification/Md5_Vectors.thy ===== *)
theory Md5_Vectors
  imports Gen_Md5
begin

text \<open>
  A known answer of the reference definition \<open>ref_md5\<close>, evaluated by the simplifier: the digest of
  \<open>hello\<close>, which is what \<open>teststring.c\<close> prints.  The words are kept reduced by doing every addition
  and rotation on integers.
\<close>

definition rot :: "nat \<Rightarrow> int \<Rightarrow> u32" where
  "rot n v = word_of_int (v * 2 ^ n mod 4294967296 + v div 2 ^ (32 - n))"

lemma word_add_uint: "(x :: u32) + y = word_of_int ((uint x + uint y) mod 4294967296)"
proof -
  have "uint (x + y) = (uint x + uint y) mod 4294967296" using uint_word_ariths(1) [of x y] by simp
  then show ?thesis by (metis word_of_int_uint)
qed

lemma rotl_rot:
  assumes "0 < n" "n < 32"
  shows "word_rotl n (x :: u32) = rot n (uint x)"
proof -
  have "push_bit n x AND drop_bit (32 - n) x = 0"
    by (rule bit_word_eqI) (auto simp: bit_simps dest: bit_imp_le_length)
  then have "push_bit n x OR drop_bit (32 - n) x = push_bit n x + drop_bit (32 - n) x"
    by (simp add: disjunctive_add_eq_or)
  moreover have "push_bit n x = word_of_int (uint x * 2 ^ n mod 4294967296)"
  proof -
    have "uint (push_bit n x) = uint x * 2 ^ n mod 4294967296"
      unfolding unsigned_push_bit_eq by (simp add: push_bit_eq_mult take_bit_eq_mod)
    then show ?thesis by (metis word_of_int_uint)
  qed
  moreover have "drop_bit (32 - n) x = word_of_int (uint x div 2 ^ (32 - n))"
  proof -
    have "uint (drop_bit (32 - n) x) = uint x div 2 ^ (32 - n)"
      using uint_lt2p [of x] unfolding unsigned_drop_bit_eq by (simp add: drop_bit_eq_div take_bit_int_eq_self)
    then show ?thesis by (metis word_of_int_uint)
  qed
  ultimately show ?thesis
    using assms by (simp add: rot_def flip: ROTATE_LEFT_rotl) (simp add: ROTATE_LEFT_def)
qed

lemma ref_s_range: "0 < ref_s i" "ref_s i < 32"
proof -
  have "i mod 4 = 0 \<or> i mod 4 = 1 \<or> i mod 4 = 2 \<or> i mod 4 = 3" by presburger
  then show "0 < ref_s i" "ref_s i < 32" by (auto simp: ref_s_def)
qed

lemma ref_step_uint: "ref_step x (a, b, c, d) i =
  (d, word_of_int ((uint (rot (ref_s i) ((uint a + uint (ref_f i b c d) + uint (x ! ref_k i) + uint (ref_T ! i)) mod 4294967296))
    + uint b) mod 4294967296), b, c)"
proof -
  have "uint (a + ref_f i b c d + x ! ref_k i + ref_T ! i) =
      (uint a + uint (ref_f i b c d) + uint (x ! ref_k i) + uint (ref_T ! i)) mod 4294967296"
    by (simp add: uint_word_ariths mod_simps)
  then show ?thesis
    by (simp add: ref_step_def rotl_rot ref_s_range word_add_uint [of "rot n v" b for n v])
qed

lemmas step_simps = ref_step_uint ref_f_def ref_k_def ref_s_def ref_T_def rot_def upt_rec

text \<open>A message of less than 56 bytes is one block.\<close>

lemma one_block:
  assumes "length (ref_pad m) = 64"
  shows "ref_md5 m = ref_bytes (quad_add ref_IV (foldl (ref_step (map (ref_word (ref_pad m)) [0..<16])) ref_IV [0..<64]))"
  using assms by (simp add: ref_md5_def ref_compress_def ref_absorb.simps [of _ "ref_pad m"] ref_absorb.simps [of _ "[]"])

lemma hello_pad: "ref_pad (cbytes_of ''hello'') = cbytes_of ''hello'' @ 0x80 # replicate 50 0 @ [40, 0, 0, 0, 0, 0, 0, 0]"
  by (simp add: ref_pad_def ref_le_def cbytes_of_def upt_rec)

lemma hello_words: "map (ref_word (ref_pad (cbytes_of ''hello''))) [0..<16] =
    [0x6c6c6568, 0x806f, 0, 0, 0, 0, 0, 0, 0, 0, 0, 0, 0, 0, 40, 0]"
  unfolding hello_pad by (simp add: ref_word_def cbytes_of_def upt_rec nth_append)

lemma hello_rounds: "foldl (ref_step [0x6c6c6568, 0x806f, 0, 0, 0, 0, 0, 0, 0, 0, 0, 0, 0, 0, 40, 0]) ref_IV [0..<64] =
    (3271237212, 2254217267, 4175598779, 2190656154)"
  by (simp add: ref_IV_def step_simps)

lemma md5_hello: "hex_of (ref_md5 (cbytes_of ''hello'')) = cbytes_of ''5d41402abc4b2a76b9719d911017c592''"
proof -
  have "length (ref_pad (cbytes_of ''hello'')) = 64" unfolding hello_pad by (simp add: cbytes_of_def)
  then have "ref_md5 (cbytes_of ''hello'') = ref_bytes (quad_add ref_IV (3271237212, 2254217267, 4175598779, 2190656154))"
    by (simp only: one_block hello_words hello_rounds)
  then show ?thesis
    by (simp add: ref_bytes_def ref_le_def quad_add_def ref_IV_def word_add_uint hex_of_def hexdigit_def cbytes_of_def upt_rec)
qed

end
