(* ===== verification/Ex_String.thy ===== *)
theory Ex_String
  imports Fcp_String Libc Md5_Vectors
begin

text \<open>
  The program \<open>src/src/example/teststring.c\<close>: trimming, the fields of a line, Base64, MD5 and the
  last component of a path, with what it prints.  Standard output is the list of the bytes written
  to it.  A \<open>%s\<close> argument is read up to its NUL (\<open>text_of\<close>, \<open>str_at\<close>), which faults when there is
  none.
\<close>

section \<open>Model\<close>

text \<open>Which allocations fail, the uninitialised objects, and the outcome of opening and reading
  \<open>/etc/passwd\<close>.\<close>

record string_env =
  field_fuel :: nat
  field_oom :: "nat \<Rightarrow> bool"
  code_alloc :: "nat \<Rightarrow> bool"
  junk_ctx :: md5_ctx
  junk_data :: cbytes
  passwd_fd :: int
  open_fds :: "int set"
  passwd_reads :: "read_result list"

definition strim_part :: "cbytes res" where
  "strim_part =
    rbind (fcp_strim (cbytes_of ''    dasdsa  '' @ replicate 88 0) 0) (\<lambda>(buff, p).
    rbind (str_at buff p) (\<lambda>s.
      Inr (cbytes_of ''#'' @ s @ cbytes_of ''#'' @ [10, 10])))"

text \<open>The body of the loop: it prints the field and asks to stop at \<open>222\<close>.\<close>

definition print_field :: "field_state \<Rightarrow> cbytes \<Rightarrow> (bool \<times> cbytes) res" where
  "print_field = (\<lambda>(entry, m) out.
    case entry of None \<Rightarrow> Inl NullDeref
    | Some e \<Rightarrow>
        rbind (get_chars (data_of e) m) (\<lambda>bs.
        rbind (text_of bs) (\<lambda>s.
          Inr (s = cbytes_of ''222'', out @ put_line (cbytes_of ''#'' @ s @ cbytes_of ''#'')))))"

definition field_part :: "string_env \<Rightarrow> field_cell mem \<Rightarrow> cbytes \<Rightarrow> (field_state \<times> cbytes) option res" where
  "field_part env m out =
    foreach_loop (field_fuel env)
      (\<lambda>(entry, m). fcp_foreach_field (field_oom env) (Some (cbytes_of ''  sa da 222  s33'' @ 0 # [])) 32 entry m)
      field_stop print_field (Some zero_item, m) out"

text \<open>A text the library has allocated belongs to the caller: an object of the heap, or \<open>NULL\<close>.\<close>

definition handed :: "cbytes option \<Rightarrow> cbytes mem \<Rightarrow> ptr \<times> cbytes mem" where
  "handed r h = (case r of None \<Rightarrow> (0, h) | Some bs \<Rightarrow> mem_alloc (\<lambda>_. False) bs h)"

definition decode_part :: "(nat \<Rightarrow> bool) \<Rightarrow> ptr \<Rightarrow> cbytes mem \<Rightarrow> cbytes \<Rightarrow> (cbytes \<times> cbytes mem) res" where
  "decode_part alloc tmpstr1 h out =
    rbind (mem_get tmpstr1 h) (\<lambda>bs1.
    rbind (fcp_base64_decode alloc bs1) (\<lambda>r.
    case handed r h of (tmpstr2, h) \<Rightarrow>
      if tmpstr2 = 0 then Inr (out, h)
      else
        rbind (mem_get tmpstr1 h) (\<lambda>bs1. rbind (text_of bs1) (\<lambda>code.
        rbind (mem_get tmpstr2 h) (\<lambda>bs2. rbind (text_of bs2) (\<lambda>s.
        let out = out @ put_line (cbytes_of ''base64 decode ['' @ code @ cbytes_of '']==>'' @ s) in
        rbind (mem_free tmpstr2 h) (\<lambda>h. Inr (out, h))))))))"

definition base64_part :: "(nat \<Rightarrow> bool) \<Rightarrow> cbytes mem \<Rightarrow> cbytes \<Rightarrow> (cbytes \<times> cbytes mem) res" where
  "base64_part alloc h out =
    rbind (fcp_base64_encode alloc (cbytes_of ''hello world'' @ 0 # [])) (\<lambda>r.
    case handed r h of (tmpstr1, h) \<Rightarrow>
      if tmpstr1 = 0 then Inr (out, h)
      else
        rbind (mem_get tmpstr1 h) (\<lambda>bs. rbind (text_of bs) (\<lambda>code.
        let out = out @ put_line (cbytes_of ''base64 encord[hello world]==>'' @ code) in
        rbind (decode_part alloc tmpstr1 h out) (\<lambda>(out, h).
        rbind (mem_free tmpstr1 h) (\<lambda>h. Inr (out, h))))))"

definition md5_part :: "string_env \<Rightarrow> cbytes \<Rightarrow> (cbytes \<times> int set) res" where
  "md5_part env out =
    rbind (fcp_string_md5 (junk_ctx env) (cbytes_of ''hello'' @ [0]) 5 (replicate 256 0)) (\<lambda>(ret, md5sum).
    rbind (if ret = 0 then rbind (text_of md5sum) (\<lambda>s. Inr (out @ put_line (cbytes_of ''string md5 [hello]=>'' @ s)))
           else Inr out) (\<lambda>out.
    rbind (fcp_file_md5 (junk_ctx env) (junk_data env) (passwd_fd env) (open_fds env) (passwd_reads env) md5sum)
      (\<lambda>(ret, md5sum, fds).
    rbind (if ret = 0 then rbind (text_of md5sum) (\<lambda>s. Inr (out @ put_line (cbytes_of ''file md5 [/etc/passwd]=>'' @ s)))
           else Inr out) (\<lambda>out.
      Inr (out, fds)))))"

definition path_part :: "cbytes \<Rightarrow> cbytes res" where
  "path_part out =
    (let path = cbytes_of ''/te/da/sss///'' @ [0] in
     rbind (strutils_path_last_component (Some path)) (\<lambda>tmpstr1.
       case tmpstr1 of None \<Rightarrow> Inr out
       | Some p \<Rightarrow>
           rbind (str_at path p) (\<lambda>s.
             Inr (out @ put_line (cbytes_of ''path[ /te/da/sss/// ]last component is '' @ s)))))"

text \<open>\<open>main\<close>: its value, what it has printed, the memory of the iterator, the heap of the Base64 texts
  and the descriptors it leaves.\<close>

definition teststring_main ::
    "string_env \<Rightarrow> field_cell mem \<Rightarrow> cbytes mem \<Rightarrow> (int \<times> cbytes \<times> field_cell mem \<times> cbytes mem \<times> int set) option res" where
  "teststring_main env m h =
    rbind strim_part (\<lambda>out.
    obind (field_part env m out) (\<lambda>((entry, m), out).
    rbind (base64_part (code_alloc env) h out) (\<lambda>(out, h).
    rbind (md5_part env out) (\<lambda>(out, fds).
    rbind (path_part out) (\<lambda>out.
      Inr (Some (0, out, m, h, fds)))))))"

section \<open>The parts\<close>

lemma strim_part_eq: "strim_part = Inr (cbytes_of ''#dasdsa#'' @ [10, 10])"
  by code_simp

lemma path_part_eq: "path_part out = Inr (out @ put_line (cbytes_of ''path[ /te/da/sss/// ]last component is sss///''))"
proof -
  have "strutils_path_last_component (Some (cbytes_of ''/te/da/sss///'' @ [0])) = Inr (Some 7)" by code_simp
  moreover have "str_at (cbytes_of ''/te/da/sss///'' @ [0]) 7 = Inr (cbytes_of ''sss///'')" by code_simp
  ultimately show ?thesis by (simp add: path_part_def Let_def cbytes_of_def)
qed

lemma hello_code: "ref_base64 (cbytes_of ''hello world'') = cbytes_of ''aGVsbG8gd29ybGQ=''"
  by code_simp

text \<open>The two lines, as far as the allocations of 17 and 12 bytes succeed.\<close>

definition code_lines :: "(nat \<Rightarrow> bool) \<Rightarrow> cbytes" where
  "code_lines alloc =
    (if alloc 17 then
       put_line (cbytes_of ''base64 encord[hello world]==>aGVsbG8gd29ybGQ='')
       @ (if alloc 12 then put_line (cbytes_of ''base64 decode [aGVsbG8gd29ybGQ=]==>hello world'') else [])
     else [])"

lemma sample_texts: "no_nul (cbytes_of ''hello world'')" "ascii (cbytes_of ''hello world'')"
    "length (cbytes_of ''hello world'') = 11" "no_nul (cbytes_of ''aGVsbG8gd29ybGQ='')"
  by code_simp+

lemma sample_encode:
  "fcp_base64_encode alloc (cbytes_of ''hello world'' @ 0 # []) =
    Inr (if alloc 17 then Some (cbytes_of ''aGVsbG8gd29ybGQ='' @ 0 # []) else None)"
proof (cases "alloc 17")
  case True
  then show ?thesis
    using encode_eq [of "cbytes_of ''hello world''" alloc "[]"] sample_texts by (simp add: fcp_base64_encode_def hello_code)
next
  case False
  have "terminated (cbytes_of ''hello world'' @ 0 # [])" "cstr (cbytes_of ''hello world'' @ 0 # []) = cbytes_of ''hello world''"
    using sample_texts(1) by (simp_all add: terminated_def cstr_append_nul)
  then show ?thesis
    using False sample_texts(3) by (simp add: fcp_base64_encode_def gen_base64_encode_def Let_def)
qed

lemma sample_decode:
  "fcp_base64_decode alloc (cbytes_of ''aGVsbG8gd29ybGQ='' @ 0 # []) =
    Inr (if alloc 12 then Some (cbytes_of ''hello world'' @ 0 # []) else None)"
proof (cases "alloc 12")
  case True
  then show ?thesis
    using decode_eq [of "cbytes_of ''hello world''" alloc "[]"] sample_texts by (simp add: fcp_base64_decode_def hello_code)
next
  case False
  have c: "terminated (cbytes_of ''aGVsbG8gd29ybGQ='' @ 0 # [])"
      "cstr (cbytes_of ''aGVsbG8gd29ybGQ='' @ 0 # []) = cbytes_of ''aGVsbG8gd29ybGQ=''"
    using sample_texts(4) by (simp_all add: terminated_def cstr_append_nul)
  have "\<not> has_pair (cbytes_of ''aGVsbG8gd29ybGQ='')" "61 \<in> set (cbytes_of ''aGVsbG8gd29ybGQ='')"
      "length (cbytes_of ''aGVsbG8gd29ybGQ='') = 16"
    by code_simp+
  then show ?thesis
    using False c by (simp add: fcp_base64_decode_def gen_base64_decode_def Let_def)
qed

text \<open>An object that is read and released leaves the heap as it was.\<close>

lemma handed_some:
  assumes "mem_ok h"
  obtains p h1 where "handed (Some bs) h = (p, h1)" "0 < p" "cells h p = None" "cells h1 = (cells h)(p \<mapsto> bs)" "mem_ok h1"
proof -
  obtain p h1 where "mem_alloc (\<lambda>_. False) bs h = (p, h1)" "0 < p" "cells h p = None"
      "cells h1 = (cells h)(p \<mapsto> bs)" "mem_ok h1"
    by (rule mem_alloc_some [OF assms, of "\<lambda>_. False" bs]) auto
  then show ?thesis using that by (simp add: handed_def)
qed

lemma mem_free_new:
  assumes "mem_ok h1" "0 < p" "cells h1 = b(p \<mapsto> bs)" "b p = None"
  obtains h2 where "mem_free p h1 = Inr h2" "cells h2 = b" "mem_ok h2"
  using mem_free_some [of h1 p] assms by (metis fun_upd_same fun_upd_triv fun_upd_upd option.distinct(1))

lemma decode_part_eq:
  assumes "mem_ok h" "cells h p = Some (cbytes_of ''aGVsbG8gd29ybGQ='' @ 0 # [])"
  shows "\<exists>h'. decode_part alloc p h out = Inr (out @ (if alloc 12 then
      put_line (cbytes_of ''base64 decode [aGVsbG8gd29ybGQ=]==>hello world'') else []), h') \<and> cells h' = cells h \<and> mem_ok h'"
proof (cases "alloc 12")
  case True
  obtain q h1 where q: "handed (Some (cbytes_of ''hello world'' @ 0 # [])) h = (q, h1)" "0 < q" "cells h q = None"
      "cells h1 = (cells h)(q \<mapsto> cbytes_of ''hello world'' @ 0 # [])" "mem_ok h1"
    using handed_some [OF assms(1)] .
  obtain h2 where h2: "mem_free q h1 = Inr h2" "cells h2 = cells h" "mem_ok h2"
    using mem_free_new [where b = "cells h", OF q(5,2,4,3)] .
  have "q \<noteq> p" using q(3) assms(2) by auto
  then have g: "mem_get p h1 = Inr (cbytes_of ''aGVsbG8gd29ybGQ='' @ 0 # [])" "mem_get q h1 = Inr (cbytes_of ''hello world'' @ 0 # [])"
    using q(4) assms(2) by (auto intro!: mem_get_some [OF q(5)])
  have "q \<noteq> 0" using q(2) by simp
  then have "decode_part alloc p h out = Inr (out @ put_line (cbytes_of ''base64 decode ['' @ cbytes_of ''aGVsbG8gd29ybGQ=''
      @ cbytes_of '']==>'' @ cbytes_of ''hello world''), h2)"
    by (simp only: decode_part_def mem_get_some [OF assms] sample_decode rbind_simps True if_True q(1) prod.case if_False
        g text_of_at [OF sample_texts(1)] text_of_at [OF sample_texts(4)] Let_def h2(1))
  then show ?thesis using True h2(2,3) by (simp add: put_line_def cbytes_of_def)
next
  case False
  then show ?thesis
    using assms by (simp add: decode_part_def mem_get_some [OF assms] sample_decode handed_def)
qed

lemma base64_part_eq:
  assumes "mem_ok h"
  shows "\<exists>h'. base64_part alloc h out = Inr (out @ code_lines alloc, h') \<and> cells h' = cells h"
proof (cases "alloc 17")
  case True
  obtain p h1 where p: "handed (Some (cbytes_of ''aGVsbG8gd29ybGQ='' @ 0 # [])) h = (p, h1)" "0 < p" "cells h p = None"
      "cells h1 = (cells h)(p \<mapsto> cbytes_of ''aGVsbG8gd29ybGQ='' @ 0 # [])" "mem_ok h1"
    using handed_some [OF assms] .
  have live: "cells h1 p = Some (cbytes_of ''aGVsbG8gd29ybGQ='' @ 0 # [])" using p(4) by simp
  let ?o = "out @ put_line (cbytes_of ''base64 encord[hello world]==>'' @ cbytes_of ''aGVsbG8gd29ybGQ='')"
  let ?l = "if alloc 12 then put_line (cbytes_of ''base64 decode [aGVsbG8gd29ybGQ=]==>hello world'') else []"
  obtain h2 where h2: "decode_part alloc p h1 ?o = Inr (?o @ ?l, h2)" "cells h2 = cells h1" "mem_ok h2"
    using decode_part_eq [OF p(5) live, of alloc ?o] by blast
  obtain h3 where h3: "mem_free p h2 = Inr h3" "cells h3 = cells h"
    using mem_free_new [where b = "cells h", OF h2(3) p(2) _ p(3)] h2(2) p(4) by metis
  have "p \<noteq> 0" using p(2) by simp
  then have "base64_part alloc h out = Inr (?o @ ?l, h3)"
    by (simp only: base64_part_def sample_encode rbind_simps True if_True p(1) prod.case if_False
        mem_get_some [OF p(5) live] text_of_at [OF sample_texts(4)] Let_def h2(1) h3(1))
  then show ?thesis using True h3(2) by (simp add: code_lines_def put_line_def cbytes_of_def)
next
  case False
  then show ?thesis by (simp add: base64_part_def sample_encode handed_def code_lines_def)
qed

lemma hexdigit_nz: "hexdigit v = 0 \<Longrightarrow> bit v 7"
proof -
  assume h: "hexdigit v = 0"
  have "v = 208 \<or> v = 169"
  proof (cases "v < 10")
    case True
    then have "48 + v = 208 + 48" using h by (simp add: hexdigit_def)
    then show ?thesis by (simp only: add.commute [of 48] add_right_cancel) simp
  next
    case False
    then have "87 + v = 169 + 87" using h by (simp add: hexdigit_def)
    then show ?thesis by (simp only: add.commute [of 87] add_right_cancel) simp
  qed
  then show "bit v 7" by auto
qed

lemma no_nul_hex_of: "no_nul (hex_of bs)"
proof -
  have "\<not> bit (drop_bit 4 v) 7" "\<not> bit (v AND 0xF) 7" for v :: byte
    by (simp_all add: bit_simps) (auto dest: bit_imp_le_length)
  then have "hexdigit (drop_bit 4 v) \<noteq> 0" "hexdigit (v AND 0xF) \<noteq> 0" for v
    using hexdigit_nz by blast+
  then show ?thesis by (auto simp: hex_of_def no_nul_def)
qed

lemma md5_part_eq:
  assumes "length (buffer (junk_ctx env)) = 64" "length (junk_data env) = 256"
    and "0 < passwd_fd env" "chunked (passwd_reads env) pw"
  shows "md5_part env out = Inr (out @ put_line (cbytes_of ''string md5 [hello]=>5d41402abc4b2a76b9719d911017c592'')
      @ put_line (cbytes_of ''file md5 [/etc/passwd]=>'' @ hex_of (ref_md5 pw)), open_fds env - {passwd_fd env})"
proof -
  have a: "fcp_string_md5 (junk_ctx env) (cbytes_of ''hello'' @ [0]) 5 (replicate 256 0) =
      Inr (0, hex_of (ref_md5 (cbytes_of ''hello'')) @ 0 # replicate 223 0)"
    using string_md5 [OF assms(1), of 5 "cbytes_of ''hello'' @ [0]" "replicate 256 0"]
    by (simp add: fcp_string_md5_def cbytes_of_def)
  have b: "fcp_file_md5 (junk_ctx env) (junk_data env) (passwd_fd env) (open_fds env) (passwd_reads env)
      (hex_of (ref_md5 (cbytes_of ''hello'')) @ 0 # replicate 223 0) =
    Inr (0, hex_of (ref_md5 pw) @ 0 # replicate 223 0, open_fds env - {passwd_fd env})"
    using file_md5 [OF assms(1,2) _ assms(3,4), of "hex_of (ref_md5 (cbytes_of ''hello'')) @ 0 # replicate 223 0"]
    by (simp add: fcp_file_md5_def)
  show ?thesis
    by (simp only: md5_part_def a b rbind_simps prod.case simp_thms if_True text_of_at [OF no_nul_hex_of] append_assoc)
      (simp only: md5_hello put_line_def, simp add: cbytes_of_def)
qed

text \<open>The fields that are printed.\<close>

lemma sample_fields: "fields_of 32 (strip_nl (cbytes_of ''  sa da 222  s33'')) = map cbytes_of [''sa'', ''da'', ''222'', ''s33'']"
  by (simp add: strip_nl_def cbytes_of_def fields_of.simps is_sep_def gen_isspace_def)

definition field_line :: "cbytes \<Rightarrow> cbytes" where
  "field_line w = put_line (cbytes_of ''#'' @ w @ cbytes_of ''#'')"

lemma print_field_at:
  assumes "field_at oom 32 base s st w xs"
  shows "print_field st out = Inr (cstr w = cbytes_of ''222'', out @ field_line (cstr w))"
proof -
  have "cstr (w @ replicate 10 0) = cstr w"
    by (induction w) (auto simp: cstr_def numeral_eq_Suc)
  then have "text_of (w @ replicate 10 0) = Inr (cstr w)"
    by (simp add: text_of_def terminated_def)
  then show ?thesis
    using assms by (auto simp: field_at_def print_field_def get_chars_def mem_get_some field_line_def dest: field_data(1))
qed

lemma visit_sample:
  "visit (\<lambda>w out. (cstr w = cbytes_of ''222'', out @ field_line (cstr w)))
      (take n (map cbytes_of [''sa'', ''da'', ''222'', ''s33''])) out =
    out @ concat (map field_line (take n (map cbytes_of [''sa'', ''da'', ''222''])))"
proof -
  have c: "cstr (cbytes_of ''sa'') = cbytes_of ''sa''" "cstr (cbytes_of ''da'') = cbytes_of ''da''"
    "cstr (cbytes_of ''222'') = cbytes_of ''222''" "cbytes_of ''sa'' \<noteq> cbytes_of ''222''" "cbytes_of ''da'' \<noteq> cbytes_of ''222''"
    by code_simp+
  have "n = 0 \<or> n = 1 \<or> n = 2 \<or> n = n - 3 + 3" by arith
  then consider "n = 0" | "n = 1" | "n = 2" | k where "n = k + 3" by blast
  then show ?thesis
    by cases (simp_all add: c numeral_2_eq_2 numeral_3_eq_3)
qed

lemma field_part_eq:
  assumes "mem_ok m" "4 < field_fuel env"
  shows "\<exists>e m' n. field_part env m out =
      Inr (Some ((e, m'), out @ concat (map field_line (take n (map cbytes_of [''sa'', ''da'', ''222'']))))) \<and>
    cells m' = cells m \<and> ((\<forall>k. \<not> field_oom env k) \<longrightarrow> 3 \<le> n)"
proof -
  let ?s = "cbytes_of ''  sa da 222  s33''"
  have s: "no_nul ?s" "?s \<noteq> []" by code_simp+
  let ?g = "\<lambda>w out. (cstr w = cbytes_of ''222'', out @ field_line (cstr w))"
  have body: "print_field st out = Inr (?g w out)"
    if "field_at (field_oom env) 32 (cells m) ?s st w xs" for st w xs out
    using that by (rule print_field_at)
  have key: "(32 :: byte) \<noteq> 0" by simp
  have len: "length (fields_of 32 (strip_nl ?s)) < field_fuel env" using assms(2) by (simp add: sample_fields)
  have "\<exists>e m' n. foreach_loop (field_fuel env) (\<lambda>(e, m). gen_foreach_field (field_oom env) (Some (?s @ 0 # [])) 32 e m)
      field_stop print_field (Some zero_item, m) out =
        Inr (Some ((e, m'), visit ?g (take n (fields_of 32 (strip_nl ?s))) out)) \<and>
      cells m' = cells m \<and> mem_ok m' \<and> ((\<forall>k. \<not> field_oom env k) \<longrightarrow> n = length (fields_of 32 (strip_nl ?s)))"
    by (rule field_loop [OF s key assms(1) len]) (rule body)
  then obtain e m' n where l: "foreach_loop (field_fuel env) (\<lambda>(e, m). gen_foreach_field (field_oom env) (Some (?s @ 0 # [])) 32 e m)
      field_stop print_field (Some zero_item, m) out =
        Inr (Some ((e, m'), visit ?g (take n (fields_of 32 (strip_nl ?s))) out))"
      "cells m' = cells m" "(\<forall>k. \<not> field_oom env k) \<longrightarrow> n = length (fields_of 32 (strip_nl ?s))"
    by blast
  show ?thesis
    using l unfolding sample_fields visit_sample
    by (intro exI [of _ e] exI [of _ m'] exI [of _ n]) (simp add: field_part_def fcp_foreach_field_def)
qed

section \<open>Properties\<close>

text \<open>C34: what \<open>teststring\<close> prints when \<open>/etc/passwd\<close> can be read: the trimmed text, the fields up to \<open>222\<close>
  (a beginning of them when an allocation of the iterator fails), the code of \<open>hello world\<close> and its
  decoding (as far as memory is available for them), the digests of \<open>hello\<close> and of the file,
  and the last component of the path, with its trailing slashes.  It returns 0 without a fault, the
  iterator has released its memory, both Base64 texts are freed, and the file is closed.\<close>

theorem teststring_prints:
  assumes "mem_ok m" "mem_ok h" "4 < field_fuel env"
    and "length (buffer (junk_ctx env)) = 64" "length (junk_data env) = 256"
    and "0 < passwd_fd env" "chunked (passwd_reads env) pw"
  shows "\<exists>n m' h'. teststring_main env m h =
      Inr (Some (0, cbytes_of ''#dasdsa#'' @ [10, 10]
        @ concat (map field_line (take n (map cbytes_of [''sa'', ''da'', ''222''])))
        @ code_lines (code_alloc env)
        @ put_line (cbytes_of ''string md5 [hello]=>5d41402abc4b2a76b9719d911017c592'')
        @ put_line (cbytes_of ''file md5 [/etc/passwd]=>'' @ hex_of (ref_md5 pw))
        @ put_line (cbytes_of ''path[ /te/da/sss/// ]last component is sss///''),
        m', h', open_fds env - {passwd_fd env})) \<and>
    cells m' = cells m \<and> cells h' = cells h \<and> ((\<forall>k. \<not> field_oom env k) \<longrightarrow> 3 \<le> n)"
proof -
  obtain e m' n where f: "field_part env m (cbytes_of ''#dasdsa#'' @ [10, 10]) =
      Inr (Some ((e, m'), (cbytes_of ''#dasdsa#'' @ [10, 10])
        @ concat (map field_line (take n (map cbytes_of [''sa'', ''da'', ''222''])))))"
      "cells m' = cells m" "(\<forall>k. \<not> field_oom env k) \<longrightarrow> 3 \<le> n"
    using field_part_eq [OF assms(1,3)] by blast
  let ?o = "cbytes_of ''#dasdsa#'' @ [10, 10] @ concat (map field_line (take n (map cbytes_of [''sa'', ''da'', ''222''])))"
  obtain h' where h': "base64_part (code_alloc env) h ?o = Inr (?o @ code_lines (code_alloc env), h')" "cells h' = cells h"
    using base64_part_eq [OF assms(2)] by blast
  show ?thesis
    by (rule exI [of _ n], rule exI [of _ m'], rule exI [of _ h'], intro conjI f(2,3) h'(2))
      (simp only: teststring_main_def strim_part_eq f(1) h'(1) rbind_simps obind_simps prod.case
        md5_part_eq [OF assms(4-7)] path_part_eq append_assoc)
qed

theorem teststring_prints_witness:
  "\<exists>n m' h'. teststring_main
      \<lparr>field_fuel = 5, field_oom = \<lambda>_. False, code_alloc = \<lambda>_. True,
       junk_ctx = \<lparr>count = (5, 5), state = (0, 0, 0, 0), buffer = replicate 64 0\<rparr>, junk_data = replicate 256 8,
       passwd_fd = 3, open_fds = {0, 3}, passwd_reads = [ReadData (cbytes_of ''hello'')]\<rparr>
      \<lparr>cells = \<lambda>_. None, allocs = 0\<rparr> \<lparr>cells = \<lambda>_. None, allocs = 0\<rparr> =
      Inr (Some (0, cbytes_of ''#dasdsa#'' @ [10, 10]
        @ concat (map field_line (take n (map cbytes_of [''sa'', ''da'', ''222''])))
        @ put_line (cbytes_of ''base64 encord[hello world]==>aGVsbG8gd29ybGQ='')
        @ put_line (cbytes_of ''base64 decode [aGVsbG8gd29ybGQ=]==>hello world'')
        @ put_line (cbytes_of ''string md5 [hello]=>5d41402abc4b2a76b9719d911017c592'')
        @ put_line (cbytes_of ''file md5 [/etc/passwd]=>'' @ cbytes_of ''5d41402abc4b2a76b9719d911017c592'')
        @ put_line (cbytes_of ''path[ /te/da/sss/// ]last component is sss///''),
        m', h', {0})) \<and>
    cells m' = (\<lambda>_. None) \<and> cells h' = (\<lambda>_. None) \<and> 3 \<le> n"
proof -
  let ?env = "\<lparr>field_fuel = 5, field_oom = \<lambda>_. False, code_alloc = \<lambda>_. True,
       junk_ctx = \<lparr>count = (5, 5), state = (0, 0, 0, 0), buffer = replicate 64 0\<rparr>, junk_data = replicate 256 8,
       passwd_fd = 3, open_fds = {0, 3}, passwd_reads = [ReadData (cbytes_of ''hello'')]\<rparr>"
  have "chunked (passwd_reads ?env) (cbytes_of ''hello'')" by (simp add: cbytes_of_def)
  then show ?thesis
    using teststring_prints [of "\<lparr>cells = \<lambda>_. None, allocs = 0\<rparr>" "\<lparr>cells = \<lambda>_. None, allocs = 0\<rparr>" ?env "cbytes_of ''hello''"]
    by (simp add: mem_ok_def md5_hello insert_Diff_if code_lines_def)
qed

end
