(* ===== verification/Ex_Signal.thy ===== *)
theory Ex_Signal
  imports Fcp_Signal Libc
begin

text \<open>
  The program \<open>src/src/example/testsignal.c\<close>: it handles \<open>SIGINT\<close> once and then sleeps for ever.
  The main program never ends by itself, so what happens to it is a function of the signals that
  are delivered; a handler runs with all signals blocked (\<open>sa_mask\<close>), hence without interruption.
\<close>

section \<open>Model\<close>

definition SIGINT :: int where "SIGINT = 2"

datatype program_handler = Dealhandler

definition dealhandler ::
    "sig_os \<Rightarrow> int \<Rightarrow> program_handler sig_state \<times> cbytes \<Rightarrow> program_handler sig_state \<times> cbytes" where
  "dealhandler os sig = (\<lambda>(s, out).
    let out = out @ put_line (cbytes_of ''hello '' @ dec_of_int sig) in
    case sigutil_sig_del os sig s of (ret, s) \<Rightarrow>
      (s, if ret \<noteq> 0 then out @ put_line (cbytes_of ''del sig '' @ dec_of_int sig @ cbytes_of '' is error'') else out))"

text \<open>The process: sleeping, with its signal state and what it has printed, or ended by a signal.\<close>

datatype process = Sleeping "program_handler sig_state" cbytes | Ended int cbytes

text \<open>The delivery of a signal; \<open>fatal\<close> are the signals whose default action ends a process.\<close>

fun deliver :: "sig_os \<Rightarrow> (int \<Rightarrow> bool) \<Rightarrow> int \<Rightarrow> process \<Rightarrow> process" where
  "deliver os fatal sig (Sleeping s out) =
    (case sa_handler (disposition s sig) of
       SIG_DFL \<Rightarrow> if fatal sig then Ended sig out else Sleeping s out
     | SIG_IGN \<Rightarrow> Sleeping s out
     | Handler Dealhandler \<Rightarrow> (case dealhandler os sig (s, out) of (s, out) \<Rightarrow> Sleeping s out))"
| "deliver os fatal sig (Ended i out) = Ended i out"

definition testsignal_start :: "sig_os \<Rightarrow> program_handler sig_state \<Rightarrow> process" where
  "testsignal_start os s =
    (case sigutil_sig_add os SIGINT (Handler Dealhandler) s of (ret, s) \<Rightarrow>
       Sleeping s (if ret \<noteq> 0 then put_line (cbytes_of ''add SIGINT error'') else []))"

text \<open>\<open>main\<close> up to the moment the signals \<open>sigs\<close> have been delivered.\<close>

definition testsignal_main :: "sig_os \<Rightarrow> (int \<Rightarrow> bool) \<Rightarrow> program_handler sig_state \<Rightarrow> int list \<Rightarrow> process" where
  "testsignal_main os fatal s sigs = fold (deliver os fatal) sigs (testsignal_start os s)"

section \<open>The phases\<close>

text \<open>The handler is in place and what it replaced is saved; afterwards all is as at the start.\<close>

definition armed :: "program_handler sig_state \<Rightarrow> program_handler sig_state \<Rightarrow> bool" where
  "armed s0 s \<longleftrightarrow> (\<exists>r M. disposition s = (disposition s0)(SIGINT := \<lparr>sa_handler = Handler Dealhandler, sa_restart = r, sa_mask = M\<rparr>)) \<and>
    g_oldsig s SIGINT = \<lparr>sv_inited = True, oldsig = disposition s0 SIGINT\<rparr>"

definition restored :: "program_handler sig_state \<Rightarrow> program_handler sig_state \<Rightarrow> bool" where
  "restored s0 s \<longleftrightarrow> disposition s = disposition s0"

definition harmless :: "(int \<Rightarrow> bool) \<Rightarrow> program_handler sig_state \<Rightarrow> int \<Rightarrow> bool" where
  "harmless fatal s i \<longleftrightarrow> sa_handler (disposition s i) = SIG_IGN \<or> sa_handler (disposition s i) = SIG_DFL \<and> \<not> fatal i"

lemma start_armed:
  assumes "can_catch os SIGINT"
  shows "\<exists>s. testsignal_start os s0 = Sleeping s [] \<and> armed s0 s"
  using assms by (auto simp: testsignal_start_def sigutil_sig_add_def os_sigaction_def armed_def SIGINT_def NSIG_def Let_def)

lemma deliver_armed:
  assumes "armed s0 s" "can_catch os SIGINT"
  shows "\<exists>t. deliver os fatal SIGINT (Sleeping s out) = Sleeping t (out @ put_line (cbytes_of ''hello 2'')) \<and> restored s0 t"
proof -
  have "dec_of_int SIGINT = cbytes_of ''2''" by code_simp
  then show ?thesis
    using assms
    by (auto simp: armed_def restored_def dealhandler_def sigutil_sig_del_def os_sigaction_def Let_def SIGINT_def NSIG_def cbytes_of_def)
qed

lemma deliver_restored:
  assumes "restored s0 s" "sa_handler (disposition s0 SIGINT) = SIG_DFL" "fatal SIGINT"
  shows "deliver os fatal SIGINT (Sleeping s out) = Ended SIGINT out"
  using assms by (simp add: restored_def)

lemma deliver_harmless:
  assumes "armed s0 s \<or> restored s0 s" "harmless fatal s0 i" "i \<noteq> SIGINT"
  shows "deliver os fatal i (Sleeping s out) = Sleeping s out"
  using assms by (auto simp: armed_def restored_def harmless_def)

lemma ended_stays: "fold (deliver os fatal) sigs (Ended i out) = Ended i out"
  by (induction sigs) auto

lemma from_restored:
  assumes "restored s0 s" "sa_handler (disposition s0 SIGINT) = SIG_DFL" "fatal SIGINT"
    and "\<forall>i \<in> set sigs. i \<noteq> SIGINT \<longrightarrow> harmless fatal s0 i"
  shows "fold (deliver os fatal) sigs (Sleeping s out) = (if SIGINT \<in> set sigs then Ended SIGINT out else Sleeping s out)"
  using assms(4)
proof (induction sigs)
  case (Cons i sigs)
  then show ?case
    using deliver_restored [where s = s and os = os and fatal = fatal and out = out, OF assms(1) assms(2,3)]
      deliver_harmless [of s0 s fatal i os out] assms(1)
    by (cases "i = SIGINT") (auto simp: ended_stays)
qed simp

lemma from_armed:
  assumes "armed s0 s" "can_catch os SIGINT" "sa_handler (disposition s0 SIGINT) = SIG_DFL" "fatal SIGINT"
    and "\<forall>i \<in> set sigs. i \<noteq> SIGINT \<longrightarrow> harmless fatal s0 i"
  shows "\<exists>t. fold (deliver os fatal) sigs (Sleeping s []) =
    (if count_list sigs SIGINT = 0 then Sleeping t []
     else if count_list sigs SIGINT = 1 then Sleeping t (put_line (cbytes_of ''hello 2''))
     else Ended SIGINT (put_line (cbytes_of ''hello 2'')))"
  using assms(5)
proof (induction sigs)
  case (Cons i sigs)
  show ?case
  proof (cases "i = SIGINT")
    case True
    obtain t where t: "deliver os fatal SIGINT (Sleeping s []) = Sleeping t (put_line (cbytes_of ''hello 2''))" "restored s0 t"
      using deliver_armed [OF assms(1,2), of fatal "[]"] by auto
    have "(SIGINT \<in> set sigs) = (count_list sigs SIGINT \<noteq> 0)" by (simp add: count_list_0_iff)
    then show ?thesis
      using from_restored [where s = t and fatal = fatal and os = os and sigs = sigs and out = "put_line (cbytes_of ''hello 2'')",
          OF t(2) assms(3,4)] Cons.prems t(1) True by simp
  next
    case False
    then have "fold (deliver os fatal) (i # sigs) (Sleeping s []) = fold (deliver os fatal) sigs (Sleeping s [])"
        "count_list (i # sigs) SIGINT = count_list sigs SIGINT"
      using Cons.prems deliver_harmless [of s0 s fatal i os "[]"] assms(1) by simp_all
    then show ?thesis
      using Cons.IH Cons.prems by (simp only:) simp
  qed
qed simp

section \<open>Properties\<close>

text \<open>C39: \<open>testsignal\<close> prints \<open>hello 2\<close> at its first \<open>SIGINT\<close> and is ended by its second one, because the
  handler puts back the disposition the signal had; before them, and in between, it sleeps on, whatever
  other signals are delivered that the process ignores.\<close>

theorem testsignal_second_interrupt:
  assumes "can_catch os SIGINT" "sa_handler (disposition s SIGINT) = SIG_DFL" "fatal SIGINT"
    and "\<forall>i \<in> set sigs. i \<noteq> SIGINT \<longrightarrow> harmless fatal s i"
  shows "\<exists>t. testsignal_main os fatal s sigs =
    (if count_list sigs SIGINT = 0 then Sleeping t []
     else if count_list sigs SIGINT = 1 then Sleeping t (put_line (cbytes_of ''hello 2''))
     else Ended SIGINT (put_line (cbytes_of ''hello 2'')))"
proof -
  obtain s1 where "testsignal_start os s = Sleeping s1 []" "armed s s1" using start_armed [OF assms(1)] by blast
  then show ?thesis
    using from_armed [OF _ assms] by (simp add: testsignal_main_def)
qed

text \<open>Two interrupts, with a \<open>SIGCHLD\<close> in between.\<close>

definition first_sigs :: "program_handler sig_state" where
  "first_sigs = \<lparr>disposition = (\<lambda>_. \<lparr>sa_handler = SIG_DFL, sa_restart = False, sa_mask = {}\<rparr>),
     blocked = {}, history = [],
     g_oldsig = (\<lambda>_. \<lparr>sv_inited = False, oldsig = \<lparr>sa_handler = SIG_DFL, sa_restart = False, sa_mask = {}\<rparr>\<rparr>),
     g_promasksig = \<lparr>pm_inited = False, promasksig = {}\<rparr>\<rparr>"

theorem testsignal_second_interrupt_witness:
  "testsignal_main linux_sigs (\<lambda>i. i \<noteq> 17) first_sigs [17, 2, 17, 2, 17] = Ended 2 (cbytes_of ''hello 2'' @ [10])"
proof -
  have "\<exists>t. testsignal_main linux_sigs (\<lambda>i. i \<noteq> 17) first_sigs [17, 2, 17, 2, 17] =
      (if count_list [17, 2, 17, 2, 17] SIGINT = 0 then Sleeping t []
       else if count_list [17, 2, 17, 2, 17] SIGINT = 1 then Sleeping t (put_line (cbytes_of ''hello 2''))
       else Ended SIGINT (put_line (cbytes_of ''hello 2'')))"
    by (rule testsignal_second_interrupt) (auto simp: linux_sigs_def first_sigs_def SIGINT_def harmless_def)
  then show ?thesis by (simp add: SIGINT_def put_line_def)
qed

end
