(* ===== verification/Ex_Socket.thy ===== *)
theory Ex_Socket
  imports Fcp_Socket Libc
begin

text \<open>
  The programs \<open>src/src/example/acceptser.c\<close> and \<open>acceptcli.c\<close>: a server that echoes one message and
  the client that sends it.  As in \<open>Kernel_Fds\<close> the outcome of the \<open>n\<close>-th system call is \<open>ans n\<close>, for
  \<open>read\<close> and \<open>write\<close> the number of bytes; \<open>incoming\<close> are the bytes the other side has sent.
\<close>

section \<open>Reading and writing\<close>

definition k_write :: "int \<Rightarrow> cbytes \<Rightarrow> answers \<Rightarrow> kern \<Rightarrow> int \<times> kern" where
  "k_write fd bs ans k =
    (if fds k fd = None \<or> ans (turn k) < 0 then (-1, tick k)
     else (min (ans (turn k)) (int (length bs)), tick k))"

definition k_read :: "int \<Rightarrow> nat \<Rightarrow> cbytes \<Rightarrow> answers \<Rightarrow> kern \<Rightarrow> cbytes option \<times> kern" where
  "k_read fd len incoming ans k =
    (if fds k fd = None \<or> ans (turn k) < 0 then (None, tick k)
     else (Some (take (nat (ans (turn k))) (take len incoming)), tick k))"

text \<open>\<open>read\<close> into the 256 zero bytes of \<open>buff\<close>: a result of 0 or less stores nothing.\<close>

definition read_buff :: "cbytes option \<Rightarrow> cbytes option res" where
  "read_buff r =
    (case r of None \<Rightarrow> Inr None
     | Some bs \<Rightarrow> if bs = [] then Inr None
         else rbind (memcpy (replicate 256 0) 0 bs 0 (length bs)) (\<lambda>buff. Inr (Some buff)))"

section \<open>The server\<close>

text \<open>What the server has printed and sent, or the fault it has run into.\<close>

type_synonym session = "(cbytes \<times> cbytes) res"

definition net_accept_callbck ::
    "answers \<Rightarrow> cbytes \<Rightarrow> int \<Rightarrow> cbytes \<Rightarrow> nat \<Rightarrow> kern \<times> session \<Rightarrow> int \<times> kern \<times> session" where
  "net_accept_callbck ans incoming sockfd addr addrlen = (\<lambda>(k, a).
    case k_read sockfd 256 incoming ans k of (r, k) \<Rightarrow>
    case rbind a (\<lambda>(out, sent).
         rbind (read_buff r) (\<lambda>b.
         rbind (case b of None \<Rightarrow> Inr (out @ put_line (cbytes_of ''server: read error''), replicate 256 0)
                | Some buff \<Rightarrow> rbind (text_of buff) (\<lambda>s. Inr (out @ put_line (cbytes_of ''Server: read '' @ s), buff)))
           (\<lambda>(out, buff). rbind (text_of buff) (\<lambda>s. Inr (out, sent, s))))) of
      Inl e \<Rightarrow> (0, k, Inl e)
    | Inr (out, sent, s) \<Rightarrow>
        (case k_write sockfd s ans k of (n, k) \<Rightarrow>
           (0, k_close sockfd k,
            Inr (if n \<le> 0 then (out @ put_line (cbytes_of ''Server: write error''), sent)
                 else (out @ put_line (cbytes_of ''Server: write '' @ s), sent @ take (nat n) s)))))"

definition net_set_listen_sock :: "answers \<Rightarrow> int \<Rightarrow> kern \<times> session \<Rightarrow> int \<times> kern \<times> session" where
  "net_set_listen_sock ans listensock = (\<lambda>(k, a).
    case netutil_socket_reuse_addr listensock ans k of (_, k) \<Rightarrow> (0, k, a))"

text \<open>\<open>main\<close>: its value, what it printed, the descriptors, and what it sent.\<close>

definition acceptser_main :: "answers \<Rightarrow> cbytes \<Rightarrow> cbytes \<Rightarrow> kern \<Rightarrow> (int \<times> cbytes \<times> kern \<times> cbytes) res" where
  "acceptser_main ans peer incoming k =
    rbind (netutil_socket_accept ans peer (-1) 16 (Some (net_set_listen_sock ans))
             (Some (net_accept_callbck ans incoming)) (k, Inr ([], []))) (\<lambda>(sockfd, k, a).
    rbind a (\<lambda>(out, sent).
      Inr (0, if sockfd \<le> 0 then out @ put_line (cbytes_of ''create accept error'') else out, k, sent)))"

section \<open>The client\<close>

text \<open>\<open>args\<close> are the arguments after the program's name, \<open>aton\<close> tells which texts \<open>inet_aton\<close> accepts.\<close>

definition acceptcli_main ::
    "answers \<Rightarrow> (cbytes \<Rightarrow> bool) \<Rightarrow> cbytes list \<Rightarrow> cbytes \<Rightarrow> kern \<Rightarrow> (int \<times> cbytes \<times> kern \<times> cbytes) res" where
  "acceptcli_main ans aton args incoming k =
    (case args of [] \<Rightarrow> Inr (-1, put_line (cbytes_of ''Usage acceptcli  ip ....''), k, [])
     | ip # _ \<Rightarrow>
         if \<not> aton ip then Inr (-1, put_line (cbytes_of ''conver '' @ ip @ cbytes_of '' to net is error''), k, [])
         else case netutil_socket_block_connect ans k of (sockfd, k) \<Rightarrow>
           if sockfd \<le> 0 then Inr (-1, put_line (cbytes_of ''connect error''), k, [])
           else case k_write sockfd (cbytes_of ''hello'') ans k of (n, k) \<Rightarrow>
             let out = (if n \<le> 0 then put_line (cbytes_of ''send data error'') else put_line (cbytes_of ''****Write: hello''));
                 sent = take (nat n) (cbytes_of ''hello'') in
             case k_read sockfd 256 incoming ans k of (r, k) \<Rightarrow>
             rbind (read_buff r) (\<lambda>b.
             rbind (case b of None \<Rightarrow> Inr (out @ put_line (cbytes_of ''read error''))
                    | Some buff \<Rightarrow> rbind (text_of buff) (\<lambda>s. Inr (out @ put_line (cbytes_of ''***read: '' @ s)))) (\<lambda>out.
               Inr (0, out, k_close sockfd k, sent))))"

section \<open>A message\<close>

lemma read_buff_some:
  assumes "d \<noteq> []" "length d \<le> 256"
  shows "read_buff (Some d) = Inr (Some (d @ replicate (256 - length d) 0))"
  using assms by (simp add: read_buff_def memcpy_def)

lemma text_of_padded:
  "text_of (d @ replicate n 0) = (if 0 \<in> set d \<or> 0 < n then Inr (cstr d) else Inl OutOfBounds)"
proof (cases "0 \<in> set d")
  case True
  then have "takeWhile (\<lambda>b. b \<noteq> 0) (d @ replicate n 0) = takeWhile (\<lambda>b. b \<noteq> 0) d"
    by (metis (full_types) takeWhile_append1)
  with True show ?thesis by (simp add: text_of_def terminated_def cstr_def)
next
  case False
  then have d: "no_nul d" by (simp add: no_nul_def)
  show ?thesis
  proof (cases n)
    case 0
    with False show ?thesis by (simp add: text_of_def terminated_def)
  next
    case (Suc k)
    then show ?thesis using text_of_at [OF d, of "replicate k 0"] d by (simp add: cstr_no_nul)
  qed
qed

lemma callback_message:
  assumes "fds k sockfd \<noteq> None" "0 < ans (turn k)" "0 < ans (Suc (turn k))"
    and d: "d = take (nat (ans (turn k))) (take 256 incoming)" "d \<noteq> []" "cstr d \<noteq> []"
  shows "net_accept_callbck ans incoming sockfd addr n (k, Inr ([], [])) =
    (if 0 \<in> set d \<or> length d < 256
     then (0, k_close sockfd (tick (tick k)),
       Inr (put_line (cbytes_of ''Server: read '' @ cstr d) @ put_line (cbytes_of ''Server: write '' @ cstr d),
         take (nat (ans (Suc (turn k)))) (cstr d)))
     else (0, tick k, Inl OutOfBounds))"
proof -
  have len: "length d \<le> 256" using d(1) by simp
  have rd: "k_read sockfd 256 incoming ans k = (Some d, tick k)" using assms(1,2) d(1) by (simp add: k_read_def)
  have w: "k_write sockfd (cstr d) ans (tick k) = (min (ans (Suc (turn k))) (int (length (cstr d))), tick (tick k))"
    using assms(1,3) by (auto simp: k_write_def tick_def)
  have pos: "\<not> min (ans (Suc (turn k))) (int (length (cstr d))) \<le> 0" using assms(3) d(3) by (simp add: not_le)
  have t: "take (nat (min (ans (Suc (turn k))) (int (length (cstr d))))) (cstr d) = take (nat (ans (Suc (turn k)))) (cstr d)"
    by (simp add: min_def)
  show ?thesis
  proof (cases "0 \<in> set d \<or> length d < 256")
    case True
    then have "text_of (d @ replicate (256 - length d) 0) = Inr (cstr d)" using text_of_padded [of d "256 - length d"] by auto
    then show ?thesis
      using True pos by (simp add: net_accept_callbck_def rd read_buff_some [OF d(2) len] w t del: min_le_iff_disj)
  next
    case False
    then have "text_of (d @ replicate (256 - length d) 0) = Inl OutOfBounds" using text_of_padded [of d "256 - length d"] by auto
    then show ?thesis
      using False by (simp add: net_accept_callbck_def rd read_buff_some [OF d(2) len])
  qed
qed

text \<open>The calls of a server that gets its client: \<open>socket\<close>, \<open>bind\<close>, \<open>listen\<close>, \<open>accept\<close>, \<open>read\<close>, \<open>write\<close>.\<close>

definition served :: "answers \<Rightarrow> cbytes \<Rightarrow> kern \<Rightarrow> bool" where
  "served ans peer k \<longleftrightarrow> length peer \<le> 16 \<and>
    0 < ans (turn k) \<and> fds k (ans (turn k)) = None \<and> 0 \<le> ans (turn k + 1) \<and> 0 \<le> ans (turn k + 2) \<and>
    0 < ans (turn k + 3) \<and> ans (turn k + 3) \<noteq> ans (turn k) \<and> fds k (ans (turn k + 3)) = None \<and>
    0 < ans (turn k + 4) \<and> 0 < ans (turn k + 5)"

definition plain_fd :: fd_entry where
  "plain_fd = \<lparr>status_flags = 0, fd_flags = 0, sock_opts = []\<rparr>"

text \<open>The server up to the callback.\<close>

lemma accept_calls_back:
  assumes "served ans peer k"
  shows "\<exists>cli k1. fds k1 = (fds k)(ans (turn k) \<mapsto> plain_fd, ans (turn k + 3) \<mapsto> plain_fd) \<and> turn k1 = turn k + 4 \<and>
    netutil_socket_accept ans peer (-1) 16 (Some lcb) (Some cb) (k, a) =
      (case cb (ans (turn k + 3)) cli (length peer) (k1, a) of (_, k2, a2) \<Rightarrow> Inr (ans (turn k), k2, a2))"
proof -
  let ?l = "ans (turn k)" and ?n = "ans (turn k + 3)"
  let ?k1 = "\<lparr>fds = (fds k)(?l \<mapsto> plain_fd, ?n \<mapsto> plain_fd), turn = turn k + 4\<rparr>"
  have "(fds k)(?l \<mapsto> id plain_fd) = (fds k)(?l \<mapsto> plain_fd)" by simp
  have listening: "open_listen ans (Some lcb) (k, a) = Inr (?l, \<lparr>fds = (fds k)(?l \<mapsto> plain_fd), turn = turn k + 3\<rparr>, a)"
    using assms by (simp add: served_def open_listen_def k_new_def k_on_def tick_def Let_def plain_fd_def eval_nat_numeral)
  have new: "k_new 0 0 ans \<lparr>fds = (fds k)(?l \<mapsto> plain_fd), turn = turn k + 3\<rparr> = (?n, ?k1)"
    using assms by (simp add: served_def k_new_def tick_def Let_def plain_fd_def eval_nat_numeral)
  have "memcpy (replicate SOCKADDR_SIZE 0) 0 peer 0 (min 16 (length peer)) = Inr (peer @ replicate (16 - length peer) 0)"
    using assms by (simp add: served_def memcpy_def SOCKADDR_SIZE_def min_absorb2)
  then show ?thesis
    using assms listening new
    by (intro exI [of _ "peer @ replicate (16 - length peer) 0"] exI [of _ ?k1])
      (simp add: netutil_socket_accept_def served_def split: prod.split)
qed

lemma session_run:
  assumes "served ans peer k"
    and "d = take (nat (ans (turn k + 4))) (take 256 incoming)" "d \<noteq> []" "cstr d \<noteq> []"
  shows "if 0 \<in> set d \<or> length d < 256
    then \<exists>k'. acceptser_main ans peer incoming k =
        Inr (0, put_line (cbytes_of ''Server: read '' @ cstr d) @ put_line (cbytes_of ''Server: write '' @ cstr d), k',
          take (nat (ans (turn k + 5))) (cstr d)) \<and>
      fds k' = (fds k)(ans (turn k) \<mapsto> plain_fd)
    else acceptser_main ans peer incoming k = Inl OutOfBounds"
proof -
  obtain cli k1 where k1: "fds k1 = (fds k)(ans (turn k) \<mapsto> plain_fd, ans (turn k + 3) \<mapsto> plain_fd)" "turn k1 = turn k + 4"
      and acc: "netutil_socket_accept ans peer (-1) 16 (Some (net_set_listen_sock ans)) (Some (net_accept_callbck ans incoming))
        (k, Inr ([], [])) =
      (case net_accept_callbck ans incoming (ans (turn k + 3)) cli (length peer) (k1, Inr ([], [])) of
        (_, k2, a2) \<Rightarrow> Inr (ans (turn k), k2, a2))"
    using accept_calls_back [OF assms(1), of "net_set_listen_sock ans" "net_accept_callbck ans incoming" "Inr ([], [])"] by blast
  have pos: "\<not> ans (turn k) \<le> 0" using assms(1) by (simp add: served_def)
  have call: "net_accept_callbck ans incoming (ans (turn k + 3)) cli (length peer) (k1, Inr ([], [])) =
    (if 0 \<in> set d \<or> length d < 256
     then (0, k_close (ans (turn k + 3)) (tick (tick k1)),
       Inr (put_line (cbytes_of ''Server: read '' @ cstr d) @ put_line (cbytes_of ''Server: write '' @ cstr d),
         take (nat (ans (Suc (turn k1)))) (cstr d)))
     else (0, tick k1, Inl OutOfBounds))"
    by (rule callback_message) (use assms k1 in \<open>auto simp: served_def eval_nat_numeral\<close>)
  have closed: "fds (k_close (ans (turn k + 3)) (tick (tick k1))) = (fds k)(ans (turn k) \<mapsto> plain_fd)"
    using assms(1) k1(1) by (auto simp: served_def kern_simps fun_eq_iff)
  have turn: "Suc (turn k1) = turn k + 5" using k1(2) by simp
  show ?thesis
    using pos closed by (simp add: acceptser_main_def acc call turn)
qed

section \<open>Properties\<close>

text \<open>C38: a server whose calls succeed reads one message from its first client, prints it, sends it back
  up to its first NUL and returns 0 with the connection closed.  The listening socket stays open, and
  without \<open>SO_REUSEADDR\<close>, which the program's callback would set: it is never called.  A message of
  256 bytes without a NUL is printed, and measured, past the end of the buffer.\<close>

theorem acceptser_session:
  assumes "served ans peer k"
    and "d = take (nat (ans (turn k + 4))) (take 256 incoming)" "d \<noteq> []" "cstr d \<noteq> []"
  shows "if 0 \<in> set d \<or> length d < 256
    then \<exists>k'. acceptser_main ans peer incoming k =
        Inr (0, put_line (cbytes_of ''Server: read '' @ cstr d) @ put_line (cbytes_of ''Server: write '' @ cstr d), k',
          take (nat (ans (turn k + 5))) (cstr d)) \<and>
      fds k' = (fds k)(ans (turn k) \<mapsto> plain_fd)
    else acceptser_main ans peer incoming k = Inl OutOfBounds"
  using assms by (rule session_run)

theorem acceptser_session_witness:
  "acceptser_main (\<lambda>n. if n = 4 then 256 else int n + 3) (replicate 16 1) (replicate 300 65) \<lparr>fds = Map.empty, turn = 0\<rparr> =
    Inl OutOfBounds"
proof -
  have "take (nat 256) (take 256 (replicate 300 65)) = replicate 256 (65 :: byte)" by simp
  then show ?thesis
    using acceptser_session [of "\<lambda>n. if n = 4 then 256 else int n + 3" "replicate 16 1" "\<lparr>fds = Map.empty, turn = 0\<rparr>"
        "replicate 256 65" "replicate 300 65"]
    by (simp add: served_def cstr_no_nul no_nul_def)
qed

lemma client_hello:
  assumes "aton ip" "0 < ans (turn k)" "fds k (ans (turn k)) = None" "0 \<le> ans (turn k + 1)"
      "5 \<le> ans (turn k + 2)" "5 \<le> ans (turn k + 3)"
  shows "\<exists>k1. acceptcli_main ans aton [ip] (cbytes_of ''hello'') k =
      Inr (0, put_line (cbytes_of ''****Write: hello'') @ put_line (cbytes_of ''***read: hello''), k1, cbytes_of ''hello'') \<and>
    fds k1 = fds k"
proof -
  let ?fd = "ans (turn k)" and ?hello = "cbytes_of ''hello''"
  let ?k = "\<lambda>n. \<lparr>fds = (fds k)(?fd \<mapsto> plain_fd), turn = turn k + n\<rparr>"
  have h: "length ?hello = 5" "?hello \<noteq> []" "no_nul ?hello" by code_simp+
  have con: "netutil_socket_block_connect ans k = (?fd, ?k 2)"
    using assms(2-4) by (simp add: netutil_socket_block_connect_def k_new_def k_on_def tick_def Let_def plain_fd_def eval_nat_numeral)
  have w: "k_write ?fd ?hello ans (?k 2) = (5, ?k 3)"
    using assms(5) h(1) by (simp add: k_write_def tick_def eval_nat_numeral)
  have r: "k_read ?fd 256 ?hello ans (?k 3) = (Some ?hello, ?k 4)"
    using assms(6) h(1) by (simp add: k_read_def tick_def eval_nat_numeral)
  have b: "read_buff (Some ?hello) = Inr (Some (?hello @ replicate (256 - length ?hello) 0))"
    by (rule read_buff_some) (use h in simp_all)
  have t: "text_of (?hello @ replicate (256 - length ?hello) 0) = Inr ?hello"
    using text_of_padded [of ?hello "256 - length ?hello"] h by (simp add: cstr_no_nul)
  have c: "fds (k_close ?fd (?k 4)) = fds k" using assms(3) by (auto simp: kern_simps fun_eq_iff)
  have five: "\<not> (5 :: int) \<le> 0" "take (nat 5) ?hello = ?hello" using h(1) by simp_all
  have "\<not> ?fd \<le> 0" using assms(2) by simp
  then show ?thesis
    using assms(1) c
    by (simp only: acceptcli_main_def list.case con prod.case w r b t rbind_simps option.case Let_def five if_False not_True_eq_False)
      (auto simp: put_line_def cbytes_of_def)
qed

text \<open>C37: server and client together: when the calls of both succeed and move the five bytes, the server
  receives what the client sent and the client what the server sent back; both print it, and the client
  leaves no descriptor open.\<close>

theorem echo_round_trip:
  assumes "served ans peer k" "5 \<le> ans (turn k + 4)" "5 \<le> ans (turn k + 5)"
    and "aton ip" "0 < ans' (turn k')" "fds k' (ans' (turn k')) = None" "0 \<le> ans' (turn k' + 1)"
      "5 \<le> ans' (turn k' + 2)" "5 \<le> ans' (turn k' + 3)"
  shows "\<exists>sent k1 reply k2.
    acceptcli_main ans' aton [ip] reply k' =
      Inr (0, put_line (cbytes_of ''****Write: hello'') @ put_line (cbytes_of ''***read: hello''), k1, sent) \<and>
    acceptser_main ans peer sent k =
      Inr (0, put_line (cbytes_of ''Server: read hello'') @ put_line (cbytes_of ''Server: write hello''), k2, reply) \<and>
    fds k1 = fds k'"
proof -
  let ?hello = "cbytes_of ''hello''"
  have h: "length ?hello = 5" "?hello \<noteq> []" "no_nul ?hello" by code_simp+
  then have d: "?hello = take (nat (ans (turn k + 4))) (take 256 ?hello)" "take (nat (ans (turn k + 5))) ?hello = ?hello"
    using assms(2,3) by simp_all
  obtain k2 where "acceptser_main ans peer ?hello k =
      Inr (0, put_line (cbytes_of ''Server: read '' @ ?hello) @ put_line (cbytes_of ''Server: write '' @ ?hello), k2, ?hello)"
    using session_run [OF assms(1) d(1) h(2)] h d(2) by (auto simp: cstr_no_nul)
  moreover have "cbytes_of ''Server: read '' @ ?hello = cbytes_of ''Server: read hello''"
    "cbytes_of ''Server: write '' @ ?hello = cbytes_of ''Server: write hello''"
    by (simp_all add: cbytes_of_def)
  ultimately show ?thesis
    using client_hello [where aton = aton and ip = ip and ans = ans' and k = k', OF assms(4-9)]
    by (auto intro!: exI [of _ ?hello])
qed

text \<open>The same answers serve both: descriptors 3 and 4 are free, every transfer takes up to 9 bytes.\<close>

theorem echo_round_trip_witness:
  "\<exists>sent k1 reply k2.
    acceptcli_main (\<lambda>n. int n + 3) (\<lambda>_. True) [cbytes_of ''127.0.0.1''] reply \<lparr>fds = Map.empty, turn = 0\<rparr> =
      Inr (0, put_line (cbytes_of ''****Write: hello'') @ put_line (cbytes_of ''***read: hello''), k1, sent) \<and>
    acceptser_main (\<lambda>n. int n + 3) (replicate 16 1) sent \<lparr>fds = Map.empty, turn = 0\<rparr> =
      Inr (0, put_line (cbytes_of ''Server: read hello'') @ put_line (cbytes_of ''Server: write hello''), k2, reply) \<and>
    fds k1 = fds \<lparr>fds = Map.empty, turn = 0\<rparr>"
  by (rule echo_round_trip) (simp_all add: served_def)

end
