(* ===== verification/Ex_File.thy ===== *)
theory Ex_File
  imports Fcp_File Libc
begin

text \<open>
  The program \<open>src/src/example/testfile.c\<close>: it lists the directories under \<open>/proc\<close> and prints what
  kind of executable \<open>/bin/bash\<close> is.
\<close>

section \<open>Model\<close>

text \<open>The body of the loop prints the path of the entry.\<close>

definition print_entry :: "dir_state \<Rightarrow> cbytes \<Rightarrow> (bool \<times> cbytes) res" where
  "print_entry = (\<lambda>(entry, m) out.
    case entry of None \<Rightarrow> Inl NullDeref
    | Some e \<Rightarrow>
        rbind (get_text (data_of e) m) (\<lambda>bs.
        rbind (text_of bs) (\<lambda>s. Inr (False, out @ put_line s))))"

fun kind_line :: "exec_type \<Rightarrow> cbytes" where
  "kind_line EXEC_TYPE_NOTEXEC = put_line (cbytes_of ''  this is not a exec file'')"
| "kind_line EXEC_TYPE_ELF_EXC = put_line (cbytes_of ''this is a execute file'')"
| "kind_line EXEC_TYPE_ELF_DYN = put_line (cbytes_of ''this is a dynamic lib'')"
| "kind_line EXEC_TYPE_ELF_REL = put_line (cbytes_of ''this is a redirection file'')"
| "kind_line EXEC_TYPE_ELF_CORE = put_line (cbytes_of ''thi is a core file'')"
| "kind_line EXEC_TYPE_SHELL_SCRPT = put_line (cbytes_of '' this is a shell script'')"
| "kind_line EXEC_TYPE_PYTHON_SCRPT = put_line (cbytes_of '' this is a python script'')"
| "kind_line EXEC_TYPE_SUSPICIOUS_SCRPT = put_line (cbytes_of '' this is suspicious script'')"
| "kind_line EXEC_TYPE_OTHER_SCRPT = put_line (cbytes_of ''this is other script'')"
| "kind_line EXEC_TYPE_MAX = []"

record file_env =
  fe_fuel :: nat
  fe_oom :: "nat \<Rightarrow> bool"
  fe_dirs :: dir_contents
  fe_stat :: stat_fn
  fe_content :: "cbytes \<Rightarrow> cbytes"
  fe_read_fails :: bool
  fe_ans :: answers

definition testfile_main :: "file_env \<Rightarrow> dir_cell mem \<Rightarrow> kern \<Rightarrow> (int \<times> cbytes \<times> dir_cell mem \<times> kern) option res" where
  "testfile_main env m k =
    obind (foreach_loop (fe_fuel env)
        (\<lambda>(entry, m). comm_foreach_dir_entry (fe_oom env) (fe_dirs env) (Some (cbytes_of ''/proc'' @ 0 # [])) entry m)
        dir_stop print_entry (Some zero_item, m) []) (\<lambda>((entry, m), out).
    case file_execute_type (fe_stat env) (fe_content env) (fe_read_fails env) (fe_ans env) (cbytes_of ''/bin/bash'') k of
      (type, k) \<Rightarrow> Inr (Some (0, out @ kind_line type, m, k)))"

section \<open>Properties\<close>

lemma print_entry_at: "dir_at oom path type base st x xs \<Longrightarrow> print_entry st out = Inr (False, out @ put_line x)"
  by (erule text_at) (simp add: print_entry_def text_of_def)

lemma visit_lines: "visit (\<lambda>x a. (False, a @ put_line x)) xs out = out @ concat (map put_line xs)"
  by (induction xs arbitrary: out) auto

text \<open>\<open>testfile\<close> prints one line per directory under \<open>/proc\<close>, in the order of the directory (a
  beginning of them when an allocation fails), and then the line for the kind of \<open>/bin/bash\<close>; it has
  released what the listing allocated, and leaves open the descriptor of the file.\<close>

theorem testfile_prints:
  assumes "good_path (fe_dirs env) (cbytes_of ''/proc'')" "mem_ok m" "fe_dirs env (cbytes_of ''/proc'') = Some es"
    and "length (names_of DT_DIR es) < fe_fuel env"
    and "fe_stat env (cbytes_of ''/bin/bash'') = Some st" "st_size st \<noteq> 0" "\<not> fe_read_fails env"
    and "0 < fe_ans env (turn k)" "fds k (fe_ans env (turn k)) = None"
  shows "\<exists>n m' k' e. testfile_main env m k =
      Inr (Some (0, concat (map put_line (map (join_path (cbytes_of ''/proc'')) (take n (names_of DT_DIR es))))
        @ kind_line (kind_of st (fe_content env (cbytes_of ''/bin/bash''))), m', k')) \<and>
    cells m' = cells m \<and> ((\<forall>i. \<not> fe_oom env i) \<longrightarrow> n = length (names_of DT_DIR es)) \<and>
    fds k' = (fds k)(fe_ans env (turn k) \<mapsto> e)"
proof -
  let ?p = "cbytes_of ''/proc''"
  have body: "print_entry st out = Inr (False, out @ put_line x)"
    if "dir_at (fe_oom env) ?p DT_DIR (cells m) st x xs" for st x xs out
    using that by (rule print_entry_at)
  have "\<exists>m' n. foreach_loop (fe_fuel env)
      (\<lambda>(e, m). general_foreach_inode_entry (fe_oom env) (fe_dirs env) (Some (?p @ 0 # [])) e DT_DIR m)
      dir_stop print_entry (Some zero_item, m) [] =
        Inr (Some ((Some zero_item, m'),
          visit (\<lambda>x a. (False, a @ put_line x)) (map (join_path ?p) (take n (names_of DT_DIR es))) [])) \<and>
    cells m' = cells m \<and> mem_ok m' \<and> ((\<forall>i. \<not> fe_oom env i) \<longrightarrow> n = length (names_of DT_DIR es))"
    by (rule dir_loop [OF assms(1-4)]) (rule body)
  then obtain m' n where l: "foreach_loop (fe_fuel env)
      (\<lambda>(e, m). comm_foreach_dir_entry (fe_oom env) (fe_dirs env) (Some (?p @ 0 # [])) e m)
      dir_stop print_entry (Some zero_item, m) [] =
        Inr (Some ((Some zero_item, m'), concat (map put_line (map (join_path ?p) (take n (names_of DT_DIR es))))))"
      "cells m' = cells m" "(\<forall>i. \<not> fe_oom env i) \<longrightarrow> n = length (names_of DT_DIR es)"
    by (auto simp: visit_lines comm_foreach_dir_entry_def general_foreach_dir_entry_def)
  obtain k' e where f: "file_execute_type (fe_stat env) (fe_content env) False (fe_ans env) (cbytes_of ''/bin/bash'') k =
      (kind_of st (fe_content env (cbytes_of ''/bin/bash'')), k')" "fds k' = (fds k)(fe_ans env (turn k) \<mapsto> e)"
    using execute_type_kind [where stat = "fe_stat env" and ans = "fe_ans env" and k = k and content = "fe_content env",
        OF assms(5,6,8,9)] by blast
  show ?thesis
    using assms(7) f(2) l(2,3)
    by (intro exI [of _ n] exI [of _ m'] exI [of _ k'] exI [of _ e]) (simp add: testfile_main_def l(1) f(1))
qed

theorem testfile_prints_witness:
  "\<exists>m' k'. testfile_main
      \<lparr>fe_fuel = 5, fe_oom = \<lambda>_. False, fe_dirs = \<lambda>_. Some [(cbytes_of ''.'', 4), (cbytes_of ''1'', 4), (cbytes_of ''stat'', 8)],
       fe_stat = \<lambda>_. Some \<lparr>st_mode = 0x81FF, st_size = 10\<rparr>, fe_content = \<lambda>_. cbytes_of ''#!/bin/sh'', fe_read_fails = False,
       fe_ans = \<lambda>_. 3\<rparr> \<lparr>cells = \<lambda>_. None, allocs = 0\<rparr> \<lparr>fds = Map.empty, turn = 0\<rparr> =
    Inr (Some (0, put_line (cbytes_of ''/proc/1'') @ put_line (cbytes_of '' this is a shell script''), m', k')) \<and> fds k' 3 \<noteq> None"
proof -
  let ?es = "[(cbytes_of ''.'', 4), (cbytes_of ''1'', 4), (cbytes_of ''stat'', 8)]"
  let ?env = "\<lparr>fe_fuel = 5, fe_oom = \<lambda>_. False, fe_dirs = \<lambda>_. Some ?es,
       fe_stat = \<lambda>_. Some \<lparr>st_mode = 0x81FF, st_size = 10\<rparr>, fe_content = \<lambda>_. cbytes_of ''#!/bin/sh'', fe_read_fails = False,
       fe_ans = \<lambda>_. 3\<rparr>"
  have names: "names_of DT_DIR ?es = [cbytes_of ''1'']" by code_simp
  have path: "join_path (cbytes_of ''/proc'') (cbytes_of ''1'') = cbytes_of ''/proc/1''" by code_simp
  have good: "good_path (\<lambda>_. Some ?es) (cbytes_of ''/proc'')" by (simp add: good_path_def no_nul_def cbytes_of_def)
  have kind: "kind_of \<lparr>st_mode = 0x81FF, st_size = 10\<rparr> (cbytes_of ''#!/bin/sh'') = EXEC_TYPE_SHELL_SCRPT"
    by code_simp
  have "\<exists>n m' k' e. testfile_main ?env \<lparr>cells = \<lambda>_. None, allocs = 0\<rparr> \<lparr>fds = Map.empty, turn = 0\<rparr> =
      Inr (Some (0, concat (map put_line (map (join_path (cbytes_of ''/proc'')) (take n (names_of DT_DIR ?es))))
        @ kind_line (kind_of \<lparr>st_mode = 0x81FF, st_size = 10\<rparr> (cbytes_of ''#!/bin/sh'')), m', k')) \<and>
      n = length (names_of DT_DIR ?es) \<and> fds k' = [3 \<mapsto> e]"
    using testfile_prints [of ?env "\<lparr>cells = \<lambda>_. None, allocs = 0\<rparr>" ?es "\<lparr>st_mode = 0x81FF, st_size = 10\<rparr>"
        "\<lparr>fds = Map.empty, turn = 0\<rparr>"] good
    by (simp add: mem_ok_def names del: names_of.simps) blast
  then show ?thesis by (auto simp: names path kind simp del: names_of.simps)
qed

end
