(* ===== verification/Ex_Daemon.thy ===== *)
theory Ex_Daemon
  imports Fcp_Proc
begin

text \<open>
  The program \<open>src/src/example/testdaemon.c\<close>: it turns itself into a daemon, forks a child that
  writes one line to a log file and exits, and appends a line to that file every second, for ever.
  Parent and child run side by side; a schedule says which of them makes the next write and how many
  bytes of it the file system takes.  The file is opened with \<open>O_APPEND\<close>, so that each write goes
  to its end.
\<close>

section \<open>Model\<close>

text \<open>Where a process is: before its first write, in the loop, or ended.\<close>

datatype daemon_proc = Parent_first | Parent_loop | Child_first | Gone

definition parent_text :: cbytes where "parent_text = put_line (cbytes_of ''this is a daemon'')"
definition loop_text :: cbytes where "loop_text = put_line (cbytes_of ''hello daemon'')"
definition child_text :: cbytes where "child_text = put_line (cbytes_of ''child:hello'')"

text \<open>The next write of a process, of which \<open>c\<close> bytes are taken.  The message on an error goes to the
  null device.\<close>

fun proc_step :: "nat \<Rightarrow> daemon_proc \<Rightarrow> cbytes list \<Rightarrow> daemon_proc \<times> cbytes list" where
  "proc_step c Child_first log = (Gone, log @ [take c child_text])"
| "proc_step c Parent_first log = (Parent_loop, log @ [take c parent_text])"
| "proc_step c Parent_loop log = (Parent_loop, log @ [take c loop_text])"
| "proc_step c Gone log = (Gone, log)"

text \<open>The branch taken after \<open>fork\<close> has returned \<open>n\<close>.\<close>

definition after_fork :: "int \<Rightarrow> daemon_proc" where
  "after_fork n = (if n \<le> 0 then Child_first else Parent_first)"

record daemons =
  parent_proc :: daemon_proc
  child_proc :: daemon_proc
  log_writes :: "cbytes list"

text \<open>\<open>n\<close> is what \<open>fork\<close> returns to the caller; the child exists when it is positive.\<close>

definition forked :: "int \<Rightarrow> daemons" where
  "forked n = \<lparr>parent_proc = after_fork n, child_proc = (if 0 < n then after_fork 0 else Gone), log_writes = []\<rparr>"

datatype who = Parent | Child

fun run_step :: "who \<times> nat \<Rightarrow> daemons \<Rightarrow> daemons" where
  "run_step (Parent, c) d = (case proc_step c (parent_proc d) (log_writes d) of (p, l) \<Rightarrow> d\<lparr>parent_proc := p, log_writes := l\<rparr>)"
| "run_step (Child, c) d = (case proc_step c (child_proc d) (log_writes d) of (p, l) \<Rightarrow> d\<lparr>child_proc := p, log_writes := l\<rparr>)"

fun run_daemons :: "(nat \<Rightarrow> who \<times> nat) \<Rightarrow> nat \<Rightarrow> daemons \<Rightarrow> daemons" where
  "run_daemons sched 0 d = d"
| "run_daemons sched (Suc n) d = run_step (sched n) (run_daemons sched n d)"

text \<open>
  \<open>main\<close> after \<open>n\<close> steps: the texts printed, each with the file that descriptor 1 refers to at that
  moment, and the processes or the status of the program when it has given up before the fork.
  \<open>logfd\<close> is what opening the log returns, \<open>forkpid\<close> what \<open>fork\<close> returns.
\<close>

definition testdaemon_main ::
    "daemon_env \<Rightarrow> daemon_state \<Rightarrow> int \<Rightarrow> int \<Rightarrow> (nat \<Rightarrow> who \<times> nat) \<Rightarrow> nat \<Rightarrow>
      (string option \<times> cbytes) list \<times> (int + daemons)" where
  "testdaemon_main env s logfd forkpid sched n =
    (let out = [(fd_table s 1, put_line (cbytes_of ''*****start a daemon''))] in
     case taskutil_task_to_daemon env False False False False s of
       Exited r \<Rightarrow> (out, Inl r)
     | Running s \<Rightarrow>
         let out = out @ [(fd_table s 1, put_line (cbytes_of ''this is daemon''))] in
         if logfd < 0 then (out @ [(fd_table s 1, put_line (cbytes_of ''open file error''))], Inl (-1))
         else (out, Inr (run_daemons sched n (forked forkpid))))"

section \<open>The two processes\<close>

text \<open>What a process has written when every write is complete.\<close>

definition part_of_child :: "daemon_proc \<Rightarrow> cbytes list" where
  "part_of_child p = (if p = Gone then [child_text] else [])"

definition part_of_parent :: "daemon_proc \<Rightarrow> nat \<Rightarrow> cbytes list" where
  "part_of_parent p k = (if p = Parent_loop then parent_text # replicate k loop_text else [])"

definition daemons_ok :: "daemons \<Rightarrow> bool" where
  "daemons_ok d \<longleftrightarrow> parent_proc d \<in> {Parent_first, Parent_loop} \<and> child_proc d \<in> {Child_first, Gone} \<and>
    (\<exists>k. log_writes d \<in> shuffles (part_of_child (child_proc d)) (part_of_parent (parent_proc d) k))"

lemma shuffles_last: "ys @ [z] \<in> shuffles [z] ys"
  by (induction ys) (auto intro: Cons_in_shuffles_rightI)

lemma shuffles_snoc:
  assumes "zs \<in> shuffles xs ys"
  shows "zs @ [z] \<in> shuffles (xs @ [z]) ys" "zs @ [z] \<in> shuffles xs (ys @ [z])"
proof -
  have "zs @ [z] \<in> shuffles (xs @ [z]) ys \<and> zs @ [z] \<in> shuffles xs (ys @ [z])"
    using assms
  proof (induction xs ys arbitrary: zs rule: shuffles.induct)
    case (3 x xs y ys)
    from "3.prems" consider (left) zs' where "zs = x # zs'" "zs' \<in> shuffles xs (y # ys)"
      | (right) zs' where "zs = y # zs'" "zs' \<in> shuffles (x # xs) ys" by auto
    then show ?case
    proof cases
      case left
      with "3.IH"(1) show ?thesis by fastforce
    next
      case right
      with "3.IH"(2) show ?thesis by fastforce
    qed
  qed (use shuffles_last in \<open>simp_all add: shuffles_commutes [of _ "[z]"]\<close>)
  then show "zs @ [z] \<in> shuffles (xs @ [z]) ys" "zs @ [z] \<in> shuffles xs (ys @ [z])" by auto
qed

lemma daemons_ok_forked: "0 < n \<Longrightarrow> daemons_ok (forked n)"
  by (auto simp: daemons_ok_def forked_def after_fork_def part_of_child_def part_of_parent_def)

lemma daemons_ok_step:
  assumes "daemons_ok d" "17 \<le> c"
  shows "daemons_ok (run_step (w, c) d)"
proof -
  have t: "take c child_text = child_text" "take c parent_text = parent_text" "take c loop_text = loop_text"
    using assms(2) by (simp_all add: child_text_def parent_text_def loop_text_def put_line_def cbytes_of_def)
  obtain k where k: "log_writes d \<in> shuffles (part_of_child (child_proc d)) (part_of_parent (parent_proc d) k)"
    using assms(1) by (auto simp: daemons_ok_def)
  have loop: "part_of_parent Parent_loop (Suc k) = part_of_parent Parent_loop k @ [loop_text]"
    by (simp add: part_of_parent_def replicate_append_same)
  show ?thesis
  proof (cases w)
    case Parent
    show ?thesis
    proof (cases "parent_proc d = Parent_first")
      case True
      then show ?thesis
        using assms(1) k Parent shuffles_snoc(2) [OF k, of parent_text]
        by (auto simp: daemons_ok_def t part_of_parent_def intro!: exI [of _ 0])
    next
      case False
      then have p: "parent_proc d = Parent_loop" using assms(1) by (auto simp: daemons_ok_def)
      then show ?thesis
        using assms(1) Parent shuffles_snoc(2) [OF k, of loop_text]
        by (auto simp: daemons_ok_def t p loop [symmetric] intro!: exI [of _ "Suc k"])
    qed
  next
    case Child
    then show ?thesis
      using assms(1) k shuffles_snoc(1) [OF k, of child_text]
      by (auto simp: daemons_ok_def t part_of_child_def)
  qed
qed

lemma run_daemons_ok:
  "daemons_ok d \<Longrightarrow> \<forall>n. 17 \<le> snd (sched n) \<Longrightarrow> daemons_ok (run_daemons sched n d)"
proof (induction n)
  case (Suc n)
  then show ?case using daemons_ok_step [of "run_daemons sched n d" "snd (sched n)" "fst (sched n)"] by simp
qed simp

section \<open>The loop goes on\<close>

definition hellos :: "daemons \<Rightarrow> nat" where
  "hellos d = count_list (log_writes d) loop_text"

lemma proc_step_appends: "\<exists>l. snd (proc_step c p log) = log @ l"
  by (cases p) auto

lemma hellos_step: "hellos d \<le> hellos (run_step w d)"
proof (cases w)
  case (Pair who c)
  obtain l1 l2 where "snd (proc_step c (parent_proc d) (log_writes d)) = log_writes d @ l1"
      "snd (proc_step c (child_proc d) (log_writes d)) = log_writes d @ l2"
    using proc_step_appends by metis
  then show ?thesis
    by (cases who) (auto simp: Pair hellos_def split: prod.split)
qed

lemma hellos_mono: "hellos (run_daemons sched n d) \<le> hellos (run_daemons sched (n + k) d)"
  by (induction k) (auto intro: order_trans hellos_step)

lemma parent_lives:
  assumes "0 < p"
  shows "parent_proc (run_daemons sched n (forked p)) \<in> {Parent_first, Parent_loop}"
proof (induction n)
  case 0
  then show ?case using assms by (simp add: forked_def after_fork_def)
next
  case (Suc n)
  then show ?case
    by (cases "sched n"; cases "fst (sched n)") (auto split: prod.split)
qed

lemma parent_turn:
  assumes "fst (sched n) = Parent" "parent_proc (run_daemons sched n d) \<in> {Parent_first, Parent_loop}" "17 \<le> snd (sched n)"
  shows "parent_proc (run_daemons sched (Suc n) d) = Parent_loop"
    and "parent_proc (run_daemons sched n d) = Parent_loop \<Longrightarrow>
      hellos (run_daemons sched (Suc n) d) = Suc (hellos (run_daemons sched n d))"
  using assms
  by (cases "sched n"; auto simp: hellos_def loop_text_def put_line_def cbytes_of_def)+

lemma parent_loops:
  assumes "parent_proc (run_daemons sched n d) = Parent_loop"
  shows "parent_proc (run_daemons sched (n + k) d) = Parent_loop"
proof (induction k)
  case (Suc k)
  then show ?case
    by (cases "sched (n + k)"; cases "fst (sched (n + k))") (auto split: prod.split)
qed (use assms in simp)

lemma hellos_grow:
  assumes "0 < p" "\<And>n. \<exists>k\<ge>n. fst (sched k) = Parent \<and> 17 \<le> snd (sched k)"
  shows "\<exists>n. m \<le> hellos (run_daemons sched n (forked p)) \<and> parent_proc (run_daemons sched n (forked p)) = Parent_loop"
proof (induction m)
  case 0
  obtain k where "fst (sched k) = Parent" "17 \<le> snd (sched k)" using assms(2) by blast
  then show ?case using parent_turn(1) [OF _ parent_lives [OF assms(1)]] by blast
next
  case (Suc m)
  then obtain n where n: "m \<le> hellos (run_daemons sched n (forked p))" "parent_proc (run_daemons sched n (forked p)) = Parent_loop"
    by blast
  obtain k where k: "n \<le> k" "fst (sched k) = Parent" "17 \<le> snd (sched k)" using assms(2) by blast
  have "parent_proc (run_daemons sched k (forked p)) = Parent_loop" "m \<le> hellos (run_daemons sched k (forked p))"
    using parent_loops [OF n(2), of "k - n"] hellos_mono [of sched n "forked p" "k - n"] n(1) k(1) by auto
  then show ?case
    using parent_turn [of sched k "forked p"] k by (intro exI [of _ "Suc k"]) auto
qed

section \<open>Properties\<close>

text \<open>C33: the daemon goes on for ever: when it has been set up, the log can be opened and a child be
  forked, then under every schedule in which the parent makes complete writes again and again, however
  the child is scheduled and whichever other writes fail, any number of \<open>hello daemon\<close> lines is
  reached.\<close>

theorem testdaemon_writes_forever:
  assumes "taskutil_task_to_daemon env False False False False s = Running s'" "0 \<le> logfd" "0 < forkpid"
    and "\<And>n. \<exists>k\<ge>n. fst (sched k) = Parent \<and> 17 \<le> snd (sched k)"
  shows "\<exists>n d. snd (testdaemon_main env s logfd forkpid sched n) = Inr d \<and> m \<le> count_list (log_writes d) loop_text"
  using hellos_grow [OF assms(3,4), of m] assms(1,2) by (auto simp: testdaemon_main_def hellos_def Let_def)

definition calm_env :: daemon_env where
  "calm_env = \<lparr>fork1 = 0, fork2 = 0, setsid_ret = 9, null_fd = 3, nofile_max = Some 8, chdir_ret = 0\<rparr>"

definition shell_state :: daemon_state where
  "shell_state = \<lparr>fd_table = (\<lambda>_. Some ''tty''), new_session = False, in_root = False, chld_ignored = False, umask_zero = False\<rparr>"

lemma calm_run: "\<exists>s'. taskutil_task_to_daemon calm_env False False False False shell_state = Running s'"
  by (simp add: taskutil_task_to_daemon_def calm_env_def Let_def)

theorem testdaemon_writes_forever_witness:
  "\<exists>n d. snd (testdaemon_main calm_env shell_state 3 77 (\<lambda>k. if k mod 3 = 0 then (Parent, 17) else (Child, 0)) n) = Inr d \<and>
    1000 \<le> count_list (log_writes d) loop_text"
proof -
  obtain s' where s': "taskutil_task_to_daemon calm_env False False False False shell_state = Running s'" using calm_run by blast
  have "\<exists>k\<ge>n. fst (if k mod 3 = 0 then (Parent, 17) else (Child, 0 :: nat)) = Parent \<and>
      17 \<le> snd (if k mod 3 = 0 then (Parent, 17) else (Child, 0 :: nat))" for n :: nat
    by (rule exI [of _ "3 * n"]) simp
  then show ?thesis by (intro testdaemon_writes_forever [OF s']) simp_all
qed

text \<open>C40: at every moment, when the writes are complete, the log is an interleaving of what the child has
  written, at most its one line, and of what the parent has, its first line and then only \<open>hello
  daemon\<close>.  When \<open>fork\<close> fails there is no parent: the daemon takes the branch of the child, writes the
  line of the child and is gone.\<close>

theorem testdaemon_log:
  assumes "taskutil_task_to_daemon env False False False False s = Running s'" "0 \<le> logfd" "\<forall>k. 17 \<le> snd (sched k)"
  shows "\<exists>d. snd (testdaemon_main env s logfd forkpid sched n) = Inr d \<and>
    (0 < forkpid \<longrightarrow> (\<exists>k. log_writes d \<in> shuffles (part_of_child (child_proc d)) (part_of_parent (parent_proc d) k))) \<and>
    (forkpid < 0 \<longrightarrow> log_writes d \<in> {[], [child_text]} \<and> parent_proc d \<in> {Child_first, Gone})"
proof -
  have fail: "child_proc (run_daemons sched n (forked forkpid)) = Gone \<and>
      (let d = run_daemons sched n (forked forkpid) in
        log_writes d = [] \<and> parent_proc d = Child_first \<or> log_writes d = [child_text] \<and> parent_proc d = Gone)"
    if "forkpid < 0"
  proof (induction n)
    case 0
    then show ?case using that by (simp add: forked_def after_fork_def)
  next
    case (Suc n)
    have "take (snd (sched n)) child_text = child_text"
      using assms(3) order_trans [of 12 17 "snd (sched n)"] by (simp add: child_text_def put_line_def cbytes_of_def)
    then show ?case
      using Suc by (cases "sched n"; cases "fst (sched n)") (auto simp: Let_def split: prod.split)
  qed
  have ok: "\<exists>k. log_writes d \<in> shuffles (part_of_child (child_proc d)) (part_of_parent (parent_proc d) k)"
    if "0 < forkpid" "d = run_daemons sched n (forked forkpid)" for d
    using run_daemons_ok [OF daemons_ok_forked [OF that(1)] assms(3)] that(2) by (auto simp: daemons_ok_def)
  show ?thesis
    using fail ok assms(1,2) by (auto simp: testdaemon_main_def Let_def)
qed

theorem testdaemon_log_witness:
  "\<exists>d. snd (testdaemon_main calm_env shell_state 3 (-1) (\<lambda>_. (Parent, 20)) 9) = Inr d \<and>
    log_writes d \<in> {[], [child_text]} \<and> parent_proc d \<in> {Child_first, Gone}"
proof -
  obtain s' where s': "taskutil_task_to_daemon calm_env False False False False shell_state = Running s'" using calm_run by blast
  show ?thesis using testdaemon_log [OF s', of 3 "\<lambda>_. (Parent, 20)" "-1" 9] by simp
qed

end
