(* ===== verification/Ex_Net.thy ===== *)
theory Ex_Net
  imports Fcp_Net_Table Fcp_Arp
begin

text \<open>
  The program \<open>src/src/example/testnet.c\<close>: the local addresses, the tables of sockets with the
  processes that hold them, the ARP table by kind of entry, and the switch for answering pings.  A
  callback of the program cannot report a fault, so that it works on the output so far or the fault
  that has occurred.
\<close>

section \<open>The callbacks\<close>



section \<open>The parts of the program\<close>








section \<open>What the parts print\<close>









section \<open>The whole output\<close>
















end
