(* ===== verification/Ex_Proc.thy ===== *)
theory Ex_Proc
  imports Fcp_Proc
begin

text \<open>
  The program \<open>src/src/example/testproc.c\<close>: the session of the caller, the processes of the system,
  and what \<open>/proc\<close> tells of the process named by the argument.
\<close>

section \<open>Model\<close>

text \<open>\<open>args\<close> are the arguments after the name of the program.\<close>

record proc_env =
  pe_opened :: bool
  pe_reads :: "read_answer list"
  pe_fuel :: nat
  pe_oom :: "nat \<Rightarrow> bool"
  pe_dirs :: dir_contents
  pe_exists :: "cbytes \<Rightarrow> bool"
  pe_files :: "cbytes \<Rightarrow> cbytes option"

definition list_callback :: "cbytes \<Rightarrow> cbytes \<Rightarrow> int \<times> cbytes" where
  "list_callback fpath out = (0, out @ put_line (cbytes_of '' '' @ fpath))"

definition session_part :: "proc_env \<Rightarrow> cbytes res" where
  "session_part env =
    rbind (taskutil_current_session (pe_opened env) (pe_reads env)) (\<lambda>ret.
      Inr (put_line (if sint ret > 0 then cbytes_of ''curret session id is '' @ fmt_d ret
                     else cbytes_of ''Get current session id is error'')))"

definition cmdline_part :: "proc_env \<Rightarrow> cbytes \<Rightarrow> cbytes res" where
  "cmdline_part env out =
    rbind (process_cmdline (pe_files env) 1 (Some (replicate 512 0)) 512) (\<lambda>(ret, buff).
      if ret = 0 then
        (case buff of None \<Rightarrow> Inl NullDeref
         | Some b \<Rightarrow> rbind (text_of b) (\<lambda>s. Inr (out @ put_line (cbytes_of ''pid 1 cmdline: '' @ s))))
      else Inr out)"

text \<open>From the list of processes to the command line.\<close>

definition info_part ::
    "proc_env \<Rightarrow> i32 \<Rightarrow> dir_cell mem \<Rightarrow> cbytes mem \<Rightarrow> cbytes \<Rightarrow> (cbytes \<times> dir_cell mem \<times> cbytes mem) option res" where
  "info_part env p m fm out =
    obind (com_find_proc_pid (pe_fuel env) (pe_oom env) (pe_dirs env) list_callback out m) (\<lambda>(ret, out, m).
    let out = (if ret \<noteq> 0 then out @ put_line (cbytes_of ''list error'') else out);
        out = out @ put_line (cbytes_of ''*****************proc info**************'') in
    rbind (process_max_number (pe_files env)) (\<lambda>n.
    let out = out @ put_line (cbytes_of ''max process number: '' @ dec_of_int n) in
    rbind (taskutil_kernel_task (pe_exists env) (pe_files env) p) (\<lambda>k.
    let out = out @ put_line (cbytes_of ''pid '' @ fmt_d p @
                (if k \<noteq> 0 then cbytes_of ''  is a kernel thread'' else cbytes_of ''  is not a kernel thread'')) in
    obind (process_cpu_mtime (pe_fuel env) (pe_oom env) (pe_dirs env) (pe_files env) 2 m fm) (\<lambda>(mt, m, fm).
    let out = (if sint mt \<ge> 0 then out @ put_line (cbytes_of ''pid 2 cpu millsecond time: '' @ fmt_d mt @ cbytes_of ''(ms)'')
               else out) in
    rbind (cmdline_part env out) (\<lambda>out. Inr (Some (out, m, fm)))))))"

text \<open>A state without a text of its own leaves the line open.\<close>

fun state_text :: "task_state \<Rightarrow> cbytes" where
  "state_text TASK_STAT_RUNNIG = put_line (cbytes_of ''Running ...'')"
| "state_text TASK_STAT_INTERRUPTIBLE = put_line (cbytes_of ''Sleeping in an interruptible wait'')"
| "state_text TASK_STAT_UNINTERRUPTIBLE = put_line (cbytes_of ''Waiting in uninterruptible disk sleep'')"
| "state_text TASK_STAT_ZOMBIE = put_line (cbytes_of ''Zombie'')"
| "state_text TASK_STAT_STOP = put_line (cbytes_of ''Stopped (on a signal) or (before Linux 2.6.33) trace stopped'')"
| "state_text TASK_STAT_TASK_TRACED = put_line (cbytes_of ''Tracing stop (Linux 2.6.33 onward)'')"
| "state_text TASK_STAT_DEAD = put_line (cbytes_of ''Dead'')"
| "state_text TASK_STAT_UNKNOW = []"

definition stat_part :: "proc_env \<Rightarrow> i32 \<Rightarrow> cbytes \<Rightarrow> cbytes res" where
  "stat_part env p out =
    (let out = out @ put_line (cbytes_of ''**********************proc stat****start**************************'') in
     rbind (taskutil_task_proc_stat (pe_exists env) (pe_files env) p (Some zero_stat)) (\<lambda>(ret, st).
     rbind (if ret = 0 then
              (case st of None \<Rightarrow> Inl NullDeref
               | Some st \<Rightarrow>
                   rbind (text_of (ts_comm st)) (\<lambda>comm.
                     Inr (out @ put_line (cbytes_of ''Pid= '' @ fmt_u (ts_pid st)) @ put_line (cbytes_of ''Comm= '' @ comm)
                       @ cbytes_of ''State= '' @ state_text (ts_state st)
                       @ put_line (cbytes_of ''ppid= '' @ fmt_u (ts_ppid st)) @ put_line (cbytes_of ''pgid= '' @ fmt_u (ts_pgid st))
                       @ put_line (cbytes_of ''session= '' @ fmt_u (ts_session st))
                       @ put_line (cbytes_of ''ttynr major= '' @ fmt_d (ts_tty_nr_major st) @ cbytes_of '' minor=''
                           @ fmt_d (ts_tty_nr_minor st) @ cbytes_of '' '')
                       @ put_line (cbytes_of ''tpgid= '' @ fmt_d (ts_tpgid st))
                       @ put_line (cbytes_of ''flags= 0x'' @ hex_text (unat (ts_flags st))))))
            else Inr out) (\<lambda>out.
       Inr (out @ put_line (cbytes_of ''**********************proc stat****stop**************************'')))))"

definition usage :: cbytes where
  "usage = put_line (cbytes_of ''Usage:  testproc  pid'')"

definition testproc_main ::
    "proc_env \<Rightarrow> cbytes list \<Rightarrow> dir_cell mem \<Rightarrow> cbytes mem \<Rightarrow> (int \<times> cbytes \<times> dir_cell mem \<times> cbytes mem) option res" where
  "testproc_main env args m fm =
    (case args of [] \<Rightarrow> Inr (Some (-1, usage, m, fm))
     | a # _ \<Rightarrow>
         rbind (session_part env) (\<lambda>out.
         let p = c_atoi a in
         if p \<le> 0 then Inr (Some (-1, out @ usage, m, fm))
         else
           obind (info_part env (word_of_int p) m fm out) (\<lambda>(out, m, fm).
           rbind (stat_part env (word_of_int p) out) (\<lambda>out. Inr (Some (0, out, m, fm))))))"

section \<open>What the parts print\<close>

text \<open>The command line of process 1: the arguments joined by spaces, with a space at the end; one of 511 bytes
  or more makes the program print behind its buffer.\<close>

lemma cmdline_part_prints:
  assumes "pe_files env (proc_path 1 ''/cmdline'') = Some content" "content \<noteq> []" "10 \<notin> set content"
  shows "cmdline_part env out =
    (if length content < 511 then Inr (out @ put_line (cbytes_of ''pid 1 cmdline: '' @ spaced content @ [32])) else Inl OutOfBounds)"
proof -
  have "\<exists>b. process_cmdline (pe_files env) 1 (Some (replicate 512 0)) 512 = Inr (0, Some b) \<and>
      (length content + 1 < unat (512 :: u32) \<longrightarrow> terminated b \<and> cstr b = spaced content @ [32]) \<and>
      (unat (512 :: u32) \<le> length content + 1 \<longrightarrow> \<not> terminated b \<and> b = spaced (take (unat (512 :: u32) - 1) content) @ [32])"
    by (rule cmdline_joins) (use assms in simp_all)
  then obtain b where b: "process_cmdline (pe_files env) 1 (Some (replicate 512 0)) 512 = Inr (0, Some b)"
      "length content < 511 \<longrightarrow> terminated b \<and> cstr b = spaced content @ [32]" "511 \<le> length content \<longrightarrow> \<not> terminated b"
    by auto
  show ?thesis
  proof (cases "length content < 511")
    case True
    then show ?thesis using b(2) by (simp add: cmdline_part_def b(1) text_of_def)
  next
    case False
    then show ?thesis using b(3) by (simp add: cmdline_part_def b(1) text_of_def)
  qed
qed

text \<open>The report on a process, from the words of its line: those of \<open>taskutil_task_proc_stat\<close>.\<close>

definition stat_report :: "cbytes list \<Rightarrow> cbytes" where
  "stat_report ws =
    (let st = stat_of_words ws [] in
       put_line (cbytes_of ''Pid= '' @ fmt_u (ts_pid st)) @ put_line (cbytes_of ''Comm= '' @ comm_of (ws ! 1))
       @ cbytes_of ''State= '' @ state_text (state_of (ws ! 2))
       @ put_line (cbytes_of ''ppid= '' @ fmt_u (ts_ppid st)) @ put_line (cbytes_of ''pgid= '' @ fmt_u (ts_pgid st))
       @ put_line (cbytes_of ''session= '' @ fmt_u (ts_session st))
       @ put_line (cbytes_of ''ttynr major= '' @ fmt_d (ts_tty_nr_major st) @ cbytes_of '' minor='' @ fmt_d (ts_tty_nr_minor st)
           @ cbytes_of '' '')
       @ put_line (cbytes_of ''tpgid= '' @ fmt_d (ts_tpgid st)) @ put_line (cbytes_of ''flags= 0x'' @ hex_text (unat (ts_flags st))))"

lemma stat_part_prints:
  assumes "field_word 32 w" "line_ok 32 rest" "8 \<le> length rest" "10 \<notin> set (w @ line_tail 32 rest)"
    "length (w @ line_tail 32 rest) \<le> 2045" "snd (rest ! 0) = 40 # c" "c \<noteq> []"
    and "pe_exists env (proc_path p ''/stat'')"
    and "pe_files env (proc_path p ''/stat'') = Some ((w @ line_tail 32 rest) @ 10 # more_lines)"
  shows "stat_part env p out =
    Inr (out @ put_line (cbytes_of ''**********************proc stat****start**************************'')
      @ stat_report (w # map snd rest)
      @ put_line (cbytes_of ''**********************proc stat****stop**************************''))"
proof -
  have len: "length (ts_comm zero_stat) = 256" by (simp add: zero_stat_def)
  obtain comm where comm: "taskutil_task_proc_stat (pe_exists env) (pe_files env) p (Some zero_stat) =
      Inr (0, Some (stat_of_words (w # map snd rest) comm))" "text_of comm = Inr (comm_of (40 # c))"
    using proc_stat_words [where st = zero_stat and exists_file = "pe_exists env" and files = "pe_files env" and p = p,
        OF assms(1-8) len assms(9)] by blast
  have "(w # map snd rest) ! 1 = 40 # c" using assms(3,6) by (cases rest) auto
  then show ?thesis
    by (simp add: stat_part_def Let_def comm(1) comm(2) stat_report_def stat_of_words_def)
qed

text \<open>Without a process to report on the program prints how it is called.\<close>

lemma testproc_usage:
  "testproc_main env [] m fm = Inr (Some (-1, usage, m, fm))"
  "c_atoi a \<le> 0 \<Longrightarrow> session_part env = Inr out \<Longrightarrow> testproc_main env (a # as) m fm = Inr (Some (-1, out @ usage, m, fm))"
  by (simp_all add: testproc_main_def Let_def)

end
