(* ===== verification/Ex_Os.thy ===== *)
theory Ex_Os
  imports Fcp_Os
begin

text \<open>
  The program \<open>src/src/example/testos.c\<close>: the identifiers of the machine, when it was started and last
  shut down, who is logged in, which logins have ended, the release of the system and the user.  The
  conversion of a time to a date (\<open>localtime_r\<close>) depends on the time zone and is an argument.
\<close>

section \<open>Printing\<close>

text \<open>\<open>%0wd\<close>.\<close>

definition pad0 :: "nat \<Rightarrow> int \<Rightarrow> cbytes" where
  "pad0 w i =
    (let d = dec_of_nat (nat \<bar>i\<bar>) in
     if i < 0 then 45 # replicate (w - 1 - length d) 48 @ d else replicate (w - length d) 48 @ d)"

record date_tm =
  tm_year :: int
  tm_mon :: int
  tm_mday :: int
  tm_hour :: int
  tm_min :: int
  tm_sec :: int

definition date_text :: "(int \<Rightarrow> date_tm) \<Rightarrow> int \<Rightarrow> cbytes" where
  "date_text localtime t =
    (let d = localtime t in
     dec_of_int t @ cbytes_of ''('' @ pad0 4 (tm_year d + 1900) @ cbytes_of ''-'' @ pad0 2 (tm_mon d + 1) @ cbytes_of ''-''
       @ pad0 2 (tm_mday d) @ cbytes_of '' '' @ pad0 2 (tm_hour d) @ cbytes_of '':'' @ pad0 2 (tm_min d) @ cbytes_of '':''
       @ pad0 2 (tm_sec d) @ cbytes_of '')'')"

text \<open>The three texts of a login, as both callbacks print them.\<close>

definition login_text :: "login_info \<Rightarrow> cbytes res" where
  "login_text i =
    rbind (text_of (username i)) (\<lambda>u. rbind (text_of (hostname i)) (\<lambda>h. rbind (text_of (tty i)) (\<lambda>t.
      Inr (cbytes_of ''User:'' @ u @ cbytes_of '', host:'' @ h @ cbytes_of '', tty:'' @ t @ cbytes_of '', logintime:''))))"

section \<open>The callbacks\<close>

text \<open>The output so far, or the fault that has occurred.\<close>

definition running_user :: "(int \<Rightarrow> date_tm) \<Rightarrow> login_info \<Rightarrow> cbytes res \<Rightarrow> int \<times> cbytes res" where
  "running_user localtime uinfo a =
    (0, rbind a (\<lambda>out. rbind (login_text uinfo) (\<lambda>s.
          Inr (out @ put_line (cbytes_of ''pid:'' @ dec_of_int (pid uinfo) @ cbytes_of '' '' @ s
            @ date_text localtime (logintime uinfo))))))"

definition logout_user :: "(int \<Rightarrow> date_tm) \<Rightarrow> login_info \<Rightarrow> cbytes res \<Rightarrow> int \<times> cbytes res" where
  "logout_user localtime uinfo a =
    (0, rbind a (\<lambda>out. rbind (login_text uinfo) (\<lambda>s.
          Inr (out @ put_line (s @ date_text localtime (logintime uinfo) @ cbytes_of '', logouttime: ''
            @ date_text localtime (logouttime uinfo))))))"

section \<open>The parts of the program\<close>

record os_env =
  oe_files :: "cbytes \<Rightarrow> cbytes option"
  oe_utmp :: "utmp_rec list option"
  oe_wtmp :: "utmp_rec list option"
  oe_localtime :: "int \<Rightarrow> date_tm"
  oe_fuel :: nat
  oe_oom :: "nat \<Rightarrow> bool"
  oe_version_oom :: bool
  oe_exists :: "cbytes \<Rightarrow> bool"
  oe_user_oom :: bool
  oe_sysconf :: u64
  oe_getpwuid_r :: "u64 \<Rightarrow> int \<times> cbytes option"

definition MAX_MACHINE_ID_LEN :: u32 where "MAX_MACHINE_ID_LEN = 34"

text \<open>What is printed of an answer that is in the buffer.\<close>

definition answer_line :: "int \<Rightarrow> cbytes option \<Rightarrow> cbytes \<Rightarrow> cbytes \<Rightarrow> cbytes res" where
  "answer_line ret buff name err =
    (if ret = 0 then (case buff of None \<Rightarrow> Inl NullDeref | Some b \<Rightarrow> rbind (text_of b) (\<lambda>s. Inr (put_line (name @ s))))
     else Inr (put_line err))"

definition ident_part :: "os_env \<Rightarrow> cbytes res" where
  "ident_part env =
    (let out = [10] @ put_line (cbytes_of ''***************************output info  start *****************************************'') @ [10] in
     rbind (os_info_uuid (oe_files env) (Some (replicate 256 0)) 256) (\<lambda>(ret, buff, _).
     rbind (answer_line ret buff (cbytes_of ''uuid:'') (cbytes_of ''get uuid is error'')) (\<lambda>l1.
     rbind (os_info_bootid (oe_files env) (Some (replicate 256 0)) 256) (\<lambda>(ret, buff, _).
     rbind (answer_line ret buff (cbytes_of ''bootid:'') (cbytes_of ''get bootid is error'')) (\<lambda>l2.
     rbind (os_info_machine_id (oe_files env) (Some (replicate 256 0)) MAX_MACHINE_ID_LEN) (\<lambda>(ret, buff).
     rbind (answer_line ret buff (cbytes_of ''Machine id is:'') (cbytes_of ''get machine id is error'')) (\<lambda>l3.
       Inr (out @ l1 @ l2 @ l3))))))))"

definition times_part :: "os_env \<Rightarrow> cbytes" where
  "times_part env =
    (let t = os_info_boot_time (oe_utmp env); s = os_info_last_shutdow_time (oe_wtmp env) in
     (if t \<noteq> -1 then put_line (cbytes_of ''boot time:'' @ dec_of_int t) else [])
     @ (if s \<noteq> -1 then put_line (cbytes_of ''Last shutdown time:'' @ dec_of_int s) else []))"

definition logins_part :: "os_env \<Rightarrow> os_state \<Rightarrow> cbytes \<Rightarrow> (cbytes \<times> os_state) option res" where
  "logins_part env st out =
    rbind (os_info_running_tty (oe_utmp env) (running_user (oe_localtime env)) (Inr (out @ [10]))) (\<lambda>(ret, a).
    rbind a (\<lambda>out.
    let out = (if ret \<noteq> 0 then out @ put_line (cbytes_of ''get running tty  failed'') else out) @ [10]
                @ put_line (cbytes_of ''logout tty:'') in
    obind (os_info_logout_tty (oe_fuel env) (oe_oom env) (oe_wtmp env) (logout_user (oe_localtime env)) (Inr out) st)
      (\<lambda>(ret, a, st).
    rbind a (\<lambda>out.
      Inr (Some (if ret \<noteq> 0 then out @ put_line (cbytes_of ''get logout tty failed'') else out, st))))))"

definition version_line :: "int \<Rightarrow> cbytes" where
  "version_line ret =
    (if ret < 0 then []
     else if ret = OS_VERSION_UBUNTU18 then put_line (cbytes_of ''system version is ubuntu18'')
     else if ret = OS_VERSION_CENTOS7 then put_line (cbytes_of ''system version is centos7'')
     else if ret = OS_VERSION_CENTOS6 then put_line (cbytes_of ''system version is centos6'')
     else put_line (cbytes_of ''Current system version is not adapter''))"

definition user_part :: "os_env \<Rightarrow> cbytes res" where
  "user_part env =
    rbind (os_current_user (oe_user_oom env) (oe_sysconf env) (oe_getpwuid_r env) (Some (replicate 256 0)) 256) (\<lambda>(ret, buff).
    rbind (answer_line ret buff (cbytes_of ''login user: '') (cbytes_of ''get current login user is error'')) (\<lambda>l.
      Inr (put_line (cbytes_of ''**************************************current login user*********************'') @ l
        @ put_line (cbytes_of ''**************************************current login user end*********************''))))"

definition testos_main :: "os_env \<Rightarrow> os_state \<Rightarrow> (int \<times> cbytes \<times> os_state) option res" where
  "testos_main env st =
    rbind (ident_part env) (\<lambda>out.
    obind (logins_part env st (out @ times_part env)) (\<lambda>(out, st).
    rbind (os_info_version (oe_version_oom env) (oe_exists env) (oe_files env)) (\<lambda>ret.
    let out = out @ [10, 10] @ version_line ret @ [10]
                @ put_line (cbytes_of ''***************************output info  end *****************************************'') @ [10] in
    rbind (user_part env) (\<lambda>l. Inr (Some (0, out @ l, st))))))"

section \<open>What the program prints of the logins\<close>

definition login_line :: "login_info \<Rightarrow> cbytes" where
  "login_line i = cbytes_of ''User:'' @ cstr (username i) @ cbytes_of '', host:'' @ cstr (hostname i) @ cbytes_of '', tty:''
    @ cstr (tty i) @ cbytes_of '', logintime:''"

definition running_line :: "(int \<Rightarrow> date_tm) \<Rightarrow> login_info \<Rightarrow> cbytes" where
  "running_line lt i = put_line (cbytes_of ''pid:'' @ dec_of_int (pid i) @ cbytes_of '' '' @ login_line i @ date_text lt (logintime i))"

definition session_line :: "(int \<Rightarrow> date_tm) \<Rightarrow> login_info \<Rightarrow> cbytes" where
  "session_line lt i = put_line (login_line i @ date_text lt (logintime i) @ cbytes_of '', logouttime: '' @ date_text lt (logouttime i))"

text \<open>The texts of a login end inside their arrays.\<close>

definition texts_ok :: "login_info \<Rightarrow> bool" where
  "texts_ok i \<longleftrightarrow> terminated (username i) \<and> terminated (hostname i) \<and> terminated (tty i)"

lemma login_text_line: "texts_ok i \<Longrightarrow> login_text i = Inr (login_line i)"
  by (simp add: texts_ok_def login_text_def login_line_def text_of_def)

lemma callbacks_print:
  assumes "texts_ok i"
  shows "told (running_user lt) i (Inr out) = (False, Inr (out @ running_line lt i))"
    "told (logout_user lt) i (Inr out) = (False, Inr (out @ session_line lt i))"
  using login_text_line [OF assms]
  by (simp_all add: told_def running_user_def logout_user_def running_line_def session_line_def)

lemma visit_prints:
  assumes "\<forall>x \<in> set xs. P x" "\<And>x out. P x \<Longrightarrow> g x (Inr out) = (False, Inr (out @ f x))"
  shows "visit g xs (Inr out) = Inr (out @ concat (map f xs))"
  using assms(1) by (induction xs arbitrary: out) (auto simp: assms(2))

lemma padded_terminated: "length s < n \<Longrightarrow> terminated (padded n s)"
  by (simp add: padded_def terminated_def)

lemma login_cell_texts:
  assumes "rec_ok r"
  shows "texts_ok (info (login_cell r))"
proof -
  have "length (cstr (ut_line r)) < MAX_TTY_LEN" "length (cstr (ut_user r)) < MAX_USER_NAME"
      "length (cstr (ut_host r)) < MAX_HOST_NAME"
    using assms cstr_shorter [of "ut_line r"] cstr_shorter [of "ut_user r"] cstr_shorter [of "ut_host r"]
    by (auto simp: rec_ok_def MAX_TTY_LEN_def MAX_USER_NAME_def MAX_HOST_NAME_def)
  moreover from this have "length ([] :: cbytes) < MAX_USER_NAME" "length ([] :: cbytes) < MAX_HOST_NAME" by auto
  ultimately show ?thesis
    unfolding texts_ok_def login_cell_def login_list.select_convs login_info.select_convs
    by (intro conjI; cases "ut_type r = USER_PROCESS"; simp only: simp_thms if_True if_False padded_terminated)
qed

lemma running_texts: "rec_ok r \<Longrightarrow> texts_ok (running_info r)"
  using login_cell_texts [of r] by (simp add: running_info_def texts_ok_def)

lemma kept_subset: "set (kept oom t rs) \<subseteq> set rs"
  by (induction oom t rs rule: kept.induct) auto

lemma first_logout_subset: "first_logout l rs = Some (x, ys) \<Longrightarrow> set ys \<subseteq> set rs"
  by (induction rs arbitrary: ys) (auto split: if_splits)

lemma session_texts: "texts_ok (session l r) = texts_ok (info l)"
  by (simp add: session_def texts_ok_def)

lemma sessions_texts: "\<forall>l \<in> set ls. texts_ok (info l) \<Longrightarrow> \<forall>i \<in> set (sessions ls). texts_ok i"
proof (induction ls rule: sessions.induct)
  case (2 l ls)
  show ?case
  proof (cases "list_type l = USER_PROCESS")
    case False
    then show ?thesis using 2(1) 2(4) by simp
  next
    case user: True
    show ?thesis
    proof (cases "first_logout l ls")
      case None
      then have "\<forall>i \<in> set (sessions ls). texts_ok i" using 2(2) 2(4) user by simp
      then show ?thesis using user None by simp
    next
      case (Some p)
      then obtain r ls' where p: "first_logout l ls = Some (r, ls')" by (cases p) auto
      then have "\<forall>l \<in> set ls'. texts_ok (info l)" using 2(4) first_logout_subset [OF p] by auto
      then have "\<forall>i \<in> set (sessions ls'). texts_ok i" using 2(3) user p by simp
      then show ?thesis using user p 2(4) by (simp add: session_texts)
    qed
  qed
qed simp

text \<open>C36: what \<open>testos\<close> prints of the logins when both files can be read: a line for each login that runs, in
  the order of \<open>utmp\<close>, and a line for each session of \<open>wtmp\<close> that has ended, with both dates, whichever
  allocations fail.  Neither list meets a fault, and what is left allocated are the logins that are still
  open.\<close>

theorem testos_lists_logins:
  assumes "oe_utmp env = Some urecs" "oe_wtmp env = Some wrecs"
    and "\<forall>r \<in> set urecs. rec_ok r" "\<forall>r \<in> set wrecs. rec_ok r" "mem_ok m" "length wrecs + 1 < oe_fuel env"
  defines "cs \<equiv> map login_cell (kept (oe_oom env) (allocs m) wrecs)"
  shows "\<exists>m' s'. logins_part env (m, s) out =
      Inr (Some (out @ [10]
        @ concat (map (running_line (oe_localtime env)) (map running_info (filter (\<lambda>r. ut_type r = USER_PROCESS) urecs)))
        @ [10] @ put_line (cbytes_of ''logout tty:'') @ concat (map (session_line (oe_localtime env)) (sessions cs)), m', s')) \<and>
    leaves (cells m) m' (length (open_logins cs))"
proof -
  let ?lt = "oe_localtime env"
  let ?us = "map running_info (filter (\<lambda>r. ut_type r = USER_PROCESS) urecs)"
  let ?o1 = "(out @ [10]) @ concat (map (running_line ?lt) ?us)"
  let ?o2 = "?o1 @ [10] @ put_line (cbytes_of ''logout tty:'')"
  have "\<forall>i \<in> set ?us. texts_ok i" using assms(3) by (auto intro: running_texts)
  then have "visit (told (running_user ?lt)) ?us (Inr (out @ [10])) = Inr ?o1"
    by (rule visit_prints) (rule callbacks_print)
  then have 1: "os_info_running_tty (Some urecs) (running_user ?lt) (Inr (out @ [10])) = Inr (0, Inr ?o1)"
    by (simp add: os_info_running_tty_def running_loop_visits [OF assms(3)])
  have "\<forall>l \<in> set cs. texts_ok (info l)"
    using assms(4) kept_subset [of "oe_oom env" "allocs m" wrecs] by (auto simp: cs_def intro!: login_cell_texts)
  then have "\<forall>i \<in> set (sessions cs). texts_ok i" by (rule sessions_texts)
  then have v: "visit (told (logout_user ?lt)) (sessions cs) (Inr ?o2) = Inr (?o2 @ concat (map (session_line ?lt) (sessions cs)))"
    by (rule visit_prints) (rule callbacks_print)
  obtain m' s' k where 2: "os_info_logout_tty (oe_fuel env) (oe_oom env) (Some wrecs) (logout_user ?lt) (Inr ?o2) (m, s) =
      Inr (Some (0, visit (told (logout_user ?lt)) (sessions cs) (Inr ?o2), m', s'))"
    "leaves (cells m) m' k" "(\<forall>i a. 0 \<le> fst (logout_user ?lt i a)) \<longrightarrow> k = length (open_logins cs)"
    using logout_tty_run [OF assms(5,4,6), of "oe_oom env" "logout_user ?lt" "Inr ?o2" s] unfolding cs_def by blast
  have k: "k = length (open_logins cs)" using 2(3) by (simp add: logout_user_def)
  have "logins_part env (m, s) out = Inr (Some (?o2 @ concat (map (session_line ?lt) (sessions cs)), m', s'))"
    unfolding logins_part_def assms(1,2) 1 Let_def
    by (simp only: rbind_simps prod.case simp_thms if_False 2(1) v obind_simps)
  then show ?thesis using 2(2) k by auto
qed

definition sample_os :: os_env where
  "sample_os = \<lparr>oe_files = \<lambda>_. None, oe_utmp = Some sample_wtmp, oe_wtmp = Some sample_wtmp,
     oe_localtime = \<lambda>t. \<lparr>tm_year = 70, tm_mon = 0, tm_mday = 1, tm_hour = 0, tm_min = 0, tm_sec = t\<rparr>, oe_fuel = 5,
     oe_oom = \<lambda>_. False, oe_version_oom = False, oe_exists = \<lambda>_. False, oe_user_oom = False, oe_sysconf = 0,
     oe_getpwuid_r = \<lambda>_. (0, None)\<rparr>"

theorem testos_lists_logins_witness:
  "\<exists>m' s'. logins_part sample_os (\<lparr>cells = Map.empty, allocs = 0\<rparr>, \<lparr>prv = id, nxt = id\<rparr>) [] =
      Inr (Some ([10] @ cbytes_of ''pid:1 User:root, host:, tty:tty1, logintime:5(1970-01-01 00:00:05)'' @ [10]
        @ cbytes_of ''pid:1 User:root, host:, tty:tty2, logintime:6(1970-01-01 00:00:06)'' @ [10]
        @ [10] @ cbytes_of ''logout tty:'' @ [10]
        @ cbytes_of ''User:root, host:, tty:tty1, logintime:5(1970-01-01 00:00:05), logouttime: 9(1970-01-01 00:00:09)'' @ [10], m', s')) \<and>
    leaves Map.empty m' 1"
proof -
  let ?cs = "map login_cell (kept (\<lambda>_. False) 0 sample_wtmp)"
  have r: "concat (map (running_line (oe_localtime sample_os)) (map running_info (filter (\<lambda>r. ut_type r = USER_PROCESS) sample_wtmp))) =
      cbytes_of ''pid:1 User:root, host:, tty:tty1, logintime:5(1970-01-01 00:00:05)'' @ [10]
        @ cbytes_of ''pid:1 User:root, host:, tty:tty2, logintime:6(1970-01-01 00:00:06)'' @ [10]"
    by code_simp
  have s: "concat (map (session_line (oe_localtime sample_os)) (sessions ?cs)) =
      cbytes_of ''User:root, host:, tty:tty1, logintime:5(1970-01-01 00:00:05), logouttime: 9(1970-01-01 00:00:09)'' @ [10]"
    by code_simp
  have l: "length (open_logins ?cs) = 1" by code_simp
  have o: "oe_oom sample_os = (\<lambda>_. False)" "oe_utmp sample_os = Some sample_wtmp" "oe_wtmp sample_os = Some sample_wtmp"
    "oe_fuel sample_os = 5" by (simp_all add: sample_os_def)
  have m: "mem_ok \<lparr>cells = Map.empty, allocs = 0\<rparr>" "length sample_wtmp + 1 < oe_fuel sample_os"
    by (simp_all add: mem_ok_def sample_wtmp_def sample_os_def)
  note t = testos_lists_logins [OF o(2,3) sample_wtmp_ok sample_wtmp_ok m, of "\<lparr>prv = id, nxt = id\<rparr>" "[]"]
  show ?thesis
    using t by (simp only: o(1) mem.select_convs r s l put_line_def append_Nil append_assoc)
qed

end
