(* ===== verification/Spec2Isabelle.thy ===== *)
theory Spec2Isabelle
  imports Prelude List_Head Gen_Md5 Fcp_String Gen_General Fcp_Os Fcp_Signal Fcp_Socket Fcp_File Gen_Mm Gen_Log Fcp_Arp Fcp_Net_Table Fcp_Proc
    Ex_String Ex_Signal Ex_Socket Ex_File Ex_Daemon Ex_Net Ex_Proc Ex_Os
begin

text \<open>
  commlib (\<open>libmyfcp\<close>) is a small C library of system utilities for Linux: an MD5 digest, string
  and path helpers, iterators over text fields, directories and the ARP table, readers of \<open>/proc\<close>
  and of the login records, and wrappers around signals, sockets and files.  The files of
  \<open>src/src/myfcp\<close> with the prefix \<open>gen\<close> and \<open>general.c\<close> are its inner layer, those with the
  prefix \<open>fcp\<close> the exported one.  This development is a shallow embedding of both layers, function by
  function, with the properties that make them correct; where the code is not correct the property
  says what it does instead and under which condition it does what it is meant to.

  \<^bold>\<open>How the code is read.\<close>
  Bytes are words of 8 bits and \<open>unsigned int\<close> words of 32, with their wrap-around; an \<open>int\<close> that
  is only compared or counted is \<open>int\<close> or \<open>nat\<close>.  An array is the list of its bytes and a \<open>char *\<close> an
  offset into it.  Every access is checked: a read or write outside an object, a use after release, a
  second release and a null dereference are faults (\<open>Inl\<close>, type \<open>fault\<close> of Prelude), so that each
  theorem about an \<open>Inr\<close> result also says that the code has no such undefined behaviour there.
  Error returns are ordinary values.  State the code mutates is passed explicitly: the link fields of
  the list (\<open>links\<close>), allocated cells (\<open>mem\<close>), the descriptor table (\<open>kern\<close>), the signal state
  (\<open>sig_state\<close>).  A caller's callback is a function from its arguments and its own state.

  What lies outside the sources is an argument of the definitions: the contents of files, the entries
  of directories, targets of links and records of \<open>wtmp\<close> as data (or \<open>None\<close> where opening fails); the
  outcome of the \<open>n\<close>-th allocation (\<open>oom\<close>) or system call (\<open>ans\<close>); the bytes an uninitialised
  object holds (\<open>junk\<close>).  No property assumes that these succeed unless it says so.

  \<^bold>\<open>The shared layers.\<close>
  \<^item> \<open>Prelude\<close>: types, faults, the two monadic binds, lists and words.  \<open>Memory\<close>: allocated cells and the
    notion that an operation returns all it has allocated.  \<open>Libc\<close>: the string functions of the C
    library the sources call (\<open>atoi\<close>, \<open>strrchr\<close>, \<open>snprintf\<close>, \<open>fgets\<close> and others).  \<open>Kernel_Fds\<close>: the
    descriptor table.
  \<^item> \<open>Item_Stream\<close> (\<open>fcp_base.h\<close>): the protocol of the iterators, as the locale \<open>item_stream\<close>.  Each
    call yields an item or ends and releases; the locale proves once that a client's loop visits all
    items in order until it stops, and that nothing stays allocated.  It is interpreted by the string
    fields (\<open>field_stream\<close>), the directories (\<open>dir_stream\<close>) and the ARP table (\<open>arp_stream\<close>).

  \<^bold>\<open>The components.\<close>
  \<^item> \<open>List_Head\<close> (\<open>list.h\<close>): the circular list over a store of link fields, related to HOL lists by
    \<open>ring\<close>.  Insertion, removal, replacement and popping act as on the HOL list; the locale
    \<open>node_queue\<close>, interpreted by \<open>list_add_tail\<close> and \<open>list_pop_front\<close>, gives the queue behaviour.
  \<^item> \<open>Md5\<close>, \<open>Md5_Ref\<close>, \<open>Md5_Correct\<close> (\<open>genmd5.c\<close>): the context, the unrolled transform and the streaming
    interface; the definition of RFC 1321; the equality of the transform with it, and the invariant
    \<open>md5_rep\<close> under which any cutting of a message into updates has the reference digest (locale
    \<open>streaming_digest\<close>).  \<open>Md5_Vectors\<close>: a known answer.  \<open>Gen_Md5\<close>: the digests of strings and of files with short, empty and failing reads.
  \<^item> \<open>Gen_String\<close>, \<open>Base64\<close>, \<open>Gen_Field\<close> (\<open>genstring.c\<close>), \<open>Fcp_String\<close> (\<open>fcp_string.c\<close>): trimming, the
    last component of a path, encoding and decoding against RFC 4648 with the bytes and lengths for
    which the code computes them, the field iterator.
  \<^item> \<open>Gen_Dir\<close>, \<open>Gen_General\<close> (\<open>general.c\<close>): the directory iterator with every allocation able to fail, the
    walk over the processes; cutting a line into fields, the release of the system.
  \<^item> \<open>Fcp_Os\<close> (\<open>fcp_os.c\<close>): boot and shutdown times, the identifiers, and the pairing of logins with
    logouts, which works on allocated list nodes and is proved to refine a function on the sequence
    of records (\<open>sessions\<close>), with the number of nodes it leaks.
  \<^item> \<open>Fcp_Signal\<close> (\<open>fcp_signal.c\<close>): dispositions and masks, what is saved and what is blocked after any
    sequence of calls (\<open>sig_reach\<close>, \<open>handled\<close>, \<open>asked\<close>), restoring, and the sets that are blocked in between.
  \<^item> \<open>Fcp_Socket\<close>, \<open>Fcp_File\<close> (\<open>fcp_socket.c\<close>, \<open>fcp_file.c\<close>, the lock test of \<open>fcp_base.c\<close>), \<open>Fcp_Proc\<close>
    (\<open>fcp_proc.c\<close>): which descriptors stay open on which path, kinds of files, the records of \<open>/proc\<close>, the
    daemon's descriptors.
  \<^item> \<open>Fcp_Net\<close>, \<open>Fcp_Arp\<close> (\<open>fcp_net.c\<close>): endpoints in hexadecimal, the process behind a socket by way of
    \<open>Gen_Dir\<close>, local addresses, and the ARP iterators.  \<open>Fcp_Net_Table\<close>: the loop over the table of sockets,
    from the text the kernel prints for a socket (record \<open>sock\<close>) to what the callback is given.
  \<^item> \<open>Gen_Mm\<close> (\<open>genmm.c\<close>, \<open>fcp_mm.c\<close>) and \<open>Gen_Log\<close> (\<open>genlog.c\<close>): growing a block; where messages go.

  \<^bold>\<open>The programs of \<open>src/src/example\<close>.\<close>
  Each is a definition from its arguments and the answers of the system to its output, a list of bytes
  (\<open>put_line\<close> and the conversions of \<open>printf\<close> are in \<open>Libc\<close>); each composes the models of the library as
  its \<open>main\<close> does, and the theorems say what it, or a part of it, prints.
  \<^item> \<open>Ex_String\<close> (\<open>teststring.c\<close>): a closed program, so its whole output.  \<open>Ex_File\<close> (\<open>testfile.c\<close>).
  \<^item> \<open>Ex_Signal\<close> (\<open>testsignal.c\<close>): interrupts as deliveries to the state of \<open>Fcp_Signal\<close>.
  \<^item> \<open>Ex_Socket\<close> (\<open>acceptser.c\<close>, \<open>acceptcli.c\<close>): server and client, and the message on its way through both.
  \<^item> \<open>Ex_Daemon\<close> (\<open>testdaemon.c\<close>): the two processes as a step function under a schedule, with the invariant
    of their common log and its growth under every fair schedule.
  \<^item> \<open>Ex_Net\<close> (\<open>testnet.c\<close>): addresses, both tables of sockets, the ARP entries and the ping switch, from
    the texts of \<open>/proc/net\<close> to the output.  \<open>Ex_Proc\<close> (\<open>testproc.c\<close>): the command line and
    the report on a process, from the texts of \<open>/proc\<close>.  \<open>Ex_Os\<close> (\<open>testos.c\<close>): the lists of running logins
    and of ended sessions.

  \<^bold>\<open>Bounds.\<close>
  A loop over an array ends by a measure and needs no bound.  Loops that follow pointers or call an
  iterator take a fuel, and \<open>Inr None\<close> is a loop that has not ended.  One unit is spent on each
  turn: an iteration over \<open>n\<close> items needs more than \<open>n\<close>, the pairing of \<open>n\<close> login records more than
  \<open>n + 1\<close>.  The properties have these inequalities as hypotheses and conclude that the result is
  \<open>Some\<close>, so they also say that the loops end.

  \<^bold>\<open>Not modelled.\<close>
  The build files hold no logic.  The conversion of a time to a date (\<open>localtime_r\<close>) is an argument, and
  that printing itself may fail is ignored.  Streams are objects, or counted, where they outlive a call or are opened
  in a loop (the ARP table, the threads of a process, \<open>os_info\<close>, \<open>com_foreach_net_info\<close>); where a function
  opens and closes one by itself only its content is modelled.  Within the components: the text of messages on error, the formatting of log
  messages (\<open>vsnprintf\<close>) and \<open>openlog\<close>; \<open>errno\<close>; concurrent changes of a file or directory while it is
  read; the values of signed lengths beyond \<open>INT_MAX\<close>, whose overflow is undefined.
\<close>

end
